(* ===== verification/Abydos_Prelude.thy ===== *)
theory Abydos_Prelude
  imports Main "HOL-Library.Word" "HOL-Library.Monad_Syntax"
begin

text \<open>
  Shared vocabulary of the development: the machine types of
  \<^verbatim>\<open>kernel/inc/k_types.h\<close>, the error codes and memory layout of
  \<^verbatim>\<open>kernel/inc/k_defs.h\<close>, C bit fields on 64-bit words, and the word and list
  lemmas the components use. A result of type \<^typ>\<open>'a option\<close> is \<^const>\<open>None\<close> where the code
  accesses memory that is not mapped (a trap of the kernel); an integer result is the
  code's own return value, zero or positive for success and a negative \<open>K_E\<close> code otherwise.
\<close>

unbundle bit_operations_syntax

named_theorems kdefs \<open>constants of k_defs.h and of the interface headers\<close>
named_theorems bf_bits \<open>bit-wise reading of bit-field operations\<close>

section \<open>Machine types\<close>

type_synonym u8 = "8 word"
type_synonym u16 = "16 word"
type_synonym u32 = "32 word"
type_synonym u64 = "64 word"

section \<open>Error codes and configuration\<close>

definition K_OK :: int where [kdefs]: "K_OK = 0"
definition K_EFAIL :: int where [kdefs]: "K_EFAIL = -1"
definition K_ENOTSUPP :: int where [kdefs]: "K_ENOTSUPP = -2"
definition K_EINVAL :: int where [kdefs]: "K_EINVAL = -3"
definition K_EDENIED :: int where [kdefs]: "K_EDENIED = -4"
definition K_EINVALID_ADDR :: int where [kdefs]: "K_EINVALID_ADDR = -5"
definition K_EALREADY :: int where [kdefs]: "K_EALREADY = -6"
definition K_EALREADY_STARTED :: int where [kdefs]: "K_EALREADY_STARTED = -7"
definition K_EALREADY_STOPPED :: int where [kdefs]: "K_EALREADY_STOPPED = -8"
definition K_ENO_SHMEM :: int where [kdefs]: "K_ENO_SHMEM = -9"
definition K_ENODEV :: int where [kdefs]: "K_ENODEV = -1000"
definition K_ENOSYS :: int where [kdefs]: "K_ENOSYS = -1001"
definition K_ETIMEDOUT :: int where [kdefs]: "K_ETIMEDOUT = -1002"
definition K_EIO :: int where [kdefs]: "K_EIO = -1003"
definition K_EILL :: int where [kdefs]: "K_EILL = -1004"
definition K_ENOSPC :: int where [kdefs]: "K_ENOSPC = -1005"
definition K_ENOMEM :: int where [kdefs]: "K_ENOMEM = -1006"
definition K_EUNKNOWN :: int where [kdefs]: "K_EUNKNOWN = -1007"
definition K_ENOENT :: int where [kdefs]: "K_ENOENT = -1008"

definition K_CONFIG_MAX_PROCESSORS :: nat where [kdefs]: "K_CONFIG_MAX_PROCESSORS = 64"
definition K_CONFIG_STACK_SIZE_N :: nat where [kdefs]: "K_CONFIG_STACK_SIZE_N = 13"
definition K_CONFIG_STACK_SIZE :: nat where [kdefs]: "K_CONFIG_STACK_SIZE = 8192"
definition K_CONFIG_KERNEL_STACK_SIZE :: nat where [kdefs]: "K_CONFIG_KERNEL_STACK_SIZE = 64 * 8192"
definition K_CONFIG_CPU_DEFAULT_CLOCK :: nat where [kdefs]: "K_CONFIG_CPU_DEFAULT_CLOCK = 10000000"

definition K_VADDR_BASE :: u64 where [kdefs]: "K_VADDR_BASE = 0xFFFFFFC000000000"
definition K_START_PADDR :: u64 where [kdefs]: "K_START_PADDR = 0x80200000"
definition K_START_VADDR :: u64 where [kdefs]: "K_START_VADDR = K_VADDR_BASE + K_START_PADDR"
definition K_START_STACK_ADDR :: u64 where [kdefs]: "K_START_STACK_ADDR = K_START_VADDR"

definition DRV_CAP_NONE :: int where [kdefs]: "DRV_CAP_NONE = 0"
definition DRV_CAP_THIS :: int where [kdefs]: "DRV_CAP_THIS = 1"
definition DRV_CAP_COVER :: int where [kdefs]: "DRV_CAP_COVER = 2"

section \<open>C bit fields on a 64-bit word\<close>

text \<open>\<open>bf_get lo w x\<close> reads the field of width \<open>w\<close> whose lowest bit is \<open>lo\<close>,
  \<open>bf_set lo w v x\<close> stores \<open>v\<close> (truncated to the width) there.\<close>

definition bf_get :: "nat \<Rightarrow> nat \<Rightarrow> u64 \<Rightarrow> u64" where
  "bf_get lo w x = take_bit w (drop_bit lo x)"

definition bf_set :: "nat \<Rightarrow> nat \<Rightarrow> u64 \<Rightarrow> u64 \<Rightarrow> u64" where
  "bf_set lo w v x = (x AND NOT (push_bit lo (mask w))) OR push_bit lo (take_bit w v)"

lemma bit_bf_get [bf_bits]: "bit (bf_get lo w x) i \<longleftrightarrow> i < w \<and> bit x (lo + i)"
  by (auto simp: bf_get_def bit_simps ac_simps)

lemma bit_bf_set [bf_bits]:
  "bit (bf_set lo w v x) i \<longleftrightarrow> i < 64 \<and> (if lo \<le> i \<and> i < lo + w then bit v (i - lo) else bit x i)"
  by (cases "i < 64") (auto simp: bf_set_def bit_simps)

lemma word_bit_extI: "(\<And>i. i < 64 \<Longrightarrow> bit x i \<longleftrightarrow> bit y i) \<Longrightarrow> x = (y :: u64)"
  by (rule bit_word_eqI) simp

lemma bf_get_set_same: "lo + w \<le> 64 \<Longrightarrow> bf_get lo w (bf_set lo w v x) = take_bit w v"
  by (rule word_bit_extI) (auto simp: bf_bits bit_simps)

lemma bf_get_set_other:
  "lo + w \<le> lo' \<or> lo' + w' \<le> lo \<Longrightarrow> lo + w \<le> 64 \<Longrightarrow> bf_get lo w (bf_set lo' w' v x) = bf_get lo w x"
  by (rule word_bit_extI) (auto simp: bf_bits bit_simps)

section \<open>Words and natural numbers\<close>

lemma unat_take_bit_word: "unat (take_bit n (x :: u64)) = unat x mod 2 ^ n"
  by (simp add: take_bit_eq_mod[symmetric] unsigned_take_bit_eq)

lemma unat_drop_bit_word: "unat (drop_bit n (x :: u64)) = unat x div 2 ^ n"
  by (simp only: unat_drop_bit_eq) (simp add: drop_bit_eq_div)

lemma and_mask12: "(b :: u64) AND 0xFFF = take_bit 12 b"
  by (simp add: take_bit_eq_mask mask_numeral)

lemma aligned12_iff: "(b :: u64) AND 0xFFF = 0 \<longleftrightarrow> unat b mod 4096 = 0"
proof -
  have "take_bit 12 b = 0 \<longleftrightarrow> unat (take_bit 12 b) = 0" by (simp add: unat_eq_zero)
  then show ?thesis by (simp add: and_mask12 unat_take_bit_word)
qed

end
