(* ===== verification/Sv_Paging.thy ===== *)
theory Sv_Paging
  imports Abydos_Prelude
begin

text \<open>
  The page-table walk of the RISC-V privileged architecture for Sv39, Sv48 and Sv57, the
  specification that the page tables built by \<^verbatim>\<open>kernel/inc/k_mmu.h\<close> are judged against,
  and the theory of page-table trees in memory the proofs about that code rest on.
  Memory is a function from the physical address of a doubleword to its value; an index
  function gives the table index of a virtual address at each level, level 0 being the root.
\<close>

section \<open>Page-table entries as the hardware reads them\<close>

definition pte_v :: "u64 \<Rightarrow> bool" where "pte_v e = bit e 0"
definition pte_r :: "u64 \<Rightarrow> bool" where "pte_r e = bit e 1"
definition pte_w :: "u64 \<Rightarrow> bool" where "pte_w e = bit e 2"
definition pte_x :: "u64 \<Rightarrow> bool" where "pte_x e = bit e 3"

lemmas pte_bit_defs = pte_v_def pte_r_def pte_w_def pte_x_def

text \<open>A valid entry with no permission points to the next table; a leaf is readable or
  executable, and writable only if readable; every other valid entry is reserved.\<close>

definition pte_ptr :: "u64 \<Rightarrow> bool" where
  "pte_ptr e \<longleftrightarrow> pte_v e \<and> \<not> pte_r e \<and> \<not> pte_w e \<and> \<not> pte_x e"

definition pte_leaf :: "u64 \<Rightarrow> bool" where
  "pte_leaf e \<longleftrightarrow> pte_v e \<and> (pte_r e \<or> pte_x e \<and> \<not> pte_w e)"

definition pte_base :: "u64 \<Rightarrow> u64" where
  "pte_base e = push_bit 12 (bf_get 10 44 e)"

definition slot :: "u64 \<Rightarrow> u64 \<Rightarrow> u64" where
  "slot b i = b + 8 * i"

section \<open>The walk\<close>

primrec sv_walk :: "(u64 \<Rightarrow> u64) \<Rightarrow> (nat \<Rightarrow> u64) \<Rightarrow> nat \<Rightarrow> nat \<Rightarrow> u64 \<Rightarrow> (nat \<times> u64) option" where
  "sv_walk m idx 0 l b =
     (let e = m (slot b (idx l)) in if pte_leaf e then Some (l, e) else None)"
| "sv_walk m idx (Suc n) l b =
     (let e = m (slot b (idx l)) in
      if pte_leaf e then Some (l, e)
      else if pte_ptr e then sv_walk m idx n (Suc l) (pte_base e) else None)"

text \<open>The number of levels below the root, the index of a level and the size of the region
  an entry of that level covers (\<open>2 ^ sv_shift\<close> bytes).\<close>

definition sv_top :: "nat \<Rightarrow> nat" where
  "sv_top sz = (sz - 12) div 9 - 1"

definition sv_shift :: "nat \<Rightarrow> nat \<Rightarrow> nat" where
  "sv_shift sz l = 12 + 9 * (sv_top sz - l)"

definition sv_vpn :: "nat \<Rightarrow> u64 \<Rightarrow> nat \<Rightarrow> u64" where
  "sv_vpn sz va l = bf_get (sv_shift sz l) 9 va"

definition sv_mode :: "nat \<Rightarrow> bool" where
  "sv_mode sz \<longleftrightarrow> sz = 39 \<or> sz = 48 \<or> sz = 57"

text \<open>A virtual address is canonical when its upper bits repeat the highest translated bit.\<close>

definition sv_canonical :: "nat \<Rightarrow> u64 \<Rightarrow> bool" where
  "sv_canonical sz va \<longleftrightarrow> (signed_take_bit (sz - 1) va = va)"

definition sv_lookup :: "nat \<Rightarrow> u64 \<Rightarrow> (u64 \<Rightarrow> u64) \<Rightarrow> u64 \<Rightarrow> (nat \<times> u64) option" where
  "sv_lookup sz root m va = sv_walk m (sv_vpn sz va) (sv_top sz) 0 root"

text \<open>The physical address and the eight flag bits (V, R, W, X, U, G, A, D) of the leaf;
  a superpage whose frame is not aligned to its size faults.\<close>

definition sv_translate :: "nat \<Rightarrow> u64 \<Rightarrow> (u64 \<Rightarrow> u64) \<Rightarrow> u64 \<Rightarrow> (u64 \<times> u64) option" where
  "sv_translate sz root m va =
     (if \<not> sv_canonical sz va then None
      else case sv_lookup sz root m va of
        None \<Rightarrow> None
      | Some (l, e) \<Rightarrow>
          (if take_bit (sv_shift sz l) (pte_base e) \<noteq> 0 then None
           else Some (pte_base e OR take_bit (sv_shift sz l) va, take_bit 8 e)))"

section \<open>Tables reached from the root\<close>

text \<open>\<open>tbl_at m r idx l\<close> is the table of level \<open>l\<close> on the path that \<open>idx\<close> describes,
  reached through valid pointers only.\<close>

primrec tbl_at :: "(u64 \<Rightarrow> u64) \<Rightarrow> u64 \<Rightarrow> (nat \<Rightarrow> u64) \<Rightarrow> nat \<Rightarrow> u64 option" where
  "tbl_at m r idx 0 = Some r"
| "tbl_at m r idx (Suc l) =
     (case tbl_at m r idx l of
        None \<Rightarrow> None
      | Some b \<Rightarrow> (let e = m (slot b (idx l)) in if pte_ptr e then Some (pte_base e) else None))"

definition agree :: "nat \<Rightarrow> (nat \<Rightarrow> u64) \<Rightarrow> (nat \<Rightarrow> u64) \<Rightarrow> bool" where
  "agree l idx idx' \<longleftrightarrow> (\<forall>k<l. idx k = idx' k)"

definition idx_ok :: "(nat \<Rightarrow> u64) \<Rightarrow> bool" where
  "idx_ok idx \<longleftrightarrow> (\<forall>l. idx l < 512)"

definition leaf_at :: "(u64 \<Rightarrow> u64) \<Rightarrow> u64 \<Rightarrow> (nat \<Rightarrow> u64) \<Rightarrow> nat \<Rightarrow> u64 \<Rightarrow> bool" where
  "leaf_at m r idx l e \<longleftrightarrow> (\<exists>b. tbl_at m r idx l = Some b \<and> m (slot b (idx l)) = e \<and> pte_leaf e)"

text \<open>A page that can hold a table: page aligned, not page zero, in the first 4 GiB of
  physical memory, the part the kernel window covers.\<close>

definition page_ok :: "u64 \<Rightarrow> bool" where
  "page_ok b \<longleftrightarrow> b AND 0xFFF = 0 \<and> b \<noteq> 0 \<and> b < 0x100000000"

lemma not_leaf_ptr: "pte_leaf e \<Longrightarrow> \<not> pte_ptr e"
  by (auto simp: pte_leaf_def pte_ptr_def)

lemma not_leaf_invalid [simp]: "\<not> pte_v e \<Longrightarrow> \<not> pte_leaf e" "\<not> pte_v e \<Longrightarrow> \<not> pte_ptr e"
  by (auto simp: pte_leaf_def pte_ptr_def)

lemma pte_zero [simp]: "\<not> pte_v 0" "\<not> pte_leaf 0" "\<not> pte_ptr 0"
  by (simp_all add: pte_leaf_def pte_ptr_def pte_v_def)

lemma agree_refl [simp]: "agree l idx idx"
  by (simp add: agree_def)

lemma agree_sym: "agree l idx idx' \<Longrightarrow> agree l idx' idx"
  by (simp add: agree_def)

lemma agree_mono: "agree l idx idx' \<Longrightarrow> k \<le> l \<Longrightarrow> agree k idx idx'"
  by (simp add: agree_def)

lemma agree_Suc: "agree (Suc l) idx idx' \<longleftrightarrow> agree l idx idx' \<and> idx l = idx' l"
  by (auto simp: agree_def less_Suc_eq)

lemma tbl_at_agree: "agree l idx idx' \<Longrightarrow> tbl_at m r idx l = tbl_at m r idx' l"
  by (induction l) (auto simp: agree_Suc split: option.splits)

lemma tbl_at_down: "tbl_at m r idx l = Some b \<Longrightarrow> k \<le> l \<Longrightarrow> \<exists>b'. tbl_at m r idx k = Some b'"
  by (induction l arbitrary: b) (auto split: option.splits if_splits simp: le_Suc_eq)

lemma tbl_at_ptr:
  "tbl_at m r idx l = Some b \<Longrightarrow> k < l \<Longrightarrow>
     \<exists>b'. tbl_at m r idx k = Some b' \<and> pte_ptr (m (slot b' (idx k)))"
  by (induction l arbitrary: b) (auto split: option.splits if_splits simp: less_Suc_eq Let_def)

subsection \<open>The walk in terms of the tables\<close>

lemma tbl_at_shift:
  "tbl_at m r idx l = Some b \<Longrightarrow> tbl_at m r idx (l + n) = tbl_at m b (\<lambda>k. idx (l + k)) n"
  by (induction n) (auto split: option.splits)

lemma leaf_at_unique:
  assumes "leaf_at m r idx l e" and "leaf_at m r idx l' e'"
  shows "l' = l \<and> e' = e"
proof -
  have no: False if "leaf_at m r idx a x" "leaf_at m r idx c y" "a < c" for a c x y
    using that tbl_at_ptr [of m r idx c _ a] not_leaf_ptr by (fastforce simp: leaf_at_def)
  then have "l' = l" using assms by (metis linorder_neqE_nat)
  with assms show ?thesis by (auto simp: leaf_at_def)
qed

lemma sv_walk_leaf_at:
  "tbl_at m r idx l = Some b \<Longrightarrow>
     sv_walk m idx n l b = Some (l', e) \<longleftrightarrow> l \<le> l' \<and> l' \<le> l + n \<and> leaf_at m r idx l' e"
proof (induction n arbitrary: l b)
  case 0
  then show ?case by (auto simp: Let_def leaf_at_def)
next
  case (Suc n)
  let ?e = "m (slot b (idx l))"
  consider (leaf) "pte_leaf ?e" | (ptr) "pte_ptr ?e" "\<not> pte_leaf ?e" | (none) "\<not> pte_leaf ?e" "\<not> pte_ptr ?e"
    by blast
  then show ?case
  proof cases
    case leaf
    then have "leaf_at m r idx l ?e" using Suc.prems by (auto simp: leaf_at_def)
    then show ?thesis using leaf leaf_at_unique by (auto simp: Let_def)
  next
    case ptr
    then have t: "tbl_at m r idx (Suc l) = Some (pte_base ?e)" using Suc.prems by simp
    have "\<not> leaf_at m r idx l e" using ptr Suc.prems by (auto simp: leaf_at_def)
    then show ?thesis using ptr Suc.IH [OF t] by (auto simp: Let_def Suc_le_eq le_less)
  next
    case none
    have "\<not> leaf_at m r idx l' e" if "l \<le> l'"
    proof
      assume la: "leaf_at m r idx l' e"
      then have "l \<noteq> l'" using none Suc.prems by (auto simp: leaf_at_def)
      with that la show False
        using tbl_at_ptr [of m r idx l' _ l] none Suc.prems by (fastforce simp: leaf_at_def)
    qed
    then show ?thesis using none by (auto simp: Let_def)
  qed
qed

lemma sv_walk_iff:
  "sv_walk m idx n 0 r = Some (l, e) \<longleftrightarrow> l \<le> n \<and> leaf_at m r idx l e"
  using sv_walk_leaf_at [of m r idx 0 r n l e] by simp

lemma sv_walk_cong:
  assumes "\<And>l e. l \<le> n \<Longrightarrow> leaf_at m' r idx l e \<longleftrightarrow> leaf_at m r idx l e"
  shows "sv_walk m' idx n 0 r = sv_walk m idx n 0 r"
proof -
  have "sv_walk m' idx n 0 r = Some p \<longleftrightarrow> sv_walk m idx n 0 r = Some p" for p
    using assms by (cases p) (auto simp: sv_walk_iff)
  then show ?thesis by (metis not_Some_eq)
qed

end
