(* ===== verification/Page_Tables.thy ===== *)
theory Page_Tables
  imports Sv_Paging
begin

text \<open>
  Page-table trees in memory: the well-formedness invariant (every table page is reached by
  exactly one path, every slot is empty, a leaf or a pointer to a usable page) and the effect
  of the two writes the kernel makes to a tree, storing an entry that is not a pointer and
  hanging a fresh zeroed table below a free slot.
\<close>

section \<open>Slots of table pages do not overlap\<close>

lemma unat_slot: "page_ok b \<Longrightarrow> i < 512 \<Longrightarrow> unat (slot b i) = unat b + 8 * unat i"
proof -
  assume b: "page_ok b" and i: "i < 512"
  from i have i': "unat i < 512" by (simp add: word_less_nat_alt)
  then have m: "unat (8 * i) = 8 * unat i" by (simp add: unat_word_ariths)
  from b have "unat b < 0x100000000" by (simp add: page_ok_def word_less_nat_alt)
  with i' m show ?thesis by (simp add: slot_def unat_word_ariths)
qed

lemma page_ok_mod: "page_ok b \<Longrightarrow> unat b mod 4096 = 0"
  by (simp add: page_ok_def aligned12_iff)

lemma slot_eq_iff:
  assumes "page_ok b" "page_ok b'" "i < 512" "i' < 512"
  shows "slot b i = slot b' i' \<longleftrightarrow> b = b' \<and> i = i'"
proof
  assume "slot b i = slot b' i'"
  then have eq: "unat b + 8 * unat i = unat b' + 8 * unat i'"
    using assms by (metis unat_slot)
  have i: "unat i < 512" "unat i' < 512" using assms by (simp_all add: word_less_nat_alt)
  from assms have "4096 dvd unat b" "4096 dvd unat b'" by (simp_all add: page_ok_mod dvd_eq_mod_eq_0)
  then obtain k k' where k: "unat b = 4096 * k" "unat b' = 4096 * k'" by (auto elim!: dvdE)
  from eq i k have "k = k'" by arith
  with eq k have "unat b = unat b'" "unat i = unat i'" by simp_all
  then show "b = b' \<and> i = i'" by (simp add: word_unat_eq_iff)
qed simp

section \<open>The invariant\<close>

definition slot_ok :: "bool \<Rightarrow> u64 \<Rightarrow> bool" where
  "slot_ok inner e \<longleftrightarrow>
     (\<not> pte_v e \<longrightarrow> bf_get 10 44 e = 0) \<and>
     (pte_v e \<longrightarrow> pte_ptr e \<or> pte_leaf e) \<and>
     (pte_ptr e \<longrightarrow> inner \<and> page_ok (pte_base e))"

definition pt_wf :: "(u64 \<Rightarrow> u64) \<Rightarrow> u64 \<Rightarrow> nat \<Rightarrow> bool" where
  "pt_wf m r mx \<longleftrightarrow> page_ok r \<and>
     (\<forall>idx l b. idx_ok idx \<longrightarrow> l \<le> mx \<longrightarrow> tbl_at m r idx l = Some b \<longrightarrow>
        slot_ok (l < mx) (m (slot b (idx l)))) \<and>
     (\<forall>idx idx' l l' b. idx_ok idx \<longrightarrow> idx_ok idx' \<longrightarrow> l \<le> mx \<longrightarrow> l' \<le> mx \<longrightarrow>
        tbl_at m r idx l = Some b \<longrightarrow> tbl_at m r idx' l' = Some b \<longrightarrow> l = l' \<and> agree l idx idx')"

definition tables :: "(u64 \<Rightarrow> u64) \<Rightarrow> u64 \<Rightarrow> nat \<Rightarrow> u64 set" where
  "tables m r mx = {b. \<exists>idx l. idx_ok idx \<and> l \<le> mx \<and> tbl_at m r idx l = Some b}"

lemma pt_wf_slot:
  "pt_wf m r mx \<Longrightarrow> idx_ok idx \<Longrightarrow> l \<le> mx \<Longrightarrow> tbl_at m r idx l = Some b \<Longrightarrow>
     slot_ok (l < mx) (m (slot b (idx l)))"
  by (auto simp: pt_wf_def)

lemma pt_wf_inj:
  "pt_wf m r mx \<Longrightarrow> idx_ok idx \<Longrightarrow> idx_ok idx' \<Longrightarrow> l \<le> mx \<Longrightarrow> l' \<le> mx \<Longrightarrow>
     tbl_at m r idx l = Some b \<Longrightarrow> tbl_at m r idx' l' = Some b \<Longrightarrow> l = l' \<and> agree l idx idx'"
  unfolding pt_wf_def by blast

lemma tablesI: "idx_ok idx \<Longrightarrow> l \<le> mx \<Longrightarrow> tbl_at m r idx l = Some b \<Longrightarrow> b \<in> tables m r mx"
  by (auto simp: tables_def)

lemma idx_okD: "idx_ok idx \<Longrightarrow> idx l < 512"
  by (simp add: idx_ok_def)

lemma tbl_at_page_ok:
  assumes wf: "pt_wf m r mx" and idx: "idx_ok idx" and "l \<le> mx" "tbl_at m r idx l = Some b"
  shows "page_ok b"
proof (cases l)
  case 0
  with assms show ?thesis by (simp add: pt_wf_def)
next
  case (Suc k)
  with assms obtain b' where b': "tbl_at m r idx k = Some b'"
    and p: "pte_ptr (m (slot b' (idx k)))" "b = pte_base (m (slot b' (idx k)))"
    by (auto split: option.splits if_splits simp: Let_def)
  from Suc assms(3) have "k \<le> mx" by simp
  from pt_wf_slot [OF wf idx this b'] p show ?thesis by (simp add: slot_ok_def)
qed

lemma tables_page_ok: "pt_wf m r mx \<Longrightarrow> b \<in> tables m r mx \<Longrightarrow> page_ok b"
  by (auto simp: tables_def tbl_at_page_ok)

lemma pt_wf_no_ptr_last:
  "pt_wf m r mx \<Longrightarrow> idx_ok idx \<Longrightarrow> tbl_at m r idx mx = Some b \<Longrightarrow> \<not> pte_ptr (m (slot b (idx mx)))"
  using pt_wf_slot [of m r mx idx mx b] by (auto simp: slot_ok_def)

text \<open>A root page full of zeros is a well-formed tree with no mapping.\<close>

lemma tbl_at_empty_root:
  assumes "\<And>i. i < 512 \<Longrightarrow> m (slot r i) = 0" "idx_ok idx"
  shows "tbl_at m r idx l = (if l = 0 then Some r else None)"
  by (induction l) (auto simp: assms idx_okD Let_def)

lemma pt_wf_empty_root:
  assumes "page_ok r" "\<And>i. i < 512 \<Longrightarrow> m (slot r i) = 0"
  shows "pt_wf m r mx"
proof -
  have z: "bf_get 10 44 0 = 0" by (simp add: bf_get_def)
  have t: "tbl_at m r idx l = (if l = 0 then Some r else None)" if "idx_ok idx" for idx l
    using tbl_at_empty_root assms(2) that by blast
  show ?thesis
    unfolding pt_wf_def using assms(1)
    by (auto simp: t assms(2) idx_okD slot_ok_def z agree_def split: if_splits)
qed

section \<open>Writing one slot\<close>

text \<open>\<open>writes_slot m m' r mx b i\<close>: the two memories agree on every slot of every table of
  the tree except slot \<open>i\<close> of table \<open>b\<close>.\<close>

definition writes_slot ::
  "(u64 \<Rightarrow> u64) \<Rightarrow> (u64 \<Rightarrow> u64) \<Rightarrow> u64 \<Rightarrow> nat \<Rightarrow> u64 \<Rightarrow> u64 \<Rightarrow> bool" where
  "writes_slot m m' r mx b i \<longleftrightarrow>
     (\<forall>t\<in>tables m r mx. \<forall>j<512. \<not> (t = b \<and> j = i) \<longrightarrow> m' (slot t j) = m (slot t j))"

lemma writes_slot_upd:
  assumes "pt_wf m r mx" "page_ok b" "i < 512"
  shows "writes_slot m (m(slot b i := e)) r mx b i"
  using assms by (auto simp: writes_slot_def slot_eq_iff tables_page_ok)

lemma writes_slotD:
  "writes_slot m m' r mx b i \<Longrightarrow> t \<in> tables m r mx \<Longrightarrow> j < 512 \<Longrightarrow> t \<noteq> b \<or> j \<noteq> i \<Longrightarrow>
     m' (slot t j) = m (slot t j)"
  by (auto simp: writes_slot_def)

lemma write_slot_other:
  assumes wf: "pt_wf m r mx" and idx: "idx_ok idx" and l: "l \<le> mx"
    and b: "tbl_at m r idx l = Some b" and w: "writes_slot m m' r mx b (idx l)"
    and idx': "idx_ok idx'" and l': "l' \<le> mx" and t: "tbl_at m r idx' l' = Some t"
    and ne: "\<not> (l' = l \<and> agree (Suc l) idx idx')"
  shows "m' (slot t (idx' l')) = m (slot t (idx' l'))"
proof -
  have "t \<noteq> b \<or> idx' l' \<noteq> idx l"
  proof (rule ccontr)
    assume "\<not> (t \<noteq> b \<or> idx' l' \<noteq> idx l)"
    then have "t = b" and eq: "idx' l' = idx l" by auto
    with pt_wf_inj [OF wf idx idx' l l' b] t have "l = l'" "agree l idx idx'" by auto
    with eq ne show False by (simp add: agree_Suc)
  qed
  then show ?thesis
    using writes_slotD [OF w tablesI [OF idx' l' t] idx_okD [OF idx']] by blast
qed

lemma write_tbl_at_other:
  assumes wf: "pt_wf m r mx" and idx: "idx_ok idx" and l: "l \<le> mx"
    and b: "tbl_at m r idx l = Some b" and w: "writes_slot m m' r mx b (idx l)"
    and idx': "idx_ok idx'"
  shows "l' \<le> mx \<Longrightarrow> l' \<le> l \<or> \<not> agree (Suc l) idx idx' \<Longrightarrow> tbl_at m' r idx' l' = tbl_at m r idx' l'"
proof (induction l')
  case (Suc k)
  then have IH: "tbl_at m' r idx' k = tbl_at m r idx' k" by force
  show ?case
  proof (cases "tbl_at m r idx' k")
    case (Some t)
    have "\<not> (k = l \<and> agree (Suc l) idx idx')" using Suc.prems by auto
    with write_slot_other [OF wf idx l b w idx' _ Some] Suc.prems
    have "m' (slot t (idx' k)) = m (slot t (idx' k))" by simp
    with IH Some show ?thesis by simp
  qed (use IH in simp)
qed simp

text \<open>Storing an entry that is no pointer over one that is no pointer.\<close>

lemma write_nonptr_tbl_at:
  assumes wf: "pt_wf m r mx" and idx: "idx_ok idx" and l: "l \<le> mx"
    and b: "tbl_at m r idx l = Some b" and w: "writes_slot m m' r mx b (idx l)"
    and old: "\<not> pte_ptr (m (slot b (idx l)))" and new: "\<not> pte_ptr (m' (slot b (idx l)))"
    and idx': "idx_ok idx'" and l': "l' \<le> mx"
  shows "tbl_at m' r idx' l' = tbl_at m r idx' l'"
proof (cases "l' \<le> l \<or> \<not> agree (Suc l) idx idx'")
  case True
  with write_tbl_at_other [OF wf idx l b w idx' l'] show ?thesis by blast
next
  case False
  then have ag: "agree (Suc l) idx idx'" and "l < l'" by auto
  have bl: "tbl_at m r idx' l = Some b" "idx' l = idx l"
    using b ag tbl_at_agree [of l idx idx'] by (auto simp: agree_Suc)
  have bl': "tbl_at m' r idx' l = Some b"
    using write_tbl_at_other [OF wf idx l b w idx' l] bl by simp
  have "tbl_at m r idx' (Suc l) = None" "tbl_at m' r idx' (Suc l) = None"
    using bl bl' old new by (auto simp: Let_def)
  moreover have "Suc l \<le> l'" using \<open>l < l'\<close> by simp
  ultimately show ?thesis
    by (metis tbl_at_down not_Some_eq)
qed

lemma write_nonptr_leaf_at:
  assumes wf: "pt_wf m r mx" and idx: "idx_ok idx" and l: "l \<le> mx"
    and b: "tbl_at m r idx l = Some b" and w: "writes_slot m m' r mx b (idx l)"
    and old: "\<not> pte_ptr (m (slot b (idx l)))" and new: "\<not> pte_ptr (m' (slot b (idx l)))"
    and idx': "idx_ok idx'" and l': "l' \<le> mx"
  shows "leaf_at m' r idx' l' e \<longleftrightarrow>
    (if agree (Suc l) idx idx' then l' = l \<and> e = m' (slot b (idx l)) \<and> pte_leaf e
     else leaf_at m r idx' l' e)"
proof -
  have same: "tbl_at m' r idx' k = tbl_at m r idx' k" if "k \<le> mx" for k
    using write_nonptr_tbl_at [OF wf idx l b w old new idx' that] .
  show ?thesis
  proof (cases "agree (Suc l) idx idx'")
    case True
    then have bl: "tbl_at m r idx' l = Some b" "idx' l = idx l"
      using b tbl_at_agree [of l idx idx'] by (auto simp: agree_Suc)
    have "\<not> leaf_at m' r idx' l' e" if "l' < l"
    proof -
      from tbl_at_ptr [of m' r idx' l b l'] that bl same [OF l]
      obtain b' where "tbl_at m' r idx' l' = Some b'" "pte_ptr (m' (slot b' (idx' l')))" by auto
      then show ?thesis using not_leaf_ptr by (auto simp: leaf_at_def)
    qed
    moreover have "\<not> leaf_at m' r idx' l' e" if "l < l'"
      using tbl_at_ptr [of m' r idx' l' _ l] that bl same [OF l] new
      by (fastforce simp: leaf_at_def)
    moreover have "leaf_at m' r idx' l e \<longleftrightarrow> e = m' (slot b (idx l)) \<and> pte_leaf e"
      using bl same [OF l] by (auto simp: leaf_at_def)
    ultimately show ?thesis using True by (metis linorder_neqE_nat)
  next
    case False
    then show ?thesis
      using write_slot_other [OF wf idx l b w idx' l'] same [OF l'] by (auto simp: leaf_at_def)
  qed
qed

lemma write_nonptr_wf:
  assumes wf: "pt_wf m r mx" and idx: "idx_ok idx" and l: "l \<le> mx"
    and b: "tbl_at m r idx l = Some b" and w: "writes_slot m m' r mx b (idx l)"
    and old: "\<not> pte_ptr (m (slot b (idx l)))" and new: "\<not> pte_ptr (m' (slot b (idx l)))"
    and ok: "slot_ok (l < mx) (m' (slot b (idx l)))"
  shows "pt_wf m' r mx \<and> tables m' r mx = tables m r mx"
proof -
  have same: "tbl_at m' r idx' k = tbl_at m r idx' k" if "idx_ok idx'" "k \<le> mx" for k idx'
    using write_nonptr_tbl_at [OF wf idx l b w old new that] .
  have slots: "slot_ok (k < mx) (m' (slot t (idx' k)))"
    if i: "idx_ok idx'" and k: "k \<le> mx" and t: "tbl_at m r idx' k = Some t" for idx' k t
  proof (cases "k = l \<and> agree (Suc l) idx idx'")
    case True
    then have "t = b" "idx' k = idx l" using b t tbl_at_agree [of l idx idx'] by (auto simp: agree_Suc)
    with ok True show ?thesis by simp
  next
    case False
    with write_slot_other [OF wf idx l b w i k t] pt_wf_slot [OF wf i k t] show ?thesis by simp
  qed
  have "pt_wf m' r mx"
    unfolding pt_wf_def
    using wf slots same by (auto simp: pt_wf_def)
  moreover have "tables m' r mx = tables m r mx"
    using same by (intro set_eqI iffI) (auto simp: tables_def, metis+)
  ultimately show ?thesis by blast
qed

section \<open>Hanging a fresh table below a free slot\<close>

definition links_table ::
  "(u64 \<Rightarrow> u64) \<Rightarrow> (u64 \<Rightarrow> u64) \<Rightarrow> u64 \<Rightarrow> nat \<Rightarrow> u64 \<Rightarrow> u64 \<Rightarrow> u64 \<Rightarrow> bool" where
  "links_table m m' r mx b i p \<longleftrightarrow>
     writes_slot m m' r mx b i \<and> page_ok p \<and> p \<notin> tables m r mx \<and>
     pte_ptr (m' (slot b i)) \<and> pte_base (m' (slot b i)) = p \<and> (\<forall>j<512. m' (slot p j) = 0)"

lemma link_tbl_at:
  assumes wf: "pt_wf m r mx" and idx: "idx_ok idx" and l: "l < mx"
    and b: "tbl_at m r idx l = Some b" and lk: "links_table m m' r mx b (idx l) p"
    and idx': "idx_ok idx'" and l': "l' \<le> mx"
  shows "tbl_at m' r idx' l' =
    (if l' \<le> l \<or> \<not> agree (Suc l) idx idx' then tbl_at m r idx' l'
     else if l' = Suc l then Some p else None)"
proof (cases "l' \<le> l \<or> \<not> agree (Suc l) idx idx'")
  case True
  from lk have w: "writes_slot m m' r mx b (idx l)" by (simp add: links_table_def)
  from True write_tbl_at_other [OF wf idx _ b w idx' l'] l show ?thesis by auto
next
  case False
  then have ag: "agree (Suc l) idx idx'" and lt: "Suc l \<le> l'" by auto
  from lk have w: "writes_slot m m' r mx b (idx l)" by (simp add: links_table_def)
  have bl: "tbl_at m' r idx' l = Some b" "idx' l = idx l"
    using b ag tbl_at_agree [of l idx idx'] write_tbl_at_other [OF wf idx _ b w idx', of l] l
    by (auto simp: agree_Suc)
  then have s: "tbl_at m' r idx' (Suc l) = Some p"
    using lk by (simp add: links_table_def)
  then have n: "tbl_at m' r idx' (Suc (Suc l)) = None"
    using lk idx' by (simp add: links_table_def idx_okD Let_def)
  show ?thesis
  proof (cases "l' = Suc l")
    case True
    with s ag show ?thesis by simp
  next
    case False
    with lt have "Suc (Suc l) \<le> l'" by simp
    with n have "tbl_at m' r idx' l' = None" by (metis tbl_at_down not_Some_eq)
    with False lt ag show ?thesis by simp
  qed
qed

lemma link_cases:
  assumes "pt_wf m r mx" "idx_ok idx" "l < mx" "tbl_at m r idx l = Some b"
    "links_table m m' r mx b (idx l) p" "idx_ok i" "k \<le> mx" "tbl_at m' r i k = Some t"
  shows "tbl_at m r i k = Some t \<and> t \<noteq> p \<and> (k \<le> l \<or> \<not> agree (Suc l) idx i)
    \<or> t = p \<and> k = Suc l \<and> agree (Suc l) idx i"
proof (cases "k \<le> l \<or> \<not> agree (Suc l) idx i")
  case True
  with link_tbl_at [OF assms(1-7)] assms(8) have "tbl_at m r i k = Some t" by simp
  moreover from this assms have "t \<noteq> p" by (auto simp: links_table_def dest: tablesI)
  ultimately show ?thesis using True by blast
next
  case False
  with link_tbl_at [OF assms(1-7)] assms(8) show ?thesis by (simp split: if_splits)
qed

lemma link_leaf_at:
  assumes wf: "pt_wf m r mx" and idx: "idx_ok idx" and l: "l < mx"
    and b: "tbl_at m r idx l = Some b" and lk: "links_table m m' r mx b (idx l) p"
    and free: "\<not> pte_v (m (slot b (idx l)))"
    and idx': "idx_ok idx'" and l': "l' \<le> mx"
  shows "leaf_at m' r idx' l' e \<longleftrightarrow> leaf_at m r idx' l' e"
proof -
  from lk have w: "writes_slot m m' r mx b (idx l)" by (simp add: links_table_def)
  note tbl = link_tbl_at [OF wf idx l b lk idx' l']
  have none: "\<not> leaf_at m r idx' l' e" if "agree (Suc l) idx idx'" "l \<le> l'"
  proof -
    have bl: "tbl_at m r idx' l = Some b" "idx' l = idx l"
      using b that(1) tbl_at_agree [of l idx idx'] by (auto simp: agree_Suc)
    show ?thesis
    proof (cases "l' = l")
      case True
      with bl free show ?thesis by (auto simp: leaf_at_def)
    next
      case False
      with that have "l < l'" by simp
      with tbl_at_ptr [of m r idx' l' _ l] bl free show ?thesis by (fastforce simp: leaf_at_def)
    qed
  qed
  consider (eq) "l' = l" "agree (Suc l) idx idx'" | (deep) "l < l'" "agree (Suc l) idx idx'"
    | (other) "l' < l \<or> \<not> agree (Suc l) idx idx'" by force
  then show ?thesis
  proof cases
    case eq
    then have "tbl_at m' r idx' l' = Some b" "idx' l' = idx l"
      using tbl b tbl_at_agree [of l idx idx'] by (auto simp: agree_Suc)
    then have "\<not> leaf_at m' r idx' l' e"
      using lk not_leaf_ptr by (auto simp: leaf_at_def links_table_def)
    with none eq show ?thesis by simp
  next
    case deep
    then have "\<not> leaf_at m' r idx' l' e"
      using tbl lk idx' by (auto simp: leaf_at_def links_table_def idx_okD split: if_splits)
    with none deep show ?thesis by simp
  next
    case other
    then have t: "tbl_at m' r idx' l' = tbl_at m r idx' l'" using tbl by auto
    have "\<not> (l' = l \<and> agree (Suc l) idx idx')" using other by auto
    with t write_slot_other [OF wf idx _ b w idx' l'] l show ?thesis by (auto simp: leaf_at_def)
  qed
qed

lemma link_tables:
  assumes wf: "pt_wf m r mx" and idx: "idx_ok idx" and l: "l < mx"
    and b: "tbl_at m r idx l = Some b" and lk: "links_table m m' r mx b (idx l) p"
    and free: "\<not> pte_v (m (slot b (idx l)))"
  shows "tables m' r mx = insert p (tables m r mx)"
proof
  show "tables m' r mx \<subseteq> insert p (tables m r mx)"
  proof
    fix t assume "t \<in> tables m' r mx"
    then obtain i k where "idx_ok i" "k \<le> mx" "tbl_at m' r i k = Some t" by (auto simp: tables_def)
    with link_cases [OF wf idx l b lk this] show "t \<in> insert p (tables m r mx)"
      by (auto intro: tablesI)
  qed
  have "p \<in> tables m' r mx"
    using link_tbl_at [OF wf idx l b lk idx, of "Suc l"] l idx
    by (auto intro!: tablesI [of idx "Suc l"])
  moreover have "t \<in> tables m' r mx" if "idx_ok idx'" "l' \<le> mx" "tbl_at m r idx' l' = Some t" for t idx' l'
  proof (cases "l' \<le> l \<or> \<not> agree (Suc l) idx idx'")
    case True
    then show ?thesis using link_tbl_at [OF wf idx l b lk that(1,2)] that by (auto intro!: tablesI)
  next
    case False
    then have "tbl_at m r idx' l = Some b" "idx' l = idx l"
      using b tbl_at_agree [of l idx idx'] by (auto simp: agree_Suc)
    with False tbl_at_ptr [of m r idx' l' t l] that free show ?thesis by auto
  qed
  ultimately show "insert p (tables m r mx) \<subseteq> tables m' r mx" by (auto simp: tables_def [of m])
qed

lemma link_wf:
  assumes wf: "pt_wf m r mx" and idx: "idx_ok idx" and l: "l < mx"
    and b: "tbl_at m r idx l = Some b" and lk: "links_table m m' r mx b (idx l) p"
  shows "pt_wf m' r mx"
proof -
  from lk have w: "writes_slot m m' r mx b (idx l)" and p: "p \<notin> tables m r mx" "page_ok p"
    by (auto simp: links_table_def)
  note tbl = link_tbl_at [OF wf idx l b lk]
  have z: "slot_ok x 0" for x by (simp add: slot_ok_def bf_get_def)
  have slots: "slot_ok (k < mx) (m' (slot t (i k)))"
    if i: "idx_ok i" and k: "k \<le> mx" and t: "tbl_at m' r i k = Some t" for i k t
  proof (cases "k \<le> l \<or> \<not> agree (Suc l) idx i")
    case True
    with tbl [OF i k] t have t': "tbl_at m r i k = Some t" by simp
    show ?thesis
    proof (cases "k = l \<and> agree (Suc l) idx i")
      case True
      then have "t = b" "i k = idx l" using b t' tbl_at_agree [of l idx i] by (auto simp: agree_Suc)
      with lk l True p show ?thesis by (auto simp: slot_ok_def links_table_def pte_ptr_def)
    next
      case False
      with write_slot_other [OF wf idx _ b w i k t'] pt_wf_slot [OF wf i k t'] l
      show ?thesis by simp
    qed
  next
    case False
    with tbl [OF i k] t have "t = p" by (auto split: if_splits)
    with lk i z show ?thesis by (simp add: links_table_def idx_okD)
  qed
  have inj: "k = k' \<and> agree k i i'"
    if i: "idx_ok i" "idx_ok i'" and k: "k \<le> mx" "k' \<le> mx"
      and t: "tbl_at m' r i k = Some t" "tbl_at m' r i' k' = Some t" for i i' k k' t
  proof (cases "t = p")
    case True
    then have "k = Suc l" "agree (Suc l) idx i" "k' = Suc l" "agree (Suc l) idx i'"
      using link_cases [OF wf idx l b lk i(1) k(1) t(1)] link_cases [OF wf idx l b lk i(2) k(2) t(2)]
      by simp_all
    then show ?thesis by (simp add: agree_def)
  next
    case False
    then have "tbl_at m r i k = Some t" "tbl_at m r i' k' = Some t"
      using link_cases [OF wf idx l b lk i(1) k(1) t(1)] link_cases [OF wf idx l b lk i(2) k(2) t(2)]
      by simp_all
    with pt_wf_inj [OF wf i k] show ?thesis by blast
  qed
  have "page_ok r" using wf by (simp add: pt_wf_def)
  moreover have "\<forall>i k t. idx_ok i \<longrightarrow> k \<le> mx \<longrightarrow> tbl_at m' r i k = Some t \<longrightarrow>
      slot_ok (k < mx) (m' (slot t (i k)))"
    by (intro allI impI) (rule slots)
  moreover have "\<forall>i i' k k' t. idx_ok i \<longrightarrow> idx_ok i' \<longrightarrow> k \<le> mx \<longrightarrow> k' \<le> mx \<longrightarrow>
      tbl_at m' r i k = Some t \<longrightarrow> tbl_at m' r i' k' = Some t \<longrightarrow> k = k' \<and> agree k i i'"
    by (intro allI impI) (rule inj)
  ultimately show ?thesis unfolding pt_wf_def by (intro conjI)
qed

end
