(* ===== verification/Mmu.thy ===== *)
theory Mmu
  imports Page_Tables
begin

text \<open>
  Model of \<^verbatim>\<open>kernel/inc/k_mmu.h\<close> and \<^verbatim>\<open>kernel/inc/k_mem.hpp\<close>: the page-table
  objects \<open>RV64MMU<39>\<close>, \<open>RV64MMU<48>\<close> and \<open>RV64MMU<57>\<close>. The template argument \<open>sz\<close> is an
  argument of the definitions. The machine state holds physical memory by doubleword, the
  blocks the C library's \<open>memalign\<close> will return (it is not part of the sources; an empty list
  is an exhausted heap and yields the null pointer), the blocks given back with \<open>free\<close>,
  the address translation the kernel itself runs under and the \<open>satp\<close> register. The kernel
  reaches the first 4 GiB of physical memory through the window at \<open>K_VADDR_BASE\<close>; the
  start-up table of \<^verbatim>\<open>preloader.S\<close> also maps them one to one (\<open>low_map\<close>), the table that
  \<open>k_boot_sysdev\<close> installs does not. An access outside these windows traps, which is
  \<^const>\<open>None\<close>.
\<close>

section \<open>State\<close>

record kmem =
  pmem :: "u64 \<Rightarrow> u64"
  heap :: "u64 list"
  freed :: "u64 list"
  low_map :: bool
  csr_satp :: u64

record rv64mmu =
  mmu_ptes :: u64
  mmu_variant :: int
  mmu_satp :: u64

section \<open>Kernel accesses to memory\<close>

definition kptr :: "bool \<Rightarrow> u64 \<Rightarrow> u64 option" where
  "kptr low p =
     (if K_VADDR_BASE \<le> p \<and> p - K_VADDR_BASE < 0x100000000 then Some (p - K_VADDR_BASE)
      else if low \<and> p < 0x100000000 then Some p else None)"

definition rd64 :: "kmem \<Rightarrow> u64 \<Rightarrow> u64 option" where
  "rd64 k p = map_option (pmem k) (kptr (low_map k) p)"

definition wr64 :: "kmem \<Rightarrow> u64 \<Rightarrow> u64 \<Rightarrow> kmem option" where
  "wr64 k p v = map_option (\<lambda>a. k\<lparr>pmem := (pmem k)(a := v)\<rparr>) (kptr (low_map k) p)"

definition memset_page :: "kmem \<Rightarrow> u64 \<Rightarrow> kmem option" where
  "memset_page k p =
     map_option (\<lambda>a. k\<lparr>pmem := (\<lambda>x. if drop_bit 12 x = drop_bit 12 a then 0 else pmem k x)\<rparr>)
       (kptr (low_map k) p)"

definition alignedMalloc :: "kmem \<Rightarrow> u64 \<times> kmem" where
  "alignedMalloc k = (case heap k of [] \<Rightarrow> (0, k) | p # ps \<Rightarrow> (p, k\<lparr>heap := ps\<rparr>))"

definition alignedFree :: "u64 \<Rightarrow> kmem \<Rightarrow> kmem" where
  "alignedFree p k = (if p = 0 then k else k\<lparr>freed := p # freed k\<rparr>)"

definition isAligned :: "u64 \<Rightarrow> u64 \<Rightarrow> bool" where
  "isAligned p alignment \<longleftrightarrow> p AND (alignment - 1) = 0"

definition addr2page4K :: "u64 \<Rightarrow> u64" where "addr2page4K a = drop_bit 12 a"
definition addr2page2M :: "u64 \<Rightarrow> u64" where "addr2page2M a = drop_bit 21 a"
definition addr2page1G :: "u64 \<Rightarrow> u64" where "addr2page1G a = drop_bit 30 a"

section \<open>Protection bits, addresses and entries\<close>

definition PROT_R :: u32 where [kdefs]: "PROT_R = 1"
definition PROT_W :: u32 where [kdefs]: "PROT_W = 2"
definition PROT_X :: u32 where [kdefs]: "PROT_X = 4"
definition PROT_U :: u32 where [kdefs]: "PROT_U = 8"
definition PROT_G :: u32 where [kdefs]: "PROT_G = 16"
definition PROT_IO :: u32 where [kdefs]: "PROT_IO = 32"
definition VARIANT_THEAD_C906 :: int where [kdefs]: "VARIANT_THEAD_C906 = 1"

text \<open>\<open>vaddr_t\<close>: the fields \<open>vpn0\<close> to \<open>vpn4\<close>, nine bits each above the twelve offset bits.\<close>

definition getVPN :: "nat \<Rightarrow> nat \<Rightarrow> u64 \<Rightarrow> u64" where
  "getVPN sz level va =
     (let vpn0 = bf_get 12 9 va; vpn1 = bf_get 21 9 va; vpn2 = bf_get 30 9 va;
          vpn3 = bf_get 39 9 va; vpn4 = bf_get 48 9 va in
      if level = 0 then
        (if sz = 39 then vpn2 else if sz = 48 then vpn3 else if sz = 57 then vpn4 else 0)
      else if level = 1 then
        (if sz = 39 then vpn1 else if sz = 48 then vpn2 else if sz = 57 then vpn3 else 0)
      else if level = 2 then
        (if sz = 39 then vpn0 else if sz = 48 then vpn1 else if sz = 57 then vpn2 else 0)
      else if level = 3 then
        (if sz = 39 then 0 else if sz = 48 then vpn0 else if sz = 57 then vpn1 else 0)
      else if level = 4 then
        (if sz = 39 then 0 else if sz = 48 then 0 else if sz = 57 then vpn0 else 0)
      else 0)"

text \<open>\<open>pte_t\<close> is one doubleword: v, r, w, x, u, g, a, d, two software bits, the frame number in
  five fields from bit 10 and ten reserved bits from bit 54.\<close>

definition pte_fit :: "u64 \<Rightarrow> u64" where
  "pte_fit e = bf_set 54 10 0 e"

definition pte_ppn :: "u64 \<Rightarrow> u64 \<Rightarrow> u64" where
  "pte_ppn addr e =
     bf_set 46 8 (bf_get 48 8 addr) (bf_set 37 9 (bf_get 39 9 addr) (bf_set 28 9 (bf_get 30 9 addr)
       (bf_set 19 9 (bf_get 21 9 addr) (bf_set 10 9 (bf_get 12 9 addr) e))))"

definition pte_vaddr :: "u64 \<Rightarrow> u64" where
  "pte_vaddr e =
     (let ret = push_bit 2 e AND NOT 0xFFF in
      if ret AND push_bit 55 1 \<noteq> 0 then ret OR 0xff00000000000000 else ret)"

definition pte_paddr :: "u64 \<Rightarrow> u64" where
  "pte_paddr e = push_bit 2 e AND NOT 0xFFF AND NOT K_VADDR_BASE"

section \<open>The base class\<close>

text \<open>\<open>satp_t\<close>: frame number in bits 0 to 43, address-space identifier in 44 to 59, mode in 60 to 63.
  The constructor leaves the frame number as it finds it in memory (\<open>g\<close>).\<close>

definition RV64MMUBase :: "u64 \<Rightarrow> u64 \<Rightarrow> u64 \<Rightarrow> u64" where
  "RV64MMUBase g mode asid = bf_set 60 4 mode (bf_set 44 16 asid g)"

definition setPPN :: "u64 \<Rightarrow> rv64mmu \<Rightarrow> bool \<times> rv64mmu" where
  "setPPN addr ob =
     (if addr AND 4095 \<noteq> 0 then (False, ob)
      else (True, ob\<lparr>mmu_satp := bf_set 0 44 (addr2page4K addr) (mmu_satp ob)\<rparr>))"

text \<open>A hart keeps of a value written to \<open>satp\<close> only what it implements, both of the mode and of the bits of the
  address-space identifier: \<open>warl old new\<close> is the value the register holds after the write.\<close>

definition mmu_enable :: "(u64 \<Rightarrow> u64 \<Rightarrow> u64) \<Rightarrow> bool \<Rightarrow> rv64mmu \<Rightarrow> kmem \<Rightarrow> bool \<times> kmem" where
  "mmu_enable warl enable ob k =
     (if enable then
        (let k1 = k\<lparr>csr_satp := warl (csr_satp k) (mmu_satp ob)\<rparr> in
         if csr_satp k1 \<noteq> mmu_satp ob
         then (False, k1\<lparr>csr_satp := warl (csr_satp k1) 0\<rparr>)
         else (True, k1))
      else (True, k\<lparr>csr_satp := warl (csr_satp k) 0\<rparr>))"

definition switchASID :: "(u64 \<Rightarrow> u64 \<Rightarrow> u64) \<Rightarrow> rv64mmu \<Rightarrow> kmem \<Rightarrow> kmem" where
  "switchASID warl ob k = k\<lparr>csr_satp := warl (csr_satp k) (mmu_satp ob)\<rparr>"

definition getSATP :: "rv64mmu \<Rightarrow> u64" where
  "getSATP ob = mmu_satp ob"

section \<open>The page-table class\<close>

definition mmutype :: "nat \<Rightarrow> u64" where
  "mmutype sz = (if sz = 39 then 8 else if sz = 48 then 9 else if sz = 57 then 10
                 else if sz = 64 then 11 else 0)"

definition RV64MMU :: "u64 \<Rightarrow> nat \<Rightarrow> u64 \<Rightarrow> int \<Rightarrow> kmem \<Rightarrow> (rv64mmu \<times> kmem) option" where
  "RV64MMU g sz asid variant k = do {
     let (p, k1) = alignedMalloc k;
     k2 \<leftarrow> memset_page k1 p;
     let ob = \<lparr>mmu_ptes = p, mmu_variant = variant, mmu_satp = RV64MMUBase g (mmutype sz) asid\<rparr>;
     Some (snd (setPPN (p AND NOT K_VADDR_BASE) ob), k2)
   }"

definition RV64MMU_delete :: "rv64mmu \<Rightarrow> kmem \<Rightarrow> kmem" where
  "RV64MMU_delete ob k = alignedFree (mmu_ptes ob) k"

definition mmu_fork :: "u64 \<Rightarrow> nat \<Rightarrow> rv64mmu \<Rightarrow> u64 \<Rightarrow> kmem \<Rightarrow> (rv64mmu \<times> kmem) option" where
  "mmu_fork g sz ob asid k = RV64MMU g sz asid (mmu_variant ob) k"

definition getVMALowerTop :: "nat \<Rightarrow> u64" where
  "getVMALowerTop sz =
     (if sz = 39 then push_bit 38 1 else if sz = 48 then push_bit 47 1
      else if sz = 57 then push_bit 56 1 else 0)"

definition getVMAUpperBottom :: "nat \<Rightarrow> u64" where
  "getVMAUpperBottom sz =
     (if sz = 39 then -1 - push_bit 38 1 + 1 else if sz = 48 then -1 - push_bit 47 1 + 1
      else if sz = 57 then -1 - push_bit 56 1 + 1 else 0)"

definition getMaxLevel :: "nat \<Rightarrow> int" where
  "getMaxLevel sz = (if sz = 39 then 2 else if sz = 48 then 3 else if sz = 57 then 4 else K_EINVAL)"

definition calcLevel :: "nat \<Rightarrow> nat \<Rightarrow> int" where
  "calcLevel sz blocksz =
     (let base = (if blocksz = 12 then Some 0 else if blocksz = 21 then Some (-1)
                  else if blocksz = 30 then Some (-2) else if blocksz = 39 then Some (-3)
                  else if blocksz = 48 then Some (-4) else None) in
      case base of
        None \<Rightarrow> K_EINVAL
      | Some level0 \<Rightarrow> (let level = level0 + getMaxLevel sz in if level < 0 then K_EINVAL else level))"

text \<open>What \<open>_createPTE\<close> stores into the parent entry when it hangs the new table \<open>t\<close> below it.\<close>

definition link_pte :: "u64 \<Rightarrow> u64 \<Rightarrow> u64" where
  "link_pte t e =
     pte_fit (bf_set 3 1 0 (bf_set 2 1 0 (bf_set 1 1 0 (bf_set 0 1 1 (pte_ppn (t AND NOT K_VADDR_BASE) e)))))"

fun createPTE :: "nat \<Rightarrow> rv64mmu \<Rightarrow> nat \<Rightarrow> u64 \<Rightarrow> kmem \<Rightarrow> (u64 \<times> kmem) option" where
  "createPTE sz ob 0 va k = Some (mmu_ptes ob + 8 * getVPN sz 0 va, k)"
| "createPTE sz ob (Suc l) va k = do {
     (parent, k1) \<leftarrow> createPTE sz ob l va k;
     e \<leftarrow> rd64 k1 parent;
     if pte_paddr e \<noteq> 0 then
       Some (pte_paddr e + K_VADDR_BASE + 8 * getVPN sz (Suc l) va, k1)
     else do {
       let (t, k2) = alignedMalloc k1;
       k3 \<leftarrow> memset_page k2 t;
       e' \<leftarrow> rd64 k3 parent;
       k4 \<leftarrow> wr64 k3 parent (link_pte t e');
       Some (t + 8 * getVPN sz (Suc l) va, k4)
     }
   }"

fun getPTE :: "nat \<Rightarrow> rv64mmu \<Rightarrow> nat \<Rightarrow> u64 \<Rightarrow> kmem \<Rightarrow> u64 option" where
  "getPTE sz ob 0 va k = Some (mmu_ptes ob + 8 * getVPN sz 0 va)"
| "getPTE sz ob (Suc l) va k = do {
     parent \<leftarrow> getPTE sz ob l va k;
     e \<leftarrow> rd64 k parent;
     Some (pte_paddr e + 8 * getVPN sz (Suc l) va)
   }"

text \<open>What \<open>_unmap\<close> and \<open>_removePTE\<close> leave in an entry.\<close>

definition clear_pte :: "u64 \<Rightarrow> u64" where
  "clear_pte e = pte_fit (pte_ppn 0 (bf_set 0 1 0 e))"

fun removePTE :: "nat \<Rightarrow> rv64mmu \<Rightarrow> nat \<Rightarrow> u64 \<Rightarrow> kmem \<Rightarrow> (int \<times> kmem) option" where
  "removePTE sz ob level va k = do {
     p \<leftarrow> getPTE sz ob level va k;
     e \<leftarrow> rd64 k p;
     if \<not> pte_v e then Some (K_EALREADY, k)
     else do {
       k1 \<leftarrow> wr64 k p (clear_pte e);
       let k2 = (if int level \<noteq> getMaxLevel sz then alignedFree (pte_paddr (clear_pte e)) k1 else k1);
       (case level of 0 \<Rightarrow> Some (0, k2) | Suc l \<Rightarrow> removePTE sz ob l va k2)
     }
   }"

text \<open>What \<open>_map\<close> stores into a free entry.\<close>

definition leaf_pte :: "int \<Rightarrow> u64 \<Rightarrow> u32 \<Rightarrow> u64 \<Rightarrow> u64" where
  "leaf_pte variant pa prot e =
     (let e1 = bf_set 0 1 1 e;
          e2 = bf_set 1 1 (if prot AND PROT_R \<noteq> 0 then 1 else 0) e1;
          e3 = bf_set 2 1 (if prot AND PROT_W \<noteq> 0 then 1 else 0) e2;
          e4 = bf_set 3 1 (if prot AND PROT_X \<noteq> 0 then 1 else 0) e3;
          e5 = bf_set 4 1 (if prot AND PROT_U \<noteq> 0 then 1 else 0) e4;
          e6 = bf_set 5 1 (if prot AND PROT_G \<noteq> 0 then 1 else 0) e5;
          e7 = bf_set 7 1 (bf_get 2 1 e6) e6;
          e8 = bf_set 6 1 (bf_get 1 1 e7) e7;
          e9 = pte_fit (pte_ppn pa e8) in
      if variant = VARIANT_THEAD_C906 \<and> prot AND PROT_IO = 0 then bf_set 54 10 0x180 e9 else e9)"

definition map_block :: "nat \<Rightarrow> nat \<Rightarrow> rv64mmu \<Rightarrow> u64 \<Rightarrow> u64 \<Rightarrow> u32 \<Rightarrow> kmem \<Rightarrow> (int \<times> kmem) option" where
  "map_block sz blocksz ob va pa prot k =
     (let level = calcLevel sz blocksz in
      if level < 0 then Some (level, k)
      else do {
        (p, k1) \<leftarrow> createPTE sz ob (nat level) va k;
        e \<leftarrow> rd64 k1 p;
        if pte_v e then Some (K_EALREADY, k1)
        else do {
          k2 \<leftarrow> wr64 k1 p (leaf_pte (mmu_variant ob) pa prot e);
          Some (0, k2)
        }
      })"

definition unmap_block :: "nat \<Rightarrow> nat \<Rightarrow> rv64mmu \<Rightarrow> u64 \<Rightarrow> kmem \<Rightarrow> (int \<times> kmem) option" where
  "unmap_block sz blocksz ob va k =
     (let level = calcLevel sz blocksz in
      if level < 0 then Some (level, k)
      else do {
        p \<leftarrow> getPTE sz ob (nat level) va k;
        e \<leftarrow> rd64 k p;
        if \<not> pte_v e then Some (K_EALREADY, k)
        else do {
          k1 \<leftarrow> wr64 k p (clear_pte e);
          Some (0, k1)
        }
      })"

text \<open>The block size the loops of \<open>map\<close> and \<open>unmap\<close> choose for the current address: the largest
  one whose alignment both addresses have and that fits in the rest of the range; \<open>unmap\<close>
  passes the virtual address twice.\<close>

definition pick_block :: "nat \<Rightarrow> u64 \<Rightarrow> u64 \<Rightarrow> u64 \<Rightarrow> nat option" where
  "pick_block sz vc pc rest =
     (if sz \<ge> 57 \<and> vc AND 0xFFFFFFFFFFFF = 0 \<and> pc AND 0xFFFFFFFFFFFF = 0 \<and> 2 ^ 48 \<le> rest then Some 48
      else if sz \<ge> 48 \<and> vc AND 0x7FFFFFFFFF = 0 \<and> pc AND 0x7FFFFFFFFF = 0 \<and> 2 ^ 39 \<le> rest then Some 39
      else if vc AND 0x3FFFFFFF = 0 \<and> pc AND 0x3FFFFFFF = 0 \<and> 2 ^ 30 \<le> rest then Some 30
      else if vc AND 0x1FFFFF = 0 \<and> pc AND 0x1FFFFF = 0 \<and> 2 ^ 21 \<le> rest then Some 21
      else if vc AND 0xFFF = 0 \<and> pc AND 0xFFF = 0 \<and> 2 ^ 12 \<le> rest then Some 12
      else None)"

lemma pick_block_cases:
  "pick_block sz vc pc rest = Some bs \<Longrightarrow>
     (bs = 48 \<and> sz \<ge> 57 \<or> bs = 39 \<and> sz \<ge> 48 \<or> bs = 30 \<or> bs = 21 \<or> bs = 12) \<and>
     take_bit bs vc = 0 \<and> take_bit bs pc = 0 \<and> 2 ^ bs \<le> rest"
  by (auto simp: pick_block_def take_bit_eq_mask mask_numeral split: if_splits)

lemma block_pos: "bs < 64 \<Longrightarrow> (2 ^ bs :: u64) \<noteq> 0"
  by simp

lemma block_step_decreases:
  fixes vaddr len vc :: u64
  assumes "2 ^ bs \<le> len - (vc - vaddr)" "bs < 64"
  shows "unat (vaddr + len - (vc + 2 ^ bs)) < unat (vaddr + len - vc)"
proof -
  have r: "len - (vc - vaddr) = vaddr + len - vc" by simp
  have "vaddr + len - (vc + 2 ^ bs) = (vaddr + len - vc) - 2 ^ bs" by simp
  with assms r block_pos [of bs] show ?thesis
    by (metis diff_less unat_sub word_le_nat_alt unat_gt_0 le_zero_eq less_le_trans)
qed

lemma pick_block_decreases:
  "pick_block sz vc pc (len - (vc - vaddr)) = Some bs \<Longrightarrow>
     unat (vaddr + len - (vc + 2 ^ bs)) < unat (vaddr + len - vc)"
  by (rule block_step_decreases) (auto dest!: pick_block_cases)

function map_loop ::
  "nat \<Rightarrow> rv64mmu \<Rightarrow> u64 \<Rightarrow> u64 \<Rightarrow> u32 \<Rightarrow> u64 \<Rightarrow> u64 \<Rightarrow> int \<Rightarrow> kmem \<Rightarrow> (int \<times> kmem) option" where
  "map_loop sz ob vaddr len prot vc pc rc k =
     (if \<not> vc < vaddr + len then Some (rc, k)
      else if rc \<noteq> 0 then Some (rc, k)
      else case pick_block sz vc pc (len - (vc - vaddr)) of
        None \<Rightarrow> Some (K_EINVALID_ADDR, k)
      | Some bs \<Rightarrow> do {
          (rc', k') \<leftarrow> map_block sz bs ob vc pc prot k;
          map_loop sz ob vaddr len prot (vc + 2 ^ bs) (pc + 2 ^ bs) rc' k'
        })"
  by pat_completeness auto
termination
  by (relation "measure (\<lambda>(sz, ob, vaddr, len, prot, vc, pc, rc, k). unat (vaddr + len - vc))")
    (auto intro: pick_block_decreases)

declare map_loop.simps [simp del]

definition mmu_map ::
  "nat \<Rightarrow> rv64mmu \<Rightarrow> u64 \<Rightarrow> u64 \<Rightarrow> u64 \<Rightarrow> u32 \<Rightarrow> kmem \<Rightarrow> (int \<times> kmem) option" where
  "mmu_map sz ob vaddr paddr len prot k =
     (if vaddr AND 0xFFF \<noteq> 0 \<or> paddr AND 0xFFF \<noteq> 0 \<or> len AND 0xFFF \<noteq> 0 then Some (K_EINVAL, k)
      else if len = 0 then Some (0, k)
      else if vaddr + len < vaddr \<or> paddr + len < paddr then Some (K_EINVALID_ADDR, k)
      else (let prott = prot AND (PROT_R OR PROT_W OR PROT_X) in
        if prott = 0 \<or> prott = 2 \<or> prott = 6 then Some (K_ENOSPC, k)
        else map_loop sz ob vaddr len prot vaddr paddr 0 k))"

function unmap_loop ::
  "nat \<Rightarrow> rv64mmu \<Rightarrow> u64 \<Rightarrow> u64 \<Rightarrow> u64 \<Rightarrow> int \<Rightarrow> kmem \<Rightarrow> (int \<times> kmem) option" where
  "unmap_loop sz ob vaddr len vc rc k =
     (if \<not> vc < vaddr + len then Some (rc, k)
      else if rc \<noteq> 0 then Some (rc, k)
      else case pick_block sz vc vc (len - (vc - vaddr)) of
        None \<Rightarrow> Some (K_EINVALID_ADDR, k)
      | Some bs \<Rightarrow> do {
          (rc', k') \<leftarrow> unmap_block sz bs ob vc k;
          unmap_loop sz ob vaddr len (vc + 2 ^ bs) rc' k'
        })"
  by pat_completeness auto
termination
  by (relation "measure (\<lambda>(sz, ob, vaddr, len, vc, rc, k). unat (vaddr + len - vc))")
    (auto intro: pick_block_decreases)

declare unmap_loop.simps [simp del]

definition mmu_unmap :: "nat \<Rightarrow> rv64mmu \<Rightarrow> u64 \<Rightarrow> u64 \<Rightarrow> kmem \<Rightarrow> (int \<times> kmem) option" where
  "mmu_unmap sz ob vaddr len k =
     (if vaddr AND 0xFFF \<noteq> 0 \<or> len AND 0xFFF \<noteq> 0 then Some (K_EINVAL, k)
      else if len = 0 then Some (0, k)
      else if vaddr + len < vaddr then Some (K_EINVALID_ADDR, k)
      else unmap_loop sz ob vaddr len vaddr 0 k)"

end
