(* ===== verification/Mmu_Bits.thy ===== *)
theory Mmu_Bits
  imports Mmu
begin

text \<open>
  The bit-level facts about the address and entry operations of \<open>k_mmu.h\<close>: which bits the table
  indices, \<open>paddr\<close>, \<open>ppn\<close>, the linking of a new table and the entry of a new mapping read and
  write. Everything the correctness proofs need of words is here.
\<close>

section \<open>Bits of addresses and entries\<close>

lemma sv_top_simps [simp]: "sv_top 39 = 2" "sv_top 48 = 3" "sv_top 57 = 4"
  by (simp_all add: sv_top_def)

lemma sv_mode_top: "sv_mode sz \<Longrightarrow> sz = 12 + 9 * Suc (sv_top sz) \<and> sv_top sz \<le> 4 \<and> 2 \<le> sv_top sz"
  by (auto simp: sv_mode_def)

lemma getVPN_sv:
  assumes "sv_mode sz" "l \<le> sv_top sz"
  shows "getVPN sz l va = sv_vpn sz va l"
proof -
  have "l = 0 \<or> l = 1 \<or> l = 2 \<or> l = 3 \<or> l = 4" using assms by (auto simp: sv_mode_def)
  then show ?thesis using assms
    by (auto simp: sv_mode_def getVPN_def sv_vpn_def sv_shift_def Let_def)
qed

lemma bf_get_9_less: "bf_get lo 9 x < 512"
proof -
  have "bf_get lo 9 x = take_bit 9 (drop_bit lo x)" by (simp add: bf_get_def)
  then have "unat (bf_get lo 9 x) < 512" by (simp add: unat_take_bit_word)
  then show ?thesis by (simp add: word_less_nat_alt)
qed

lemma sv_vpn_idx_ok [simp]: "idx_ok (sv_vpn sz va)"
  by (simp add: idx_ok_def sv_vpn_def bf_get_9_less)

lemma bit_base: "bit K_VADDR_BASE i \<longleftrightarrow> 38 \<le> i \<and> i < 64"
proof -
  have eq: "K_VADDR_BASE = push_bit 38 (mask 26)" by (simp add: kdefs mask_numeral)
  show ?thesis unfolding eq by (auto simp: bit_push_bit_iff bit_mask_iff)
qed

lemma pte_paddr_mask: "pte_paddr e = push_bit 2 e AND NOT (mask 12) AND NOT K_VADDR_BASE"
  by (simp add: pte_paddr_def mask_numeral)

lemma bit_pte_paddr: "bit (pte_paddr e) i \<longleftrightarrow> 12 \<le> i \<and> i < 38 \<and> bit e (i - 2)"
  by (cases "i < 64") (auto simp: pte_paddr_mask bit_and_iff bit_not_iff bit_push_bit_iff bit_base bit_mask_iff)

lemma bit_pte_base: "bit (pte_base e) i \<longleftrightarrow> 12 \<le> i \<and> i < 56 \<and> bit e (i - 2)"
proof (cases "12 \<le> i")
  case True
  then have "10 + (i - 12) = i - 2" by simp
  with True show ?thesis by (cases "i < 64") (auto simp: pte_base_def bit_simps bf_bits)
next
  case False
  then show ?thesis by (auto simp: pte_base_def bit_simps)
qed

lemma small_bits: "x < 0x100000000 \<Longrightarrow> 32 \<le> i \<Longrightarrow> \<not> bit (x :: u64) i"
proof -
  assume x: "x < 0x100000000" and i: "32 \<le> i"
  have "unat x < 2 ^ 32" using x by (simp add: word_less_nat_alt)
  then have "take_bit 32 (unat x) = unat x" by (simp add: take_bit_nat_eq_self)
  then have "take_bit 32 x = x" by (metis unsigned_take_bit_eq unsigned_word_eqI le_refl unat_take_bit_word take_bit_eq_mod)
  then have "bit x i = bit (take_bit 32 x) i" by simp
  with i show ?thesis by (simp add: bit_simps)
qed

lemma paddr_eq_base: "pte_base e < 0x100000000 \<Longrightarrow> pte_paddr e = pte_base e"
proof (rule word_bit_extI)
  fix i :: nat assume b: "pte_base e < 0x100000000"
  show "bit (pte_paddr e) i = bit (pte_base e) i"
    using small_bits [OF b, of i] by (cases "i < 32") (auto simp: bit_pte_paddr bit_pte_base)
qed

lemma paddr_zero: "bf_get 10 44 e = 0 \<Longrightarrow> pte_paddr e = 0"
proof (rule word_bit_extI)
  fix i :: nat assume z: "bf_get 10 44 e = 0"
  have "bit (bf_get 10 44 e) (i - 12) = False" by (simp add: z)
  then show "bit (pte_paddr e) i = bit 0 i" by (auto simp: bit_pte_paddr bf_bits)
qed

lemma bit_pte_ppn: 
  "bit (pte_ppn a e) i \<longleftrightarrow> i < 64 \<and> (if 10 \<le> i \<and> i < 54 then bit a (i + 2) else bit e i)"
  by (auto simp: pte_ppn_def bf_bits)

lemma bit_pte_fit: "bit (pte_fit e) i \<longleftrightarrow> i < 54 \<and> bit e i"
  by (auto simp: pte_fit_def bf_bits dest: bit_imp_le_length)


lemma bit_link_pte:
  "bit (link_pte t e) i \<longleftrightarrow>
     i < 54 \<and> (if i = 0 then True else if i < 4 then False
       else if 10 \<le> i then bit t (i + 2) \<and> i < 36 else bit e i)"
  by (cases "i < 54")
    (auto simp: link_pte_def bit_pte_fit bf_bits bit_pte_ppn bit_and_iff bit_not_iff bit_base
      dest: bit_imp_le_length)

lemma link_pte_ptr [simp]: "pte_ptr (link_pte t e)"
  by (simp add: pte_ptr_def pte_v_def pte_r_def pte_w_def pte_x_def bit_link_pte)

lemma base_window:
  assumes "p < 0x100000000"
  shows "K_VADDR_BASE + p = K_VADDR_BASE OR p"
proof -
  have "K_VADDR_BASE AND p = 0"
  proof (rule word_bit_extI)
    fix i :: nat
    show "bit (K_VADDR_BASE AND p) i = bit 0 i"
      using small_bits [OF assms, of i] by (auto simp: bit_and_iff bit_base)
  qed
  then show ?thesis by (simp add: disjunctive_add_eq_or)
qed

lemma link_pte_base:
  assumes "page_ok p"
  shows "pte_base (link_pte (K_VADDR_BASE + p) e) = p"
proof (rule word_bit_extI)
  fix i :: nat assume i: "i < 64"
  from assms have p: "p < 0x100000000" and al: "p AND 0xFFF = 0" by (simp_all add: page_ok_def)
  have "bit (take_bit 12 p) i = False" using al by (simp add: and_mask12)
  then have lo: "i < 12 \<Longrightarrow> \<not> bit p i" by (simp add: bit_take_bit_iff)
  show "bit (pte_base (link_pte (K_VADDR_BASE + p) e)) i = bit p i"
    unfolding base_window [OF p]
  proof (cases "12 \<le> i")
    case True
    then have "Suc (Suc (i - 2)) = i" "10 \<le> i - 2" "i - 2 < 36 \<longleftrightarrow> i < 38" by auto
    with True small_bits [OF p, of i] show "bit (pte_base (link_pte (K_VADDR_BASE OR p) e)) i = bit p i"
      by (cases "i < 32") (auto simp: bit_pte_base bit_link_pte bit_or_iff bit_base)
  next
    case False
    with lo show "bit (pte_base (link_pte (K_VADDR_BASE OR p) e)) i = bit p i"
      by (simp add: bit_pte_base)
  qed
qed

lemma bit_clear_pte: "bit (clear_pte e) i \<longleftrightarrow> 0 < i \<and> i < 10 \<and> bit e i"
  by (auto simp: clear_pte_def bit_pte_fit bit_pte_ppn bf_bits dest: bit_imp_le_length)

lemma clear_pte_invalid [simp]: "\<not> pte_v (clear_pte e)"
  by (simp add: pte_v_def bit_clear_pte)

lemma clear_pte_ppn: "bf_get 10 44 (clear_pte e) = 0"
  by (rule word_bit_extI) (simp add: bf_bits bit_clear_pte)

text \<open>The eight flag bits a mapping with protection \<open>prot\<close> carries: valid, the five protection
  bits, accessed as readable and dirty as writable.\<close>

definition prot_flags :: "u32 \<Rightarrow> u64" where
  "prot_flags prot =
     2 ^ 0 OR (if prot AND PROT_R \<noteq> 0 then 2 ^ 1 OR 2 ^ 6 else 0)
       OR (if prot AND PROT_W \<noteq> 0 then 2 ^ 2 OR 2 ^ 7 else 0)
       OR (if prot AND PROT_X \<noteq> 0 then 2 ^ 3 else 0)
       OR (if prot AND PROT_U \<noteq> 0 then 2 ^ 4 else 0)
       OR (if prot AND PROT_G \<noteq> 0 then 2 ^ 5 else 0)"

definition prot_ok :: "u32 \<Rightarrow> bool" where
  "prot_ok prot \<longleftrightarrow> prot AND 7 \<noteq> 0 \<and> prot AND 7 \<noteq> 2 \<and> prot AND 7 \<noteq> 6"

lemma bit1: "bit (1 :: 'a :: len word) i \<longleftrightarrow> i = 0"
  by (auto simp: bit_1_iff)

lemma prot_and_pow: "prot AND 2 ^ n \<noteq> 0 \<longleftrightarrow> bit (prot :: u32) n"
proof
  assume "bit prot n"
  then have "bit (prot AND 2 ^ n) n"
    using bit_imp_le_length [of prot n] by (simp add: bit_and_iff bit_exp_iff)
  then show "prot AND 2 ^ n \<noteq> 0" by auto
next
  assume "prot AND 2 ^ n \<noteq> 0"
  then obtain i where "bit (prot AND 2 ^ n) i" by (metis bit_0_eq bit_word_eqI bot_apply bot_bool_def)
  then show "bit prot n" by (auto simp: bit_and_iff bit_exp_iff)
qed

lemma prot_bits [simp]:
  "prot AND PROT_R \<noteq> 0 \<longleftrightarrow> bit prot 0" "prot AND PROT_W \<noteq> 0 \<longleftrightarrow> bit prot 1"
  "prot AND PROT_X \<noteq> 0 \<longleftrightarrow> bit prot 2" "prot AND PROT_U \<noteq> 0 \<longleftrightarrow> bit prot 3"
  "prot AND PROT_G \<noteq> 0 \<longleftrightarrow> bit prot 4" "prot AND PROT_IO \<noteq> 0 \<longleftrightarrow> bit prot 5"
  using prot_and_pow [of prot 0] prot_and_pow [of prot 1] prot_and_pow [of prot 2]
    prot_and_pow [of prot 3] prot_and_pow [of prot 4] prot_and_pow [of prot 5]
  by (simp_all add: kdefs)


lemma less_8_cases: "(i :: nat) < 8 \<Longrightarrow> i = 0 \<or> i = 1 \<or> i = 2 \<or> i = 3 \<or> i = 4 \<or> i = 5 \<or> i = 6 \<or> i = 7"
  by arith

lemma bit_pow2: "bit (2 ^ n :: u64) i \<longleftrightarrow> n < 64 \<and> i = n"
  by (auto simp: bit_exp_iff)

lemma bit_if0: "bit (if c then x else (0 :: u64)) i \<longleftrightarrow> c \<and> bit x i"
  by simp

lemma prot_flag_bits:
  "bit (prot_flags prot) i \<longleftrightarrow>
     i = 0 \<or> 1 \<le> i \<and> i \<le> 5 \<and> bit prot (i - 1) \<or> i = 6 \<and> bit prot 0 \<or> i = 7 \<and> bit prot 1"
proof -
  have "bit (prot_flags prot) i \<longleftrightarrow> i = 0 \<or> bit prot 0 \<and> (i = 1 \<or> i = 6) \<or> bit prot 1 \<and> (i = 2 \<or> i = 7)
      \<or> bit prot 2 \<and> i = 3 \<or> bit prot 3 \<and> i = 4 \<or> bit prot 4 \<and> i = 5"
    unfolding prot_flags_def prot_bits bit_or_iff bit_if0 bit_pow2 by simp
  also have "\<dots> \<longleftrightarrow> i = 0 \<or> 1 \<le> i \<and> i \<le> 5 \<and> bit prot (i - 1) \<or> i = 6 \<and> bit prot 0 \<or> i = 7 \<and> bit prot 1"
    by (cases "i < 8") (use less_8_cases [of i] in auto)
  finally show ?thesis .
qed

text \<open>\<open>leaf_pte\<close> in stages: the protection bits, then the frame number and the reserved bits.\<close>

definition leaf_low :: "u32 \<Rightarrow> u64 \<Rightarrow> u64" where
  "leaf_low prot e =
     bf_set 5 1 (if prot AND PROT_G \<noteq> 0 then 1 else 0) (bf_set 4 1 (if prot AND PROT_U \<noteq> 0 then 1 else 0)
       (bf_set 3 1 (if prot AND PROT_X \<noteq> 0 then 1 else 0) (bf_set 2 1 (if prot AND PROT_W \<noteq> 0 then 1 else 0)
         (bf_set 1 1 (if prot AND PROT_R \<noteq> 0 then 1 else 0) (bf_set 0 1 1 e)))))"

definition leaf_mid :: "u32 \<Rightarrow> u64 \<Rightarrow> u64" where
  "leaf_mid prot e = (let e6 = leaf_low prot e; e7 = bf_set 7 1 (bf_get 2 1 e6) e6 in bf_set 6 1 (bf_get 1 1 e7) e7)"

lemma leaf_pte_stages:
  "leaf_pte v pa prot e = (let e9 = pte_fit (pte_ppn pa (leaf_mid prot e)) in
     if v = VARIANT_THEAD_C906 \<and> prot AND PROT_IO = 0 then bf_set 54 10 0x180 e9 else e9)"
  by (simp only: leaf_pte_def leaf_mid_def leaf_low_def Let_def)

lemma bit_leaf_low:
  "bit (leaf_low prot e) i \<longleftrightarrow> i < 64 \<and> (if i = 0 then True else if i \<le> 5 then bit prot (i - 1) else bit e i)"
proof (cases "i < 8")
  case True
  then show ?thesis unfolding leaf_low_def prot_bits
    using less_8_cases [of i] by (auto simp: bit_bf_set bit1)
next
  case False
  then show ?thesis unfolding leaf_low_def prot_bits by (auto simp: bit_bf_set)
qed

lemma bit_leaf_mid:
  "bit (leaf_mid prot e) i \<longleftrightarrow> i < 64 \<and> (if i < 8 then bit (prot_flags prot) i else bit e i)"
proof (cases "i < 8")
  case True
  then show ?thesis unfolding leaf_mid_def
    using less_8_cases [of i] by (auto simp: Let_def bit_bf_set bit_bf_get bit_leaf_low prot_flag_bits)
next
  case False
  then show ?thesis unfolding leaf_mid_def by (auto simp: Let_def bit_bf_set bit_leaf_low)
qed

lemma bit_leaf_pte:
  "i < 54 \<Longrightarrow> bit (leaf_pte v pa prot e) i \<longleftrightarrow>
     (if i < 8 then bit (prot_flags prot) i else if 10 \<le> i then bit pa (i + 2) else bit e i)"
  by (auto simp: leaf_pte_stages Let_def bit_pte_fit bit_pte_ppn bit_bf_set bit_leaf_mid)


lemma leaf_pte_valid [simp]: "pte_v (leaf_pte v pa prot e)"
  by (simp add: pte_v_def bit_leaf_pte prot_flag_bits)

lemma leaf_pte_flags: "take_bit 8 (leaf_pte v pa prot e) = prot_flags prot"
  by (rule word_bit_extI) (auto simp: bit_take_bit_iff bit_leaf_pte prot_flag_bits)

lemma prot_ok_bits: "prot_ok prot \<longleftrightarrow> bit prot 0 \<or> bit prot 2 \<and> \<not> bit prot 1"
proof -
  have e: "prot AND 7 = take_bit 3 prot" by (simp add: take_bit_eq_mask mask_numeral)
  have eq: "take_bit 3 prot = c \<longleftrightarrow> (\<forall>i<3. bit prot i = bit c i)" if "take_bit 3 c = c" for c :: u32
  proof -
    have "take_bit 3 prot = take_bit 3 c \<longleftrightarrow> (\<forall>i<3. bit prot i = bit c i)"
    proof
      assume "take_bit 3 prot = take_bit 3 c"
      then have "bit (take_bit 3 prot) i = bit (take_bit 3 c) i" for i by simp
      then show "\<forall>i<3. bit prot i = bit c i" unfolding bit_take_bit_iff by blast
    next
      assume "\<forall>i<3. bit prot i = bit c i"
      then show "take_bit 3 prot = take_bit 3 c"
        by (intro bit_word_eqI) (auto simp: bit_take_bit_iff)
    qed
    then show ?thesis by (simp add: that)
  qed
  have three: "(\<forall>i<(3::nat). P i) \<longleftrightarrow> P 0 \<and> P 1 \<and> P 2" for P
    by (auto simp: numeral_3_eq_3 numeral_2_eq_2 less_Suc_eq)
  show ?thesis
    unfolding prot_ok_def e using eq [of 0] eq [of 2] eq [of 6] by (auto simp: three)
qed

lemma leaf_pte_leaf: "prot_ok prot \<Longrightarrow> pte_leaf (leaf_pte v pa prot e)"
  by (auto simp: pte_leaf_def pte_r_def pte_w_def pte_x_def bit_leaf_pte prot_flag_bits prot_ok_bits)

lemma leaf_pte_base:
  assumes "take_bit 12 pa = 0"
  shows "pte_base (leaf_pte v pa prot e) = take_bit 56 pa"
proof (rule word_bit_extI)
  fix i :: nat
  have "bit (take_bit 12 pa) i = False" by (simp add: assms)
  then have lo: "i < 12 \<Longrightarrow> \<not> bit pa i" by (simp add: bit_take_bit_iff)
  show "bit (pte_base (leaf_pte v pa prot e)) i = bit (take_bit 56 pa) i"
  proof (cases "12 \<le> i \<and> i < 56")
    case True
    then have "i - 2 < 54" "10 \<le> i - 2" "Suc (Suc (i - 2)) = i" by auto
    with True show ?thesis by (simp add: bit_pte_base bit_leaf_pte bit_take_bit_iff)
  next
    case False
    with lo show ?thesis by (auto simp: bit_pte_base bit_take_bit_iff)
  qed
qed

end
