(* ===== verification/Mmu_Correct.thy ===== *)
theory Mmu_Correct
  imports Mmu_Bits
begin

text \<open>The invariant of a page-table object and the effect of the two steps every call of
  \<open>RV64MMU::map\<close> is made of: \<open>_createPTE\<close> builds the missing tables without changing any
  translation, and \<open>_map\<close> installs exactly one leaf.\<close>

section \<open>The invariant of a page-table object\<close>

definition mmu_root :: "rv64mmu \<Rightarrow> u64" where
  "mmu_root ob = mmu_ptes ob - K_VADDR_BASE"

definition heap_ok :: "u64 \<Rightarrow> nat \<Rightarrow> kmem \<Rightarrow> bool" where
  "heap_ok r mx k \<longleftrightarrow> distinct (heap k) \<and>
     (\<forall>t\<in>set (heap k). page_ok (t - K_VADDR_BASE) \<and> t - K_VADDR_BASE \<notin> tables (pmem k) r mx)"

definition mmu_inv :: "nat \<Rightarrow> rv64mmu \<Rightarrow> kmem \<Rightarrow> bool" where
  "mmu_inv sz ob k \<longleftrightarrow> sv_mode sz \<and> pt_wf (pmem k) (mmu_root ob) (sv_top sz) \<and>
     heap_ok (mmu_root ob) (sv_top sz) k"

text \<open>No mapping of the object changes between the two states.\<close>

definition same_leaves :: "nat \<Rightarrow> rv64mmu \<Rightarrow> kmem \<Rightarrow> kmem \<Rightarrow> bool" where
  "same_leaves sz ob k k' \<longleftrightarrow>
     (\<forall>idx l e. idx_ok idx \<longrightarrow> l \<le> sv_top sz \<longrightarrow>
        leaf_at (pmem k') (mmu_root ob) idx l e = leaf_at (pmem k) (mmu_root ob) idx l e)"

definition same_env :: "kmem \<Rightarrow> kmem \<Rightarrow> bool" where
  "same_env k k' \<longleftrightarrow> low_map k' = low_map k \<and> csr_satp k' = csr_satp k \<and> freed k' = freed k"

section \<open>The kernel window\<close>

lemma kptr_window: "a < 0x100000000 \<Longrightarrow> kptr low (K_VADDR_BASE + a) = Some a"
proof -
  assume a: "a < 0x100000000"
  then have "unat a < 0x100000000" by (simp add: word_less_nat_alt)
  then have "K_VADDR_BASE \<le> K_VADDR_BASE + a"
    by (simp add: kdefs word_le_nat_alt unat_word_ariths)
  with a show ?thesis by (simp add: kptr_def)
qed

lemma page_okE:
  assumes "page_ok b"
  obtains n where "unat b = 4096 * n" "n < 1048576"
proof -
  from page_ok_mod [OF assms] have "4096 dvd unat b" by (simp add: dvd_eq_mod_eq_0)
  then obtain n where n: "unat b = 4096 * n" by (auto elim: dvdE)
  have "unat b < 0x100000000" using assms by (simp add: page_ok_def word_less_nat_alt)
  with n have "n < 1048576" by simp
  with n show thesis by (rule that)
qed

lemma slot_window:
  assumes "page_ok b" "i < 512"
  shows "slot b i < 0x100000000"
proof -
  obtain n where "unat b = 4096 * n" "n < 1048576" by (rule page_okE [OF assms(1)])
  moreover have "unat i < 512" using assms by (simp add: word_less_nat_alt)
  ultimately show ?thesis using unat_slot [OF assms] by (simp add: word_less_nat_alt)
qed

lemma rd64_slot: "page_ok b \<Longrightarrow> i < 512 \<Longrightarrow> rd64 k (K_VADDR_BASE + slot b i) = Some (pmem k (slot b i))"
  by (simp add: rd64_def kptr_window slot_window)

lemma wr64_slot:
  "page_ok b \<Longrightarrow> i < 512 \<Longrightarrow>
     wr64 k (K_VADDR_BASE + slot b i) v = Some (k\<lparr>pmem := (pmem k)(slot b i := v)\<rparr>)"
  by (simp add: wr64_def kptr_window slot_window)

lemma slot_page: "page_ok b \<Longrightarrow> i < 512 \<Longrightarrow> drop_bit 12 (slot b i) = drop_bit 12 b"
proof -
  assume b: "page_ok b" and i: "i < 512"
  obtain n where n: "unat b = 4096 * n" by (rule page_okE [OF b])
  have "8 * unat i < 4096" using i by (simp add: word_less_nat_alt)
  then have "(unat b + 8 * unat i) div 4096 = unat b div 4096"
    unfolding n by (simp add: div_mult_self4)
  then have "unat (drop_bit 12 (slot b i)) = unat (drop_bit 12 b)"
    by (simp add: unat_drop_bit_word unat_slot [OF b i])
  then show ?thesis by (simp add: word_unat_eq_iff)
qed

lemma page_eq_iff: "page_ok b \<Longrightarrow> page_ok p \<Longrightarrow> drop_bit 12 b = drop_bit 12 p \<longleftrightarrow> b = p"
proof
  assume ok: "page_ok b" "page_ok p" and "drop_bit 12 b = drop_bit 12 p"
  then have "unat (drop_bit 12 b) = unat (drop_bit 12 p)" by simp
  then have "unat b div 4096 = unat p div 4096" by (simp add: unat_drop_bit_word)
  then have "unat b = unat p" using page_okE [OF ok(1)] page_okE [OF ok(2)]
    by (metis nonzero_mult_div_cancel_left zero_neq_numeral)
  then show "b = p" by (simp add: word_unat_eq_iff)
qed simp

lemma memset_window:
  assumes "page_ok p"
  shows "\<exists>m'. memset_page k (K_VADDR_BASE + p) = Some (k\<lparr>pmem := m'\<rparr>) \<and>
    (\<forall>i<512. m' (slot p i) = 0) \<and>
    (\<forall>b i. page_ok b \<longrightarrow> i < 512 \<longrightarrow> b \<noteq> p \<longrightarrow> m' (slot b i) = pmem k (slot b i))"
proof -
  have "kptr (low_map k) (K_VADDR_BASE + p) = Some p"
    using assms by (simp add: kptr_window page_ok_def)
  then show ?thesis
    using assms by (auto simp: memset_page_def slot_page page_eq_iff)
qed

section \<open>Hanging a new table: \<open>_createPTE\<close>\<close>

text \<open>One step of \<open>_createPTE\<close>: the entry on the path is free, the heap has a block.\<close>

lemma link_step:
  assumes inv: "mmu_inv sz ob k" and idx: "idx_ok idx" and l: "l < sv_top sz"
    and b: "tbl_at (pmem k) (mmu_root ob) idx l = Some b"
    and free: "\<not> pte_v (pmem k (slot b (idx l)))" and h: "heap k = t # ps"
  shows "\<exists>k3 k4. memset_page (k\<lparr>heap := ps\<rparr>) t = Some k3 \<and>
    rd64 k3 (K_VADDR_BASE + slot b (idx l)) = Some (pmem k (slot b (idx l))) \<and>
    wr64 k3 (K_VADDR_BASE + slot b (idx l)) (link_pte t (pmem k (slot b (idx l)))) = Some k4 \<and>
    mmu_inv sz ob k4 \<and> same_leaves sz ob k k4 \<and> same_env k k4 \<and> heap k4 = ps \<and>
    tbl_at (pmem k4) (mmu_root ob) idx (Suc l) = Some (t - K_VADDR_BASE)"
proof -
  let ?r = "mmu_root ob" and ?mx = "sv_top sz" and ?p = "t - K_VADDR_BASE" and ?s = "slot b (idx l)"
  from inv have wf: "pt_wf (pmem k) ?r ?mx" and hp: "heap_ok ?r ?mx k" and sv: "sv_mode sz"
    by (auto simp: mmu_inv_def)
  from hp h have p: "page_ok ?p" "?p \<notin> tables (pmem k) ?r ?mx" and d: "distinct (t # ps)"
    by (auto simp: heap_ok_def)
  have t: "t = K_VADDR_BASE + ?p" by simp
  have bok: "page_ok b" and bt: "b \<in> tables (pmem k) ?r ?mx" and i: "idx l < 512"
    using tbl_at_page_ok [OF wf idx _ b] tablesI [OF idx _ b] l idx_okD [OF idx] by auto
  from bt p(2) have bp: "b \<noteq> ?p" by auto
  obtain m' where ms: "memset_page (k\<lparr>heap := ps\<rparr>) t = Some (k\<lparr>heap := ps, pmem := m'\<rparr>)"
    and z: "\<And>j. j < 512 \<Longrightarrow> m' (slot ?p j) = 0"
    and o: "\<And>c j. page_ok c \<Longrightarrow> j < 512 \<Longrightarrow> c \<noteq> ?p \<Longrightarrow> m' (slot c j) = pmem k (slot c j)"
    using memset_window [OF p(1), of "k\<lparr>heap := ps\<rparr>"] t by auto
  define k3 where "k3 = k\<lparr>heap := ps, pmem := m'\<rparr>"
  define k4 where "k4 = k3\<lparr>pmem := m'(?s := link_pte t (pmem k ?s))\<rparr>"
  have rd: "rd64 k3 (K_VADDR_BASE + ?s) = Some (pmem k ?s)"
    using rd64_slot [OF bok i] o [OF bok i bp] by (simp add: k3_def)
  have wr: "wr64 k3 (K_VADDR_BASE + ?s) (link_pte t (pmem k ?s)) = Some k4"
    using wr64_slot [OF bok i] by (simp add: k4_def k3_def)
  have "link_pte t (pmem k ?s) = link_pte (K_VADDR_BASE + ?p) (pmem k ?s)" using t by simp
  then have base: "pte_base (link_pte t (pmem k ?s)) = ?p"
    using link_pte_base [OF p(1)] by metis
  have "writes_slot (pmem k) (pmem k4) ?r ?mx b (idx l)"
    using o tables_page_ok [OF wf] p(2) bok i by (auto simp: writes_slot_def k4_def slot_eq_iff)
  moreover have "pmem k4 (slot ?p j) = 0" if "j < 512" for j
    using z [OF that] bp slot_eq_iff [OF p(1) bok that i] by (auto simp: k4_def)
  ultimately have lk: "links_table (pmem k) (pmem k4) ?r ?mx b (idx l) ?p"
    using p base by (simp add: links_table_def k4_def)
  have wf4: "pt_wf (pmem k4) ?r ?mx" by (rule link_wf [OF wf idx l b lk])
  have tb4: "tables (pmem k4) ?r ?mx = insert ?p (tables (pmem k) ?r ?mx)"
    by (rule link_tables [OF wf idx l b lk free])
  have "u - K_VADDR_BASE \<noteq> ?p" if "u \<in> set ps" for u using that d by auto
  then have "heap_ok ?r ?mx k4"
    using hp h d tb4 by (auto simp: heap_ok_def k4_def k3_def)
  then have "mmu_inv sz ob k4" using wf4 sv by (simp add: mmu_inv_def)
  moreover have "same_leaves sz ob k k4"
    using link_leaf_at [OF wf idx l b lk free] by (simp add: same_leaves_def)
  moreover have "tbl_at (pmem k4) ?r idx (Suc l) = Some ?p"
    using link_tbl_at [OF wf idx l b lk idx, of "Suc l"] l by simp
  ultimately show ?thesis
    using ms rd wr by (intro exI [of _ k3] exI [of _ k4]) (simp add: k3_def k4_def same_env_def)
qed

lemma same_leaves_trans: "same_leaves sz ob k1 k2 \<Longrightarrow> same_leaves sz ob k2 k3 \<Longrightarrow> same_leaves sz ob k1 k3"
  by (simp add: same_leaves_def)

lemma same_env_trans: "same_env k1 k2 \<Longrightarrow> same_env k2 k3 \<Longrightarrow> same_env k1 k3"
  by (simp add: same_env_def)

lemma same_refl [simp]: "same_leaves sz ob k k" "same_env k k"
  by (simp_all add: same_leaves_def same_env_def)

text \<open>On a path without mappings above level \<open>l\<close>, \<open>_createPTE\<close> returns the address of the
  slot of level \<open>l\<close>, takes at most \<open>l\<close> blocks from the heap and changes no mapping.\<close>

lemma createPTE_spec:
  assumes "mmu_inv sz ob k" "l \<le> sv_top sz" "l \<le> length (heap k)"
    and "\<And>j e. j < l \<Longrightarrow> \<not> leaf_at (pmem k) (mmu_root ob) (sv_vpn sz va) j e"
  shows "\<exists>b k'. createPTE sz ob l va k = Some (K_VADDR_BASE + slot b (sv_vpn sz va l), k') \<and>
    tbl_at (pmem k') (mmu_root ob) (sv_vpn sz va) l = Some b \<and> mmu_inv sz ob k' \<and>
    same_leaves sz ob k k' \<and> same_env k k' \<and> length (heap k) \<le> length (heap k') + l"
  using assms
proof (induction l)
  case 0
  then have "getVPN sz 0 va = sv_vpn sz va 0" by (simp add: getVPN_sv mmu_inv_def)
  with 0 show ?case by (simp add: slot_def mmu_root_def)
next
  case (Suc l)
  let ?idx = "sv_vpn sz va" and ?r = "mmu_root ob" and ?mx = "sv_top sz"
  obtain b k1 where c: "createPTE sz ob l va k = Some (K_VADDR_BASE + slot b (?idx l), k1)"
    and b: "tbl_at (pmem k1) ?r ?idx l = Some b" and inv: "mmu_inv sz ob k1"
    and sl: "same_leaves sz ob k k1" and se: "same_env k k1"
    and len: "length (heap k) \<le> length (heap k1) + l"
    using Suc by fastforce
  let ?e = "pmem k1 (slot b (?idx l))"
  have sv: "sv_mode sz" and wf: "pt_wf (pmem k1) ?r ?mx" using inv by (auto simp: mmu_inv_def)
  have l: "l < ?mx" using Suc.prems by simp
  have vpn: "getVPN sz (Suc l) va = ?idx (Suc l)" using getVPN_sv [OF sv] Suc.prems by simp
  have bok: "page_ok b" using tbl_at_page_ok [OF wf _ _ b] l by simp
  have rd: "rd64 k1 (K_VADDR_BASE + slot b (?idx l)) = Some ?e"
    by (rule rd64_slot [OF bok]) (simp add: idx_okD)
  have "\<not> leaf_at (pmem k1) ?r ?idx l ?e"
    using sl l Suc.prems(4) [of l] by (simp add: same_leaves_def)
  then have nl: "\<not> pte_leaf ?e" using b by (auto simp: leaf_at_def)
  have ok: "slot_ok (l < ?mx) ?e" using pt_wf_slot [OF wf _ _ b] l by simp
  show ?case
  proof (cases "pte_ptr ?e")
    case True
    then have p: "page_ok (pte_base ?e)" using ok by (simp add: slot_ok_def)
    then have pa: "pte_paddr ?e = pte_base ?e" "pte_paddr ?e \<noteq> 0"
      using paddr_eq_base [of ?e] by (simp_all add: page_ok_def)
    have "tbl_at (pmem k1) ?r ?idx (Suc l) = Some (pte_base ?e)" using b True by simp
    with c rd pa vpn inv sl se len show ?thesis
      by (intro exI [of _ "pte_base ?e"] exI [of _ k1]) (simp add: slot_def add_ac)
  next
    case False
    then have free: "\<not> pte_v ?e" using ok nl by (auto simp: slot_ok_def)
    then have z: "pte_paddr ?e = 0" using ok paddr_zero by (simp add: slot_ok_def)
    from len Suc.prems(3) obtain t ps where h: "heap k1 = t # ps" by (cases "heap k1") auto
    obtain k3 k4 where s: "memset_page (k1\<lparr>heap := ps\<rparr>) t = Some k3"
      "rd64 k3 (K_VADDR_BASE + slot b (?idx l)) = Some ?e"
      "wr64 k3 (K_VADDR_BASE + slot b (?idx l)) (link_pte t ?e) = Some k4"
      and k4: "mmu_inv sz ob k4" "same_leaves sz ob k1 k4" "same_env k1 k4" "heap k4 = ps"
      "tbl_at (pmem k4) ?r ?idx (Suc l) = Some (t - K_VADDR_BASE)"
      using link_step [OF inv _ l b free h] by auto
    have "createPTE sz ob (Suc l) va k = Some (K_VADDR_BASE + slot (t - K_VADDR_BASE) (?idx (Suc l)), k4)"
      using c rd z h s vpn by (simp add: alignedMalloc_def slot_def)
    with k4 same_leaves_trans [OF sl] same_env_trans [OF se] len h show ?thesis
      by (intro exI [of _ "t - K_VADDR_BASE"] exI [of _ k4]) simp
  qed
qed

section \<open>Storing a mapping: \<open>_map\<close>\<close>

lemma calcLevel_block:
  assumes "sv_mode sz" "pick_block sz vc pc rest = Some bs"
  shows "\<exists>L \<le> sv_top sz. calcLevel sz bs = int L \<and> sv_shift sz L = bs"
proof -
  let ?L = "sv_top sz - (bs - 12) div 9"
  have "?L \<le> sv_top sz \<and> calcLevel sz bs = int ?L \<and> sv_shift sz ?L = bs"
    using assms(1) pick_block_cases [OF assms(2)] unfolding sv_mode_def
    by (elim conjE disjE) (simp_all add: calcLevel_def getMaxLevel_def sv_shift_def)
  then show ?thesis by blast
qed

text \<open>\<open>mapped_at sz ob k k' idx L e\<close>: the mappings of \<open>k'\<close> are those of \<open>k\<close>, except that the
  addresses that share the first \<open>Suc L\<close> indices with \<open>idx\<close> have the leaf \<open>e\<close> at level \<open>L\<close>.\<close>

definition mapped_at ::
  "nat \<Rightarrow> rv64mmu \<Rightarrow> kmem \<Rightarrow> kmem \<Rightarrow> (nat \<Rightarrow> u64) \<Rightarrow> nat \<Rightarrow> u64 \<Rightarrow> bool" where
  "mapped_at sz ob k k' idx L e \<longleftrightarrow>
     (\<forall>idx' l' e'. idx_ok idx' \<longrightarrow> l' \<le> sv_top sz \<longrightarrow>
        leaf_at (pmem k') (mmu_root ob) idx' l' e' =
          (if agree (Suc L) idx idx' then l' = L \<and> e' = e \<and> pte_leaf e'
           else leaf_at (pmem k) (mmu_root ob) idx' l' e'))"

lemma store_slot:
  assumes inv: "mmu_inv sz ob k" and idx: "idx_ok idx" and L: "L \<le> sv_top sz"
    and b: "tbl_at (pmem k) (mmu_root ob) idx L = Some b"
    and old: "\<not> pte_ptr (pmem k (slot b (idx L)))" and new: "\<not> pte_ptr e"
    and ok: "slot_ok (L < sv_top sz) e"
  shows "\<exists>k'. wr64 k (K_VADDR_BASE + slot b (idx L)) e = Some k' \<and> mmu_inv sz ob k' \<and>
    mapped_at sz ob k k' idx L e \<and> same_env k k' \<and> heap k' = heap k"
proof -
  let ?r = "mmu_root ob" and ?mx = "sv_top sz"
  from inv have wf: "pt_wf (pmem k) ?r ?mx" and hp: "heap_ok ?r ?mx k" and sv: "sv_mode sz"
    by (auto simp: mmu_inv_def)
  have bok: "page_ok b" using tbl_at_page_ok [OF wf idx L b] .
  have i: "idx L < 512" by (rule idx_okD [OF idx])
  define k' where "k' = k\<lparr>pmem := (pmem k)(slot b (idx L) := e)\<rparr>"
  have wr: "wr64 k (K_VADDR_BASE + slot b (idx L)) e = Some k'"
    using wr64_slot [OF bok i] by (simp add: k'_def)
  have w: "writes_slot (pmem k) (pmem k') ?r ?mx b (idx L)"
    using writes_slot_upd [OF wf bok i] by (simp add: k'_def)
  have val: "pmem k' (slot b (idx L)) = e" by (simp add: k'_def)
  then have new': "\<not> pte_ptr (pmem k' (slot b (idx L)))" and ok': "slot_ok (L < ?mx) (pmem k' (slot b (idx L)))"
    using new ok by simp_all
  have "pt_wf (pmem k') ?r ?mx" "tables (pmem k') ?r ?mx = tables (pmem k) ?r ?mx"
    using write_nonptr_wf [OF wf idx L b w old new' ok'] by auto
  then have "mmu_inv sz ob k'" using hp sv by (simp add: mmu_inv_def heap_ok_def k'_def)
  moreover have "mapped_at sz ob k k' idx L e"
    using write_nonptr_leaf_at [OF wf idx L b w old new'] val by (simp add: mapped_at_def)
  ultimately show ?thesis using wr by (intro exI [of _ k']) (simp add: k'_def same_env_def)
qed

lemma map_block_spec:
  assumes inv: "mmu_inv sz ob k" and L: "L \<le> sv_top sz" "calcLevel sz bs = int L"
    and h: "L \<le> length (heap k)" and prot: "prot_ok prot"
    and none: "\<And>j e. j \<le> sv_top sz \<Longrightarrow> \<not> leaf_at (pmem k) (mmu_root ob) (sv_vpn sz va) j e"
  shows "\<exists>rc k'. map_block sz bs ob va pa prot k = Some (rc, k') \<and> mmu_inv sz ob k' \<and> same_env k k' \<and>
    length (heap k) \<le> length (heap k') + L \<and>
    (rc = 0 \<and> (\<exists>e. mapped_at sz ob k k' (sv_vpn sz va) L (leaf_pte (mmu_variant ob) pa prot e))
     \<or> rc = K_EALREADY \<and> L < sv_top sz \<and> same_leaves sz ob k k')"
proof -
  let ?idx = "sv_vpn sz va" and ?r = "mmu_root ob" and ?mx = "sv_top sz"
  have above: "\<not> leaf_at (pmem k) ?r ?idx j e" if "j < L" for j e
    by (rule none) (use that L in simp)
  obtain b k1 where c: "createPTE sz ob L va k = Some (K_VADDR_BASE + slot b (?idx L), k1)"
    and b: "tbl_at (pmem k1) ?r ?idx L = Some b" and inv1: "mmu_inv sz ob k1"
    and sl: "same_leaves sz ob k k1" and se: "same_env k k1"
    and len: "length (heap k) \<le> length (heap k1) + L"
    using createPTE_spec [OF inv L(1) h above] by blast
  let ?e = "pmem k1 (slot b (?idx L))"
  have wf: "pt_wf (pmem k1) ?r ?mx" using inv1 by (auto simp: mmu_inv_def)
  have bok: "page_ok b" using tbl_at_page_ok [OF wf _ L(1) b] by simp
  have rd: "rd64 k1 (K_VADDR_BASE + slot b (?idx L)) = Some ?e"
    by (rule rd64_slot [OF bok]) (simp add: idx_okD)
  show ?thesis
  proof (cases "pte_v ?e")
    case True
    then have "map_block sz bs ob va pa prot k = Some (K_EALREADY, k1)"
      using L c rd by (simp add: map_block_def)
    moreover have "\<not> leaf_at (pmem k1) ?r ?idx L ?e" using none [OF L(1)] sl L(1) by (simp add: same_leaves_def)
    then have "pte_ptr ?e" using True b pt_wf_slot [OF wf _ L(1) b] by (auto simp: leaf_at_def slot_ok_def)
    then have "L < ?mx" using pt_wf_slot [OF wf _ L(1) b] by (simp add: slot_ok_def)
    ultimately show ?thesis using inv1 sl se len by (intro exI [of _ K_EALREADY] exI [of _ k1]) simp
  next
    case False
    let ?n = "leaf_pte (mmu_variant ob) pa prot ?e"
    have leaf: "pte_leaf ?n" by (rule leaf_pte_leaf [OF prot])
    then have np: "\<not> pte_ptr ?n" by (rule not_leaf_ptr)
    then have nok: "slot_ok (L < ?mx) ?n" using leaf by (simp add: slot_ok_def)
    from False have old: "\<not> pte_ptr ?e" by simp
    obtain k2 where
      k2: "wr64 k1 (K_VADDR_BASE + slot b (?idx L)) ?n = Some k2" "mmu_inv sz ob k2"
        "mapped_at sz ob k1 k2 ?idx L ?n" "same_env k1 k2" "heap k2 = heap k1"
      using store_slot [OF inv1 _ L(1) b old np nok] by auto
    have "mapped_at sz ob k k2 ?idx L ?n"
      using k2(3) sl by (simp add: mapped_at_def same_leaves_def)
    moreover have "map_block sz bs ob va pa prot k = Some (0, k2)"
      using L c rd False k2(1) by (simp add: map_block_def)
    ultimately show ?thesis
      using k2 len same_env_trans [OF se k2(4)] by (intro exI [of _ 0] exI [of _ k2]) auto
  qed
qed

end
