(* ===== verification/Mmu_Map.thy ===== *)
theory Mmu_Map
  imports Mmu_Correct
begin

text \<open>What \<open>RV64MMU::map\<close> does to the address space, stated through the hardware walk: the block
  chosen in one round covers exactly the addresses of the block, one round turns the free region
  into a mapped block and a smaller free region, and the loop maps the whole region.\<close>


section \<open>Blocks of virtual addresses\<close>

lemma canonical_bit: "sv_canonical sz va \<Longrightarrow> sz - 1 \<le> i \<Longrightarrow> i < 64 \<Longrightarrow> bit va i = bit va (sz - 1)"
proof -
  assume c: "sv_canonical sz va" and i: "sz - 1 \<le> i" "i < 64"
  from c have "bit va i = bit (signed_take_bit (sz - 1) va) i" by (simp add: sv_canonical_def)
  also have "\<dots> = bit va (sz - 1)" using i by (simp add: bit_signed_take_bit_iff min_def)
  finally show ?thesis .
qed

lemma sv_vpn_bit: "j < 9 \<Longrightarrow> bit (sv_vpn sz va l) j = bit va (sv_shift sz l + j)"
  by (simp add: sv_vpn_def bf_bits)

lemma sv_vpn_eq_iff: "sv_vpn sz va l = sv_vpn sz va' l \<longleftrightarrow> (\<forall>j<9. bit va (sv_shift sz l + j) = bit va' (sv_shift sz l + j))"
proof
  assume "sv_vpn sz va l = sv_vpn sz va' l"
  then show "\<forall>j<9. bit va (sv_shift sz l + j) = bit va' (sv_shift sz l + j)"
    using sv_vpn_bit by metis
next
  assume "\<forall>j<9. bit va (sv_shift sz l + j) = bit va' (sv_shift sz l + j)"
  then show "sv_vpn sz va l = sv_vpn sz va' l"
    by (intro word_bit_extI) (auto simp: sv_vpn_def bf_bits)
qed

lemma agree_block:
  assumes sv: "sv_mode sz" and L: "L \<le> sv_top sz" and c: "sv_canonical sz va" "sv_canonical sz va'"
  shows "agree (Suc L) (sv_vpn sz va) (sv_vpn sz va') \<longleftrightarrow>
    drop_bit (sv_shift sz L) va = drop_bit (sv_shift sz L) va'"
proof
  assume eq: "drop_bit (sv_shift sz L) va = drop_bit (sv_shift sz L) va'"
  have "bit va i = bit va' i" if "sv_shift sz L \<le> i" for i
  proof -
    have "bit (drop_bit (sv_shift sz L) va) (i - sv_shift sz L) = bit (drop_bit (sv_shift sz L) va') (i - sv_shift sz L)"
      by (simp add: eq)
    with that show ?thesis by (simp add: bit_drop_bit_eq)
  qed
  moreover have "sv_shift sz L \<le> sv_shift sz k" if "k \<le> L" for k
    using that by (simp add: sv_shift_def)
  ultimately show "agree (Suc L) (sv_vpn sz va) (sv_vpn sz va')"
    unfolding agree_def sv_vpn_eq_iff less_Suc_eq_le by (metis trans_le_add1)
next
  assume ag: "agree (Suc L) (sv_vpn sz va) (sv_vpn sz va')"
  have top: "sz = 12 + 9 * Suc (sv_top sz)" using sv_mode_top [OF sv] by simp
  have low: "bit va i = bit va' i" if i: "sv_shift sz L \<le> i" "i < sz" for i
  proof -
    define q where "q = (i - 12) div 9"
    define j where "j = (i - 12) mod 9"
    have "12 \<le> i" using i by (simp add: sv_shift_def)
    then have ij: "i = 12 + 9 * q + j" "j < 9" by (simp_all add: q_def j_def)
    have "q \<le> sv_top sz" using i ij top by simp
    have "sv_top sz - L \<le> q" using i ij by (simp add: sv_shift_def)
    then have k: "sv_top sz - q \<le> L" "sv_shift sz (sv_top sz - q) = 12 + 9 * q"
      using \<open>q \<le> sv_top sz\<close> by (simp_all add: sv_shift_def)
    then have "sv_vpn sz va (sv_top sz - q) = sv_vpn sz va' (sv_top sz - q)"
      using ag by (simp add: agree_def)
    then show ?thesis using ij k by (simp add: sv_vpn_eq_iff)
  qed
  have "sv_shift sz L \<le> sz - 1" using top by (simp add: sv_shift_def)
  then have "bit va i = bit va' i" if "sv_shift sz L \<le> i" "i < 64" for i
  proof (cases "i < sz")
    case False
    then show ?thesis
      using canonical_bit [OF c(1), of i] canonical_bit [OF c(2), of i] that low [of "sz - 1"] top
        \<open>sv_shift sz L \<le> sz - 1\<close> by simp
  qed (use low that in simp)
  then have "bit va (sv_shift sz L + i) = bit va' (sv_shift sz L + i)" for i
    by (cases "sv_shift sz L + i < 64") (auto dest: bit_imp_le_length)
  then show "drop_bit (sv_shift sz L) va = drop_bit (sv_shift sz L) va'"
    by (intro word_bit_extI) (simp add: bit_drop_bit_eq)
qed

lemma aligned_split: "take_bit bs vc = 0 \<Longrightarrow> drop_bit bs va = drop_bit bs (vc :: u64) \<Longrightarrow> va = vc + take_bit bs va"
proof -
  assume "take_bit bs vc = 0" "drop_bit bs va = drop_bit bs vc"
  then have "push_bit bs (drop_bit bs va) = vc"
    using bits_ident [of bs vc] by simp
  then show ?thesis using bits_ident [of bs va] by simp
qed

lemma unat_pow2: "bs < 64 \<Longrightarrow> unat (2 ^ bs :: u64) = 2 ^ bs"
proof -
  assume "bs < 64"
  then have "(2::nat) ^ bs < 2 ^ 64" by (rule power_strict_increasing) simp
  moreover have "unat (word_of_nat (2 ^ bs) :: u64) = (2 ^ bs) mod 2 ^ 64"
    by (simp only: unsigned_of_nat take_bit_eq_mod) simp
  ultimately show ?thesis by simp
qed

lemma block_range:
  assumes al: "take_bit bs vc = 0" and bs: "bs < 64"
  shows "drop_bit bs va = drop_bit bs (vc :: u64) \<longleftrightarrow> va - vc < 2 ^ bs"
proof
  assume "drop_bit bs va = drop_bit bs vc"
  then have "va - vc = take_bit bs va" using aligned_split [OF al] by (metis add_diff_cancel_left')
  then have "unat (va - vc) < 2 ^ bs" by (simp add: unat_take_bit_word)
  moreover have "unat (2 ^ bs :: u64) = 2 ^ bs" using bs by (simp add: unat_pow2)
  ultimately show "va - vc < 2 ^ bs" by (simp add: word_less_nat_alt)
next
  assume "va - vc < 2 ^ bs"
  then have d: "unat (va - vc) < 2 ^ bs" using bs by (simp add: word_less_nat_alt unat_pow2)
  have vc: "unat vc mod 2 ^ bs = 0" using al by (metis unat_take_bit_word unat_0)
  then obtain n where n: "unat vc = 2 ^ bs * n" by (metis mod_0_imp_dvd dvdE)
  have "unat vc < 2 ^ 64" by (rule order_less_le_trans [OF unsigned_less]) simp
  then have "unat vc + 2 ^ bs \<le> 2 ^ 64"
  proof -
    have p: "(2::nat) ^ 64 = 2 ^ bs * 2 ^ (64 - bs)" using bs by (simp flip: power_add)
    then have "2 ^ bs * n < 2 ^ bs * 2 ^ (64 - bs)" using \<open>unat vc < 2 ^ 64\<close> n by metis
    then have "n < 2 ^ (64 - bs)" by simp
    then have "2 ^ bs * Suc n \<le> 2 ^ bs * 2 ^ (64 - bs)" by (intro mult_le_mono) auto
    with n p show ?thesis by simp
  qed
  then have "unat (vc + (va - vc)) = unat vc + unat (va - vc)"
    using d by (simp only: unat_word_ariths) simp
  then have "unat va div 2 ^ bs = unat vc div 2 ^ bs" using n d by simp
  then have "unat (drop_bit bs va) = unat (drop_bit bs vc)" by (simp add: unat_drop_bit_word)
  then show "drop_bit bs va = drop_bit bs vc" by (simp add: word_unat_eq_iff)
qed

lemma range_split:
  fixes x B R :: u64
  assumes "B \<le> R"
  shows "x < R \<longleftrightarrow> x < B \<or> x - B < R - B"
proof (cases "x < B")
  case True
  with assms show ?thesis by simp
next
  case False
  then have "B \<le> x" by simp
  then have "x - B < R - B \<longleftrightarrow> x < R"
    using assms by (simp add: word_less_nat_alt word_le_nat_alt unat_sub) linarith
  with False show ?thesis by simp
qed


section \<open>Translations after a block is mapped\<close>

definition mmu_translate :: "nat \<Rightarrow> rv64mmu \<Rightarrow> kmem \<Rightarrow> u64 \<Rightarrow> (u64 \<times> u64) option" where
  "mmu_translate sz ob k va = sv_translate sz (mmu_root ob) (pmem k) va"

definition mmu_lookup :: "nat \<Rightarrow> rv64mmu \<Rightarrow> kmem \<Rightarrow> u64 \<Rightarrow> (nat \<times> u64) option" where
  "mmu_lookup sz ob k va = sv_lookup sz (mmu_root ob) (pmem k) va"

lemma mmu_lookup_None:
  "mmu_lookup sz ob k va = None \<longleftrightarrow>
     (\<forall>l e. l \<le> sv_top sz \<longrightarrow> \<not> leaf_at (pmem k) (mmu_root ob) (sv_vpn sz va) l e)"
proof -
  have "mmu_lookup sz ob k va = None \<longleftrightarrow> (\<forall>l e. mmu_lookup sz ob k va \<noteq> Some (l, e))"
    by (cases "mmu_lookup sz ob k va") auto
  then show ?thesis by (auto simp: mmu_lookup_def sv_lookup_def sv_walk_iff)
qed

lemma same_leaves_lookup: "same_leaves sz ob k k' \<Longrightarrow> mmu_lookup sz ob k' va = mmu_lookup sz ob k va"
  unfolding mmu_lookup_def sv_lookup_def by (rule sv_walk_cong) (simp add: same_leaves_def)

lemma mapped_at_lookup:
  assumes m: "mapped_at sz ob k k' (sv_vpn sz vc) L e" and L: "L \<le> sv_top sz" and leaf: "pte_leaf e"
  shows "mmu_lookup sz ob k' va =
    (if agree (Suc L) (sv_vpn sz vc) (sv_vpn sz va) then Some (L, e) else mmu_lookup sz ob k va)"
proof (cases "agree (Suc L) (sv_vpn sz vc) (sv_vpn sz va)")
  case True
  then have "leaf_at (pmem k') (mmu_root ob) (sv_vpn sz va) L e"
    using m L leaf by (simp add: mapped_at_def)
  then show ?thesis using True L by (simp add: mmu_lookup_def sv_lookup_def sv_walk_iff)
next
  case False
  have "mmu_lookup sz ob k' va = mmu_lookup sz ob k va"
    unfolding mmu_lookup_def sv_lookup_def
    by (rule sv_walk_cong) (use m False in \<open>simp add: mapped_at_def\<close>)
  with False show ?thesis by simp
qed

lemma sv_shift_bounds: "sv_mode sz \<Longrightarrow> 12 \<le> sv_shift sz L \<and> sv_shift sz L \<le> 48"
proof -
  assume "sv_mode sz"
  then have "sv_top sz - L \<le> 4" using sv_mode_top by (meson diff_le_self le_trans)
  then show ?thesis by (simp add: sv_shift_def)
qed

lemma mapped_block_lookup:
  assumes "mapped_at sz ob k k' (sv_vpn sz vc) L e" "L \<le> sv_top sz" "pte_leaf e"
    and "sv_mode sz" "sv_canonical sz vc" "sv_canonical sz va"
    and "take_bit (sv_shift sz L) vc = 0"
  shows "mmu_lookup sz ob k' va =
    (if va - vc < 2 ^ sv_shift sz L then Some (L, e) else mmu_lookup sz ob k va)"
proof -
  have "sv_shift sz L < 64" using sv_shift_bounds [OF assms(4), of L] by simp
  then show ?thesis
    using mapped_at_lookup [OF assms(1-3), of va] agree_block [OF assms(4,2,5,6)]
      block_range [OF assms(7)] by (metis)
qed

lemma leaf_translate:
  assumes lk: "mmu_lookup sz ob k va = Some (L, leaf_pte v pc prot e)" and c: "sv_canonical sz va"
    and L: "L \<le> sv_top sz" and sv: "sv_mode sz"
    and al: "take_bit (sv_shift sz L) vc = 0" "take_bit (sv_shift sz L) pc = 0"
    and r: "va - vc < 2 ^ sv_shift sz L" and pc: "take_bit 56 pc = pc"
  shows "mmu_translate sz ob k va = Some (pc + (va - vc), prot_flags prot)"
proof -
  let ?bs = "sv_shift sz L"
  have bs: "12 \<le> ?bs" "?bs < 64" using sv_shift_bounds [OF sv, of L] by simp_all
  have "take_bit 12 pc = take_bit 12 (take_bit ?bs pc)" using bs by (simp add: min_def)
  then have base: "pte_base (leaf_pte v pc prot e) = pc" using al pc by (simp add: leaf_pte_base)
  have "drop_bit ?bs va = drop_bit ?bs vc" using block_range [OF al(1) bs(2)] r by simp
  from aligned_split [OF al(1) this] have tb: "take_bit ?bs va = va - vc"
    by (metis add_diff_cancel_left')
  have "pc AND take_bit ?bs va = 0"
  proof (rule word_bit_extI)
    fix i :: nat
    have "bit (take_bit ?bs pc) i = False" using al by simp
    then show "bit (pc AND take_bit ?bs va) i = bit 0 i" by (auto simp: bit_take_bit_iff bit_and_iff)
  qed
  then have "pc OR take_bit ?bs va = pc + take_bit ?bs va" by (simp add: disjunctive_add_eq_or)
  then show ?thesis
    using lk c base al tb leaf_pte_flags
    by (simp add: mmu_translate_def mmu_lookup_def sv_translate_def)
qed


section \<open>The loop of \<open>map\<close>\<close>

lemma range_disjoint:
  fixes x B R :: u64
  assumes "B \<le> R" "x - B < R - B"
  shows "\<not> x < B"
proof
  assume "x < B"
  then have "unat (x - B) = 2 ^ 64 + unat x - unat B"
    by (simp add: unat_sub_if_size word_less_nat_alt word_size)
  moreover have "unat (R - B) = unat R - unat B" using assms(1) by (simp add: unat_sub)
  moreover have "unat R < 2 ^ 64" by (rule order_less_le_trans [OF unsigned_less]) simp
  ultimately show False using assms \<open>x < B\<close> by (simp add: word_less_nat_alt word_le_nat_alt)
qed

lemma aligned12_pow2: "12 \<le> bs \<Longrightarrow> take_bit 12 (2 ^ bs :: u64) = 0"
  by (rule word_bit_extI) (auto simp: bit_take_bit_iff bit_exp_iff)

lemma aligned12_unat: "take_bit 12 (r :: u64) = 0 \<longleftrightarrow> unat r mod 4096 = 0"
  using aligned12_iff [of r] by (simp add: and_mask12)

lemma aligned12_add: "take_bit 12 (a :: u64) = 0 \<Longrightarrow> take_bit 12 b = 0 \<Longrightarrow> take_bit 12 (a + b) = 0"
  unfolding aligned12_unat dvd_eq_mod_eq_0 [symmetric] by (simp add: unat_word_ariths dvd_mod_iff)

lemma aligned12_diff:
  "take_bit 12 (a :: u64) = 0 \<Longrightarrow> take_bit 12 b = 0 \<Longrightarrow> b \<le> a \<Longrightarrow> take_bit 12 (a - b) = 0"
  unfolding aligned12_unat dvd_eq_mod_eq_0 [symmetric] by (simp add: unat_sub dvd_diff_nat)

lemma aligned12_ge: "take_bit 12 (r :: u64) = 0 \<Longrightarrow> r \<noteq> 0 \<Longrightarrow> 4096 \<le> r"
proof -
  assume "take_bit 12 r = 0" and nz: "r \<noteq> 0"
  then have "4096 dvd unat r" by (simp add: aligned12_unat dvd_eq_mod_eq_0)
  moreover have "0 < unat r" using nz by (simp add: unat_gt_0)
  ultimately have "4096 \<le> unat r" by (rule dvd_imp_le)
  then show ?thesis by (simp add: word_le_nat_alt)
qed

lemma pick_block_exists:
  assumes "take_bit 12 vc = 0" "take_bit 12 pc = 0" "4096 \<le> rest"
  shows "\<exists>bs. pick_block sz vc pc rest = Some bs"
  using assms by (auto simp: pick_block_def and_mask12)

text \<open>The region of \<open>R\<close> bytes from \<open>vc\<close> is free and can be mapped to \<open>pc\<close>.\<close>

definition can_map :: "nat \<Rightarrow> rv64mmu \<Rightarrow> kmem \<Rightarrow> u64 \<Rightarrow> u64 \<Rightarrow> u64 \<Rightarrow> bool" where
  "can_map sz ob k vc pc R \<longleftrightarrow>
     take_bit 12 vc = 0 \<and> take_bit 12 pc = 0 \<and> take_bit 12 R = 0 \<and>
     unat pc + unat R \<le> 2 ^ 56 \<and> sv_top sz * (unat R div 4096) \<le> length (heap k) \<and>
     (\<forall>va. va - vc < R \<longrightarrow> sv_canonical sz va \<and> mmu_lookup sz ob k va = None)"

text \<open>What mapping that region promises.\<close>

definition maps_region ::
  "nat \<Rightarrow> rv64mmu \<Rightarrow> kmem \<Rightarrow> kmem \<Rightarrow> u64 \<Rightarrow> u64 \<Rightarrow> u64 \<Rightarrow> u32 \<Rightarrow> int \<Rightarrow> bool" where
  "maps_region sz ob k k' vc pc R prot rc \<longleftrightarrow>
     (\<forall>va. sv_canonical sz va \<longrightarrow> \<not> va - vc < R \<longrightarrow> mmu_lookup sz ob k' va = mmu_lookup sz ob k va) \<and>
     (rc = 0 \<longrightarrow> (\<forall>va. va - vc < R \<longrightarrow> mmu_translate sz ob k' va = Some (pc + (va - vc), prot_flags prot)))"


lemma pages_step:
  assumes "2 ^ bs \<le> R" "12 \<le> bs" "bs \<le> 48"
  shows "n * Suc (unat (R - 2 ^ bs) div 4096) \<le> n * (unat (R :: u64) div 4096)"
proof -
  have "unat (2 ^ bs :: u64) = 2 ^ bs" using assms by (intro unat_pow2) simp
  then have "unat (R - 2 ^ bs) = unat R - 2 ^ bs" "2 ^ bs \<le> unat R"
    using assms(1) by (simp_all add: unat_sub word_le_nat_alt)
  moreover have "(2::nat) ^ bs = 2 ^ 12 * 2 ^ (bs - 12)" using assms by (simp only: power_add [symmetric]) simp
  ultimately have "unat R = unat (R - 2 ^ bs) + 2 ^ (bs - 12) * 4096" by simp
  then have "unat R div 4096 = 2 ^ (bs - 12) + unat (R - 2 ^ bs) div 4096" by simp
  moreover have "(1::nat) \<le> 2 ^ (bs - 12)" by simp
  ultimately show ?thesis by (intro mult_le_mono2) simp
qed

lemma can_map_step:
  assumes cm: "can_map sz ob k vc pc R" and bs: "2 ^ bs \<le> R" "12 \<le> bs" "bs \<le> 48"
    and lk: "\<And>va. sv_canonical sz va \<Longrightarrow> \<not> va - vc < 2 ^ bs \<Longrightarrow> mmu_lookup sz ob k1 va = mmu_lookup sz ob k va"
    and h: "length (heap k) \<le> length (heap k1) + sv_top sz"
  shows "can_map sz ob k1 (vc + 2 ^ bs) (pc + 2 ^ bs) (R - 2 ^ bs)"
proof -
  let ?B = "2 ^ bs :: u64"
  have uB: "unat ?B = 2 ^ bs" using bs by (intro unat_pow2) simp
  have uR: "unat (R - ?B) = unat R - 2 ^ bs" "2 ^ bs \<le> unat R"
    using bs(1) uB by (simp_all add: unat_sub word_le_nat_alt)
  have pc: "unat pc + unat R \<le> 2 ^ 56" using cm by (simp add: can_map_def)
  then have upc: "unat (pc + ?B) = unat pc + 2 ^ bs"
    using uR uB by (simp add: unat_word_ariths)
  have heap: "sv_top sz * (unat (R - ?B) div 4096) \<le> length (heap k1)"
    using cm h pages_step [OF bs, of "sv_top sz"] by (simp add: can_map_def)
  have in_range: "va - vc < R \<and> \<not> va - vc < ?B" if "va - (vc + ?B) < R - ?B" for va
    using range_split [OF bs(1), of "va - vc"] range_disjoint [OF bs(1), of "va - vc"] that
    by (simp add: diff_diff_eq)
  have "\<forall>va. va - (vc + ?B) < R - ?B \<longrightarrow> sv_canonical sz va \<and> mmu_lookup sz ob k1 va = None"
    using in_range lk cm by (metis can_map_def)
  with heap show ?thesis
    using cm upc uR pc bs aligned12_pow2 [OF bs(2)]
    by (auto simp: can_map_def intro!: aligned12_add aligned12_diff)
qed

lemma maps_region_step:
  assumes B: "2 ^ bs \<le> R" and r1: "maps_region sz ob k k1 vc pc (2 ^ bs) prot 0"
    and r2: "maps_region sz ob k1 k2 (vc + 2 ^ bs) (pc + 2 ^ bs) (R - 2 ^ bs) prot rc"
    and c: "\<And>va. va - vc < R \<Longrightarrow> sv_canonical sz va"
  shows "maps_region sz ob k k2 vc pc R prot rc"
proof -
  let ?B = "2 ^ bs :: u64"
  have d: "va - (vc + ?B) = va - vc - ?B" for va by (simp add: diff_diff_eq)
  note split = range_split [OF B]
  have out: "mmu_lookup sz ob k2 va = mmu_lookup sz ob k va"
    if "sv_canonical sz va" "\<not> va - vc < R" for va
    using that r1 r2 split [of "va - vc"] by (simp add: maps_region_def d)
  have inn: "mmu_translate sz ob k2 va = Some (pc + (va - vc), prot_flags prot)"
    if rc: "rc = 0" and va: "va - vc < R" for va
  proof (cases "va - vc - ?B < R - ?B")
    case True
    with r2 rc show ?thesis by (simp add: maps_region_def d)
  next
    case False
    then have in1: "va - vc < ?B" using split va by blast
    have "mmu_lookup sz ob k2 va = mmu_lookup sz ob k1 va"
      using r2 False c [OF va] by (simp add: maps_region_def d)
    then have "mmu_translate sz ob k2 va = mmu_translate sz ob k1 va"
      by (simp add: mmu_translate_def mmu_lookup_def sv_translate_def)
    with r1 in1 show ?thesis by (simp add: maps_region_def)
  qed
  show ?thesis using out inn by (simp add: maps_region_def)
qed

lemma le_minus_step:
  fixes B vc e :: u64
  assumes "B \<le> e - vc" "vc \<le> e"
  shows "vc + B \<le> e"
proof -
  have "unat B + unat vc \<le> unat e" using assms by (simp add: word_le_nat_alt unat_sub)
  moreover have "unat e < 2 ^ 64" by (rule order_less_le_trans [OF unsigned_less]) simp
  ultimately show ?thesis by (simp add: word_le_nat_alt unat_word_ariths)
qed

lemma map_block_region:
  assumes inv: "mmu_inv sz ob k" and prot: "prot_ok prot" and cm: "can_map sz ob k vc pc R" and R: "R \<noteq> 0"
    and pick: "pick_block sz vc pc R = Some bs"
  shows "\<exists>rc k1. map_block sz bs ob vc pc prot k = Some (rc, k1) \<and> mmu_inv sz ob k1 \<and> same_env k k1 \<and>
    length (heap k) \<le> length (heap k1) + sv_top sz \<and>
    (rc = 0 \<and> maps_region sz ob k k1 vc pc (2 ^ bs) prot 0 \<and>
       (\<exists>L e. L \<le> sv_top sz \<and> sv_shift sz L = bs \<and> mmu_lookup sz ob k1 vc = Some (L, e))
     \<or> rc = K_EALREADY \<and> 12 < bs \<and> same_leaves sz ob k k1)"
proof -
  have sv: "sv_mode sz" using inv by (simp add: mmu_inv_def)
  obtain L where L: "L \<le> sv_top sz" "calcLevel sz bs = int L" and bs: "sv_shift sz L = bs"
    using calcLevel_block [OF sv pick] by blast
  have al: "take_bit bs vc = 0" "take_bit bs pc = 0" and B: "2 ^ bs \<le> R"
    using pick_block_cases [OF pick] by auto
  have R0: "0 < R" using R by (simp add: word_neq_0_conv)
  have vc: "sv_canonical sz vc" "mmu_lookup sz ob k vc = None" using cm R0 by (simp_all add: can_map_def)
  have "1 \<le> unat R div 4096"
    using cm aligned12_ge [OF _ R] by (simp add: can_map_def word_le_nat_alt)
  then have "sv_top sz \<le> sv_top sz * (unat R div 4096)" by simp
  then have h: "L \<le> length (heap k)" using cm L(1) unfolding can_map_def by linarith
  have "unat pc < 2 ^ 56" using cm R0 by (simp add: can_map_def word_less_nat_alt)
  then have pc: "take_bit 56 pc = pc" by (simp add: word_unat_eq_iff unat_take_bit_word)
  obtain rc k1 where m: "map_block sz bs ob vc pc prot k = Some (rc, k1)" "mmu_inv sz ob k1" "same_env k k1"
      "length (heap k) \<le> length (heap k1) + L"
    and r: "rc = 0 \<and> (\<exists>e. mapped_at sz ob k k1 (sv_vpn sz vc) L (leaf_pte (mmu_variant ob) pc prot e))
      \<or> rc = K_EALREADY \<and> L < sv_top sz \<and> same_leaves sz ob k k1"
    using map_block_spec [OF inv L h prot] vc(2) unfolding mmu_lookup_None by metis
  have "maps_region sz ob k k1 vc pc (2 ^ bs) prot 0 \<and> (\<exists>e. mmu_lookup sz ob k1 vc = Some (L, e))"
    if ma: "mapped_at sz ob k k1 (sv_vpn sz vc) L (leaf_pte (mmu_variant ob) pc prot e)" for e
  proof -
    have lk: "mmu_lookup sz ob k1 va =
        (if va - vc < 2 ^ bs then Some (L, leaf_pte (mmu_variant ob) pc prot e) else mmu_lookup sz ob k va)"
      if "sv_canonical sz va" for va
      using mapped_block_lookup [OF ma L(1) leaf_pte_leaf [OF prot] sv vc(1) that] al bs by simp
    have "mmu_translate sz ob k1 va = Some (pc + (va - vc), prot_flags prot)" if va: "va - vc < 2 ^ bs" for va
    proof -
      have "va - vc < R" using va B by (rule order_less_le_trans)
      then have c: "sv_canonical sz va" using cm by (simp add: can_map_def)
      show ?thesis
        by (rule leaf_translate [OF _ c L(1) sv]) (use lk [OF c] va al bs pc in simp_all)
    qed
    moreover have "vc - vc < 2 ^ bs" using block_pos [of bs] pick_block_cases [OF pick]
      by (auto simp: word_neq_0_conv)
    ultimately show ?thesis using lk vc(1) by (simp add: maps_region_def)
  qed
  moreover have "12 < bs" if "L < sv_top sz" using that bs by (auto simp: sv_shift_def)
  ultimately show ?thesis using m r L(1) bs by (intro exI [of _ rc] exI [of _ k1]) auto
qed

lemma map_loop_spec:
  assumes "mmu_inv sz ob k" "prot_ok prot" "can_map sz ob k vc pc (vaddr + len - vc)" "vc \<le> vaddr + len"
  shows "\<exists>rc k'. map_loop sz ob vaddr len prot vc pc 0 k = Some (rc, k') \<and> (rc = 0 \<or> rc = K_EALREADY) \<and>
    mmu_inv sz ob k' \<and> same_env k k' \<and> maps_region sz ob k k' vc pc (vaddr + len - vc) prot rc \<and>
    length (heap k) \<le> length (heap k') + sv_top sz * (unat (vaddr + len - vc) div 4096)"
  using assms
proof (induction "unat (vaddr + len - vc)" arbitrary: vc pc k rule: less_induct)
  case less
  let ?R = "vaddr + len - vc"
  note inv = less.prems(1) and prot = less.prems(2) and cm = less.prems(3)
  show ?case
  proof (cases "vc < vaddr + len")
    case False
    then have "?R = 0" using less.prems(4) by simp
    then show ?thesis using False inv
      by (intro exI [of _ 0] exI [of _ k]) (simp add: map_loop.simps same_env_def maps_region_def)
  next
    case True
    then have R: "?R \<noteq> 0" by auto
    have rest: "len - (vc - vaddr) = ?R" by simp
    obtain bs where pick: "pick_block sz vc pc ?R = Some bs"
      using pick_block_exists cm aligned12_ge [OF _ R] by (metis can_map_def)
    have bs: "12 \<le> bs" "bs \<le> 48" "2 ^ bs \<le> ?R" using pick_block_cases [OF pick] by auto
    obtain rc k1 where m: "map_block sz bs ob vc pc prot k = Some (rc, k1)" "mmu_inv sz ob k1" "same_env k k1"
        "length (heap k) \<le> length (heap k1) + sv_top sz"
      and r: "rc = 0 \<and> maps_region sz ob k k1 vc pc (2 ^ bs) prot 0 \<or> rc = K_EALREADY \<and> same_leaves sz ob k k1"
      using map_block_region [OF inv prot cm R pick] by blast
    have cost: "sv_top sz * Suc (unat (?R - 2 ^ bs) div 4096) \<le> sv_top sz * (unat ?R div 4096)"
      by (rule pages_step [OF bs(3,1,2)])
    have step: "map_loop sz ob vaddr len prot vc pc 0 k =
        map_loop sz ob vaddr len prot (vc + 2 ^ bs) (pc + 2 ^ bs) rc k1"
      using True pick [folded rest] m(1) by (subst map_loop.simps) simp
    show ?thesis
    proof (cases "rc = 0")
      case False
      then have "rc = K_EALREADY" "same_leaves sz ob k k1" using r by auto
      moreover from this have "map_loop sz ob vaddr len prot vc pc 0 k = Some (rc, k1)"
        using step False by (simp add: map_loop.simps)
      ultimately show ?thesis using m False cost
        by (intro exI [of _ rc] exI [of _ k1]) (simp add: maps_region_def same_leaves_lookup)
    next
      case True
      then have r1: "maps_region sz ob k k1 vc pc (2 ^ bs) prot 0" using r by (auto simp: K_EALREADY_def)
      have R': "vaddr + len - (vc + 2 ^ bs) = ?R - 2 ^ bs" by simp
      have cm1: "can_map sz ob k1 (vc + 2 ^ bs) (pc + 2 ^ bs) (?R - 2 ^ bs)"
        using can_map_step [OF cm bs(3,1,2) _ m(4)] r1 by (simp add: maps_region_def)
      have d: "unat (vaddr + len - (vc + 2 ^ bs)) < unat ?R"
        by (rule pick_block_decreases [of sz _ pc]) (simp add: pick rest)
      have le: "vc + 2 ^ bs \<le> vaddr + len" using bs(3) less.prems(4) by (rule le_minus_step)
      obtain rc' k' where l: "map_loop sz ob vaddr len prot (vc + 2 ^ bs) (pc + 2 ^ bs) 0 k1 = Some (rc', k')"
          "rc' = 0 \<or> rc' = K_EALREADY" "mmu_inv sz ob k'" "same_env k1 k'"
        and r2: "maps_region sz ob k1 k' (vc + 2 ^ bs) (pc + 2 ^ bs) (?R - 2 ^ bs) prot rc'"
        and h2: "length (heap k1) \<le> length (heap k') + sv_top sz * (unat (?R - 2 ^ bs) div 4096)"
        using less.hyps [OF d m(2) prot _ le] cm1 unfolding R' by blast
      have "maps_region sz ob k k' vc pc ?R prot rc'"
        using maps_region_step [OF bs(3) r1 r2] cm by (simp add: can_map_def)
      moreover have "length (heap k) \<le> length (heap k') + sv_top sz * (unat ?R div 4096)"
        using m(4) h2 cost by simp
      ultimately show ?thesis using l step True same_env_trans [OF m(3) l(4)] by auto
    qed
  qed
qed

section \<open>The whole call\<close>

lemma mmu_map_loop:
  assumes "prot_ok prot" "can_map sz ob k vaddr paddr len" "vaddr \<le> vaddr + len" "len \<noteq> 0"
  shows "mmu_map sz ob vaddr paddr len prot k = map_loop sz ob vaddr len prot vaddr paddr 0 k"
proof -
  have a: "vaddr AND 0xFFF = 0" "paddr AND 0xFFF = 0" "len AND 0xFFF = 0"
    using assms(2) by (simp_all add: can_map_def aligned12_iff aligned12_unat)
  have "unat paddr + unat len \<le> 2 ^ 56" using assms(2) by (simp add: can_map_def)
  then have "paddr \<le> paddr + len" by (simp add: word_le_nat_alt unat_word_ariths)
  moreover have "(PROT_R OR PROT_W OR PROT_X) = (7 :: u32)" by (simp add: PROT_R_def PROT_W_def PROT_X_def)
  ultimately show ?thesis
    using assms(1,3,4) a by (simp add: mmu_map_def Let_def prot_ok_def leD)
qed

lemma mmu_map_region:
  assumes inv: "mmu_inv sz ob k" and prot: "prot_ok prot" and cm: "can_map sz ob k vaddr paddr len"
    and w: "vaddr \<le> vaddr + len"
  shows "\<exists>rc k'. mmu_map sz ob vaddr paddr len prot k = Some (rc, k') \<and> (rc = 0 \<or> rc = K_EALREADY) \<and>
    mmu_inv sz ob k' \<and> same_env k k' \<and> maps_region sz ob k k' vaddr paddr len prot rc \<and>
    length (heap k) \<le> length (heap k') + sv_top sz * (unat len div 4096)"
proof (cases "len = 0")
  case True
  have "vaddr AND 0xFFF = 0" "paddr AND 0xFFF = 0" using cm by (simp_all add: can_map_def aligned12_iff aligned12_unat)
  with True inv show ?thesis
    by (intro exI [of _ 0] exI [of _ k]) (simp add: mmu_map_def same_env_def maps_region_def)
next
  case False
  with map_loop_spec [OF inv prot, of vaddr paddr vaddr len] cm w show ?thesis
    by (simp add: mmu_map_loop [OF prot cm w])
qed

lemma mmu_map_one_page:
  assumes inv: "mmu_inv sz ob k" and prot: "prot_ok prot" and cm: "can_map sz ob k vaddr paddr 4096"
    and w: "vaddr \<le> vaddr + 4096"
  shows "\<exists>k'. mmu_map sz ob vaddr paddr 4096 prot k = Some (0, k') \<and> mmu_inv sz ob k' \<and> same_env k k' \<and>
    maps_region sz ob k k' vaddr paddr 4096 prot 0 \<and> (\<exists>e. mmu_lookup sz ob k' vaddr = Some (sv_top sz, e))"
proof -
  have pick: "pick_block sz vaddr paddr 4096 = Some 12"
    using cm by (simp add: pick_block_def can_map_def aligned12_iff aligned12_unat)
  obtain k1 L e where m: "map_block sz 12 ob vaddr paddr prot k = Some (0, k1)" "mmu_inv sz ob k1" "same_env k k1"
      "maps_region sz ob k k1 vaddr paddr (2 ^ 12) prot 0"
    and lk: "L \<le> sv_top sz" "sv_shift sz L = 12" "mmu_lookup sz ob k1 vaddr = Some (L, e)"
    using map_block_region [OF inv prot cm _ pick] by auto
  have "L = sv_top sz" using lk(1,2) by (simp add: sv_shift_def)
  have lt: "vaddr < vaddr + 4096" using w by (simp add: order.strict_iff_order)
  have "map_loop sz ob vaddr 4096 prot vaddr paddr 0 k = Some (0, k1)"
    using lt pick m(1) by (subst map_loop.simps, simp) (simp add: map_loop.simps)
  with m lk(3) \<open>L = sv_top sz\<close> show ?thesis by (simp add: mmu_map_loop [OF prot cm w])
qed

end
