(* ===== verification/Mmu_Unmap.thy ===== *)
theory Mmu_Unmap
  imports Mmu_Map
begin

text \<open>What \<open>RV64MMU::unmap\<close> does. \<open>_getPTE\<close> follows the physical addresses of the tables
  without adding \<open>K_VADDR_BASE\<close>: while the one-to-one map of the start-up tables is in place a
  mapped block is removed and nothing else, and without it every removal below the root traps.\<close>

section \<open>Walking down with \<open>_getPTE\<close>\<close>

lemma kptr_low: "a < 0x100000000 \<Longrightarrow> kptr True a = Some a"
  by (auto simp: kptr_def kdefs word_le_nat_alt word_less_nat_alt)

lemma rd64_kptr: "kptr (low_map k) p = Some a \<Longrightarrow> rd64 k p = Some (pmem k a)"
  by (simp add: rd64_def)

lemma wr64_kptr: "kptr (low_map k) p = Some a \<Longrightarrow> kptr (low_map k) q = Some a \<Longrightarrow> wr64 k p v = wr64 k q v"
  by (simp add: wr64_def)

lemma getPTE_spec:
  assumes inv: "mmu_inv sz ob k"
  shows "L \<le> sv_top sz \<Longrightarrow> tbl_at (pmem k) (mmu_root ob) (sv_vpn sz va) L = Some b \<Longrightarrow> L = 0 \<or> low_map k \<Longrightarrow>
    \<exists>p. getPTE sz ob L va k = Some p \<and> kptr (low_map k) p = Some (slot b (sv_vpn sz va L))"
proof (induction L arbitrary: b)
  case 0
  have wf: "pt_wf (pmem k) (mmu_root ob) (sv_top sz)" and sv: "sv_mode sz" using inv by (auto simp: mmu_inv_def)
  have b: "b = mmu_root ob" "page_ok b" using 0 tbl_at_page_ok [OF wf _ 0(1,2)] by auto
  have "mmu_ptes ob + 8 * getVPN sz 0 va = K_VADDR_BASE + slot b (sv_vpn sz va 0)"
    using sv b by (simp add: getVPN_sv slot_def mmu_root_def)
  then show ?case using b by (simp add: kptr_window slot_window idx_okD)
next
  case (Suc L)
  have wf: "pt_wf (pmem k) (mmu_root ob) (sv_top sz)" and sv: "sv_mode sz" using inv by (auto simp: mmu_inv_def)
  obtain c where c: "tbl_at (pmem k) (mmu_root ob) (sv_vpn sz va) L = Some c"
    and e: "pte_ptr (pmem k (slot c (sv_vpn sz va L)))" "b = pte_base (pmem k (slot c (sv_vpn sz va L)))"
    using Suc.prems(2) by (auto split: option.splits if_splits simp: Let_def)
  obtain p where p: "getPTE sz ob L va k = Some p" "kptr (low_map k) p = Some (slot c (sv_vpn sz va L))"
    using Suc.IH [OF _ c] Suc.prems by auto
  have bok: "page_ok b" by (rule tbl_at_page_ok [OF wf _ Suc.prems(1,2)]) simp
  then have "pte_paddr (pmem k (slot c (sv_vpn sz va L))) = b"
    using e paddr_eq_base by (simp add: page_ok_def)
  then have "getPTE sz ob (Suc L) va k = Some (slot b (sv_vpn sz va (Suc L)))"
    using p sv Suc.prems(1) by (simp add: rd64_kptr getVPN_sv slot_def)
  moreover have "kptr (low_map k) (slot b (sv_vpn sz va (Suc L))) = Some (slot b (sv_vpn sz va (Suc L)))"
    using Suc.prems(3) kptr_low slot_window [OF bok, of "sv_vpn sz va (Suc L)"] by (simp add: idx_okD)
  ultimately show ?case by simp
qed

section \<open>Removing one block\<close>

lemma clear_slot_ok: "slot_ok inner (clear_pte e)"
  by (simp add: slot_ok_def clear_pte_ppn pte_ptr_def)

lemma unmap_block_spec:
  assumes inv: "mmu_inv sz ob k" and L: "L \<le> sv_top sz" "calcLevel sz bs = int L" "L = 0 \<or> low_map k"
    and vc: "sv_canonical sz vc" "take_bit (sv_shift sz L) vc = 0"
    and lk: "mmu_lookup sz ob k vc = Some (L, e)"
  shows "\<exists>k'. unmap_block sz bs ob vc k = Some (0, k') \<and> mmu_inv sz ob k' \<and> same_env k k' \<and>
    (\<forall>va. sv_canonical sz va \<longrightarrow>
       mmu_lookup sz ob k' va = (if va - vc < 2 ^ sv_shift sz L then None else mmu_lookup sz ob k va))"
proof -
  let ?idx = "sv_vpn sz vc" and ?r = "mmu_root ob" and ?mx = "sv_top sz"
  have sv: "sv_mode sz" using inv by (simp add: mmu_inv_def)
  have "leaf_at (pmem k) ?r ?idx L e" using lk by (simp add: mmu_lookup_def sv_lookup_def sv_walk_iff)
  then obtain b where b: "tbl_at (pmem k) ?r ?idx L = Some b" and e: "pmem k (slot b (?idx L)) = e"
    and leaf: "pte_leaf e" by (auto simp: leaf_at_def)
  have wf: "pt_wf (pmem k) ?r ?mx" using inv by (simp add: mmu_inv_def)
  have bok: "page_ok b" by (rule tbl_at_page_ok [OF wf _ L(1) b]) simp
  obtain p where p: "getPTE sz ob L vc k = Some p" "kptr (low_map k) p = Some (slot b (?idx L))"
    using getPTE_spec [OF inv L(1) b L(3)] by blast
  have w: "wr64 k p v = wr64 k (K_VADDR_BASE + slot b (?idx L)) v" for v
    by (rule wr64_kptr [OF p(2)]) (simp add: kptr_window slot_window bok idx_okD)
  obtain k' where k': "wr64 k (K_VADDR_BASE + slot b (?idx L)) (clear_pte e) = Some k'" "mmu_inv sz ob k'"
      "same_env k k'" and m: "mapped_at sz ob k k' ?idx L (clear_pte e)"
    using store_slot [OF inv _ L(1) b, of "clear_pte e"] e leaf not_leaf_ptr clear_slot_ok
    by (auto simp: pte_ptr_def)
  have v: "pte_v e" using leaf by (simp add: pte_leaf_def)
  have u: "unmap_block sz bs ob vc k = Some (0, k')"
    using L p e v k'(1) by (simp add: unmap_block_def rd64_kptr w)
  have "mmu_lookup sz ob k' va = (if va - vc < 2 ^ sv_shift sz L then None else mmu_lookup sz ob k va)"
    if va: "sv_canonical sz va" for va
  proof (cases "agree (Suc L) ?idx (sv_vpn sz va)")
    case True
    then have "mmu_lookup sz ob k' va = None"
      using m by (simp add: mmu_lookup_None mapped_at_def pte_leaf_def)
    with True show ?thesis
      using agree_block [OF sv L(1) vc(1) va] block_range [OF vc(2)] sv_shift_bounds [OF sv, of L] by auto
  next
    case False
    have n: "\<not> va - vc < 2 ^ sv_shift sz L"
      using False agree_block [OF sv L(1) vc(1) va] block_range [OF vc(2), of va] sv_shift_bounds [OF sv, of L]
      by auto
    have "leaf_at (pmem k') ?r (sv_vpn sz va) l x = leaf_at (pmem k) ?r (sv_vpn sz va) l x" if "l \<le> ?mx" for l x
      using m False that by (simp add: mapped_at_def)
    then have "mmu_lookup sz ob k' va = mmu_lookup sz ob k va"
      unfolding mmu_lookup_def sv_lookup_def by (intro sv_walk_cong) auto
    with n show ?thesis by simp
  qed
  with u k' show ?thesis by blast
qed

section \<open>Without the one-to-one map\<close>

lemma paddr_small: "unat (pte_paddr e) < 2 ^ 38"
proof -
  have "pte_paddr e = take_bit 38 (pte_paddr e)"
    by (rule word_bit_extI) (auto simp: bit_pte_paddr bit_take_bit_iff)
  moreover have "unat (take_bit 38 (pte_paddr e)) < 2 ^ 38" by (simp add: unat_take_bit_word)
  ultimately show ?thesis by simp
qed

lemma low_pointer_traps:
  assumes "i < 512"
  shows "kptr False (pte_paddr e + 8 * i) = None"
proof -
  have "unat i < 512" using assms by (simp add: word_less_nat_alt)
  then have "unat (pte_paddr e + 8 * i) < 2 ^ 38 + 4096"
    using paddr_small [of e] by (simp add: unat_word_ariths)
  then show ?thesis by (auto simp: kptr_def kdefs word_le_nat_alt)
qed

lemma getPTE_low:
  assumes inv: "mmu_inv sz ob k" and nl: "\<not> low_map k"
  shows "Suc L \<le> sv_top sz \<Longrightarrow> getPTE sz ob (Suc L) va k = Some p \<Longrightarrow> rd64 k p = None"
proof (induction L arbitrary: p)
  case (0 p)
  have "sv_mode sz" using inv by (simp add: mmu_inv_def)
  with 0 obtain e where "p = pte_paddr e + 8 * sv_vpn sz va 1"
    by (auto simp: getVPN_sv split: bind_splits)
  then show ?case using nl by (simp add: rd64_def low_pointer_traps idx_okD)
next
  case (Suc L)
  show ?case
    using Suc getPTE.simps(2) [of sz ob "Suc L" va k]
    by (cases "getPTE sz ob (Suc L) va k") (simp_all del: getPTE.simps)
qed

lemma unmap_block_traps:
  assumes "mmu_inv sz ob k" "\<not> low_map k" "0 < L" "L \<le> sv_top sz" "calcLevel sz bs = int L"
  shows "unmap_block sz bs ob va k = None"
proof -
  obtain l where l: "L = Suc l" using assms(3) by (cases L) auto
  have n: "\<not> int L < 0" "nat (int L) = Suc l" using l by simp_all
  show ?thesis
    using assms(4) [unfolded l] getPTE_low [OF assms(1,2), of l va] n(1)
    unfolding unmap_block_def Let_def assms(5) n(2)
    by (cases "getPTE sz ob (Suc l) va k") (auto simp del: getPTE.simps)
qed

section \<open>One page, and a new address space\<close>

lemma calcLevel_page: "sv_mode sz \<Longrightarrow> calcLevel sz 12 = int (sv_top sz)"
  by (auto simp: sv_mode_def calcLevel_def getMaxLevel_def sv_top_def)

lemma mmu_unmap_page:
  assumes "take_bit 12 vaddr = 0" "vaddr \<le> vaddr + 4096"
  shows "mmu_unmap sz ob vaddr 4096 k = unmap_block sz 12 ob vaddr k"
proof -
  have al: "vaddr AND 0xFFF = 0" using assms(1) by (simp add: aligned12_iff aligned12_unat)
  have lt: "vaddr < vaddr + 4096" using assms(2) by (simp add: order.strict_iff_order)
  have pick: "pick_block sz vaddr vaddr 4096 = Some 12" using al by (simp add: pick_block_def)
  have fin: "unmap_loop sz ob vaddr 4096 (vaddr + 4096) rc k' = Some (rc, k')" for rc k'
    by (subst unmap_loop.simps) simp
  have "unmap_loop sz ob vaddr 4096 vaddr 0 k = unmap_block sz 12 ob vaddr k"
    using lt pick by (subst unmap_loop.simps) (cases "unmap_block sz 12 ob vaddr k"; auto simp: fin)
  with al assms(2) show ?thesis by (simp add: mmu_unmap_def leD)
qed

end
