(* ===== verification/Mmu_Props.thy ===== *)
theory Mmu_Props
  imports Mmu_Unmap
begin

text \<open>The properties of the page-table class: what a new object is, what \<open>map\<close> promises on every
  branch, that \<open>unmap\<close> undoes it, and where the walk of \<open>_getPTE\<close> goes wrong.\<close>

section \<open>A new object\<close>

lemma window_root:
  assumes "page_ok p"
  shows "(K_VADDR_BASE + p) AND NOT K_VADDR_BASE = p"
proof (rule word_bit_extI)
  fix i :: nat
  have p: "p < 0x100000000" using assms by (simp add: page_ok_def)
  show "bit ((K_VADDR_BASE + p) AND NOT K_VADDR_BASE) i = bit p i"
    unfolding base_window [OF p] using small_bits [OF p, of i]
    by (cases "i < 32") (auto simp: bit_and_iff bit_or_iff bit_not_iff bit_base)
qed

lemma RV64MMU_new:
  assumes sv: "sv_mode sz" and h: "heap k = (K_VADDR_BASE + p) # ps" and p: "page_ok p"
    and d: "distinct (heap k)" and ps: "\<forall>t\<in>set ps. page_ok (t - K_VADDR_BASE)"
  shows "\<exists>ob k'. RV64MMU g sz asid variant k = Some (ob, k') \<and> mmu_inv sz ob k' \<and> same_env k k' \<and>
    heap k' = ps \<and> (\<forall>va. mmu_lookup sz ob k' va = None) \<and> mmu_root ob = p \<and> mmu_variant ob = variant \<and>
    mmu_satp ob = bf_set 0 44 (drop_bit 12 p) (RV64MMUBase g (mmutype sz) asid)"
proof -
  obtain m' where ms: "memset_page (k\<lparr>heap := ps\<rparr>) (K_VADDR_BASE + p) = Some (k\<lparr>heap := ps, pmem := m'\<rparr>)"
    and z: "\<And>j. j < 512 \<Longrightarrow> m' (slot p j) = 0"
    using memset_window [OF p, of "k\<lparr>heap := ps\<rparr>"] by auto
  let ?ob = "\<lparr>mmu_ptes = K_VADDR_BASE + p, mmu_variant = variant,
    mmu_satp = bf_set 0 44 (drop_bit 12 p) (RV64MMUBase g (mmutype sz) asid)\<rparr>" and ?k = "k\<lparr>heap := ps, pmem := m'\<rparr>"
  have al: "p AND 4095 = 0" using p by (simp add: page_ok_def)
  have t: "tbl_at m' p idx l = (if l = 0 then Some p else None)" if "idx_ok idx" for idx l
    by (rule tbl_at_empty_root) (simp_all add: z that)
  have r: "RV64MMU g sz asid variant k = Some (?ob, ?k)"
    using ms h window_root [OF p] al
    by (simp add: RV64MMU_def alignedMalloc_def setPPN_def addr2page4K_def Let_def)
  have tb: "tables m' p (sv_top sz) = {p}"
    by (auto simp: tables_def t split: if_splits intro: exI [of _ "\<lambda>_. 0"] simp: idx_ok_def)
  have "heap_ok p (sv_top sz) ?k"
    using h d ps by (auto simp: heap_ok_def tb)
  moreover have "pt_wf m' p (sv_top sz)" by (rule pt_wf_empty_root [OF p]) (simp add: z)
  ultimately have inv: "mmu_inv sz ?ob ?k" using sv by (simp add: mmu_inv_def mmu_root_def)
  have lk: "mmu_lookup sz ?ob ?k va = None" for va
    using z by (auto simp: mmu_lookup_None leaf_at_def t mmu_root_def pte_leaf_def idx_okD split: if_splits)
  show ?thesis
    by (rule exI [of _ ?ob], rule exI [of _ ?k]) (use r inv lk in \<open>simp add: mmu_root_def same_env_def\<close>)
qed

text \<open>The example of the witnesses: one root page, twenty free pages behind it and nothing
  mapped.\<close>

definition demo_mem :: kmem where
  "demo_mem = \<lparr>pmem = (\<lambda>_. 0), heap = map (\<lambda>n. K_VADDR_BASE + 0x80000000 + 4096 * word_of_nat n) [1..<20],
     freed = [], low_map = True, csr_satp = 0\<rparr>"

definition demo_mmu :: rv64mmu where
  "demo_mmu = \<lparr>mmu_ptes = K_VADDR_BASE + 0x80000000, mmu_variant = 0, mmu_satp = 0\<rparr>"

lemma demo_root: "mmu_root demo_mmu = 0x80000000"
  by (simp add: mmu_root_def demo_mmu_def)

lemma demo_lookup: "mmu_lookup 39 demo_mmu demo_mem va = None"
proof -
  have "tbl_at (\<lambda>_. 0) r idx l = (if l = 0 then Some r else None)" if "idx_ok idx" for r idx l
    by (rule tbl_at_empty_root) (simp_all add: that)
  then show ?thesis
    by (auto simp: mmu_lookup_None leaf_at_def demo_mem_def pte_leaf_def pte_v_def split: if_splits)
qed

lemma demo_inv: "mmu_inv 39 demo_mmu demo_mem"
proof -
  have ok: "page_ok 0x80000000" by (simp add: page_ok_def)
  have t: "tbl_at (\<lambda>_. 0) r idx l = (if l = 0 then Some r else None)" if "idx_ok idx" for r idx l
    by (rule tbl_at_empty_root) (simp_all add: that)
  have tb: "tables (\<lambda>_. 0) 0x80000000 (sv_top 39) = {0x80000000}"
    by (auto simp: tables_def t split: if_splits intro: exI [of _ "\<lambda>_. 0"] simp: idx_ok_def)
  have "heap_ok 0x80000000 (sv_top 39) demo_mem"
    unfolding heap_ok_def demo_mem_def kmem.simps tb
    by (simp add: upt_conv_Cons page_ok_def)
  moreover have "pt_wf (\<lambda>_. 0) 0x80000000 (sv_top 39)" by (rule pt_wf_empty_root [OF ok]) simp
  ultimately show ?thesis by (simp add: mmu_inv_def sv_mode_def demo_root demo_mem_def)
qed

lemma low_canonical: "unat va < 2 ^ 38 \<Longrightarrow> sv_canonical 39 va"
proof -
  assume "unat va < 2 ^ 38"
  then have "take_bit 38 va = va" by (simp add: word_unat_eq_iff unat_take_bit_word)
  then have "\<not> bit va i" if "38 \<le> i" for i using that by (metis bit_take_bit_iff not_le)
  then have "signed_take_bit 38 va = va"
    by (intro word_bit_extI) (auto simp: bit_signed_take_bit_iff min_def)
  then show ?thesis by (simp add: sv_canonical_def)
qed

lemma demo_can_map: "can_map 39 demo_mmu demo_mem 0x1000 0x80200000 0x3000"
proof -
  have "sv_canonical 39 va" if "va - 0x1000 < 0x3000" for va :: u64
  proof (rule low_canonical)
    have "unat (va - 0x1000) < 0x3000" using that by (simp add: word_less_nat_alt)
    moreover have "unat va = (unat (va - 0x1000) + 0x1000) mod 2 ^ 64"
      using unat_word_ariths(1) [of "va - 0x1000" "0x1000"] by simp
    ultimately show "unat va < 2 ^ 38" by simp
  qed
  moreover have "length (heap demo_mem) = 19" by (simp add: demo_mem_def)
  ultimately show ?thesis by (simp add: can_map_def demo_lookup aligned12_unat sv_top_def)
qed

section \<open>A mapped page is removed again\<close>

lemma mmu_map_unmap_one:
  assumes inv: "mmu_inv sz ob k" and prot: "prot_ok prot" and cm: "can_map sz ob k vaddr paddr 4096"
    and w: "vaddr \<le> vaddr + 4096" and low: "low_map k"
  shows "\<exists>k' k''. mmu_map sz ob vaddr paddr 4096 prot k = Some (0, k') \<and>
    mmu_unmap sz ob vaddr 4096 k' = Some (0, k'') \<and> mmu_inv sz ob k'' \<and>
    (\<forall>va. sv_canonical sz va \<longrightarrow> mmu_lookup sz ob k'' va = mmu_lookup sz ob k va)"
proof -
  let ?L = "sv_top sz"
  have sv: "sv_mode sz" using inv by (simp add: mmu_inv_def)
  have sh: "sv_shift sz ?L = 12" by (simp add: sv_shift_def)
  have vc: "take_bit 12 vaddr = 0" "sv_canonical sz vaddr" using cm by (auto simp: can_map_def)
  obtain k' e where m: "mmu_map sz ob vaddr paddr 4096 prot k = Some (0, k')" "mmu_inv sz ob k'" "same_env k k'"
      "mmu_lookup sz ob k' vaddr = Some (?L, e)"
    and out: "\<And>va. sv_canonical sz va \<Longrightarrow> \<not> va - vaddr < 4096 \<Longrightarrow> mmu_lookup sz ob k' va = mmu_lookup sz ob k va"
    using mmu_map_one_page [OF inv prot cm w] unfolding maps_region_def by blast
  obtain k'' where u: "unmap_block sz 12 ob vaddr k' = Some (0, k'')" "mmu_inv sz ob k''"
    and lk: "\<And>va. sv_canonical sz va \<Longrightarrow>
      mmu_lookup sz ob k'' va = (if va - vaddr < 2 ^ 12 then None else mmu_lookup sz ob k' va)"
    using unmap_block_spec [OF m(2) order_refl calcLevel_page [OF sv] _ vc(2) _ m(4)] vc(1) low m(3)
    by (auto simp: sh same_env_def)
  have "mmu_lookup sz ob k'' va = mmu_lookup sz ob k va" if "sv_canonical sz va" for va
    using lk [OF that] out [OF that] cm by (auto simp: can_map_def)
  with m u show ?thesis using mmu_unmap_page [OF vc(1) w] by auto
qed

section \<open>Properties\<close>



text \<open>C16: Mapping a single free page always succeeds: the answer is 0, the page is translated with
  the requested permissions and every other address as before.\<close>

theorem mmu_map_page_total:
  assumes "mmu_inv sz ob k" "prot_ok prot" "can_map sz ob k vaddr paddr 4096" "vaddr \<le> vaddr + 4096"
  shows "\<exists>k'. mmu_map sz ob vaddr paddr 4096 prot k = Some (0, k') \<and> mmu_inv sz ob k' \<and>
    (\<forall>va. va - vaddr < 4096 \<longrightarrow> mmu_translate sz ob k' va = Some (paddr + (va - vaddr), prot_flags prot)) \<and>
    (\<forall>va. sv_canonical sz va \<longrightarrow> \<not> va - vaddr < 4096 \<longrightarrow> mmu_lookup sz ob k' va = mmu_lookup sz ob k va)"
  using mmu_map_one_page [OF assms] unfolding maps_region_def by blast

lemma can_map_prefix:
  assumes "can_map sz ob k vc pc R" "take_bit 12 R' = 0" "R' \<le> R"
  shows "can_map sz ob k vc pc R'"
proof -
  have u: "unat R' \<le> unat R" using assms(3) by (simp add: word_le_nat_alt)
  then have "sv_top sz * (unat R' div 4096) \<le> sv_top sz * (unat R div 4096)" by (simp add: div_le_mono)
  then have "sv_top sz * (unat R' div 4096) \<le> length (heap k)"
    using assms(1) unfolding can_map_def by linarith
  moreover have "va - vc < R" if "va - vc < R'" for va using that assms(3) by (rule order_less_le_trans)
  ultimately show ?thesis using assms(1,2) u by (simp add: can_map_def)
qed

lemma demo_can_map_page: "can_map 39 demo_mmu demo_mem 0x1000 0x80200000 4096"
  by (rule can_map_prefix [OF demo_can_map]) (simp_all add: aligned12_unat)

theorem mmu_map_page_total_witness:
  "\<exists>k'. mmu_map 39 demo_mmu 0x1000 0x80200000 4096 PROT_R demo_mem = Some (0, k') \<and>
     mmu_translate 39 demo_mmu k' 0x1008 = Some (0x80200008, prot_flags PROT_R)"
  using mmu_map_page_total [OF demo_inv _ demo_can_map_page, of PROT_R]
  by (auto simp: prot_ok_def PROT_R_def)



text \<open>C19: A new page-table object, and so the object that \<open>fork\<close> returns, owns a zeroed root page:
  it satisfies the invariant, maps nothing, keeps the variant and its \<open>satp\<close> value holds the mode
  of the class, the address-space identifier and the frame of the root page.\<close>

theorem mmu_fork_empty:
  assumes "sv_mode sz" "heap k = (K_VADDR_BASE + p) # ps" "page_ok p"
    "distinct (heap k)" "\<forall>t\<in>set ps. page_ok (t - K_VADDR_BASE)"
  shows "\<exists>ob' k'. mmu_fork g sz ob asid k = Some (ob', k') \<and> mmu_inv sz ob' k' \<and>
    (\<forall>va. mmu_lookup sz ob' k' va = None) \<and> mmu_variant ob' = mmu_variant ob \<and>
    push_bit 12 (bf_get 0 44 (getSATP ob')) = mmu_root ob' \<and>
    bf_get 60 4 (getSATP ob') = mmutype sz \<and> bf_get 44 16 (getSATP ob') = take_bit 16 asid"
proof -
  obtain ob' k' where r: "mmu_fork g sz ob asid k = Some (ob', k')" "mmu_inv sz ob' k'"
      "\<forall>va. mmu_lookup sz ob' k' va = None" "mmu_root ob' = p" "mmu_variant ob' = mmu_variant ob"
    and s: "mmu_satp ob' = bf_set 0 44 (drop_bit 12 p) (RV64MMUBase g (mmutype sz) asid)"
    using RV64MMU_new [OF assms, of g asid "mmu_variant ob"] unfolding mmu_fork_def by blast
  have u: "unat p < 0x100000000" "unat p mod 4096 = 0"
    using assms(3) by (auto simp: page_ok_def aligned12_iff word_less_nat_alt)
  then have "unat (drop_bit 12 p) < 2 ^ 44" by (simp add: unat_drop_bit_word)
  then have t: "take_bit 44 (drop_bit 12 p) = drop_bit 12 p" by (simp add: word_unat_eq_iff unat_take_bit_word)
  have "take_bit 12 p = 0" using u by (simp add: aligned12_unat)
  then have "push_bit 12 (drop_bit 12 p) = p" using bits_ident [of 12 p] by simp
  moreover have "take_bit 4 (mmutype sz) = mmutype sz"
    using assms(1) by (auto simp: sv_mode_def mmutype_def word_unat_eq_iff unat_take_bit_word)
  ultimately show ?thesis
    using r s t by (simp add: getSATP_def bf_get_set_same bf_get_set_other RV64MMUBase_def)
qed

theorem mmu_fork_empty_witness:
  "\<exists>ob' k'. mmu_fork 0 39 demo_mmu 7 demo_mem = Some (ob', k') \<and> mmu_inv 39 ob' k' \<and>
     bf_get 44 16 (getSATP ob') = 7"
proof -
  have h: "heap demo_mem = (K_VADDR_BASE + 0x80001000) # tl (heap demo_mem)"
    by (simp add: demo_mem_def upt_conv_Cons)
  have "heap_ok 0x80000000 2 demo_mem" using demo_inv by (simp add: mmu_inv_def demo_root sv_top_def)
  then have d: "distinct (heap demo_mem)" "\<forall>t\<in>set (tl (heap demo_mem)). page_ok (t - K_VADDR_BASE)"
    by (simp_all add: heap_ok_def demo_mem_def upt_conv_Cons)
  have "sv_mode 39" "page_ok 0x80001000" "take_bit 16 7 = (7 :: u64)" by (simp_all add: sv_mode_def page_ok_def)
  then show ?thesis using mmu_fork_empty [OF _ h _ d, of 39 0 demo_mmu 7] by auto
qed

text \<open>C17: While the one-to-one map of the start-up tables is in place, unmapping a page that was
  just mapped succeeds and gives back the translation that was there before.\<close>

theorem mmu_map_unmap_page:
  assumes "mmu_inv sz ob k" "prot_ok prot" "can_map sz ob k vaddr paddr 4096" "vaddr \<le> vaddr + 4096" "low_map k"
  shows "\<exists>k' k''. mmu_map sz ob vaddr paddr 4096 prot k = Some (0, k') \<and>
    mmu_unmap sz ob vaddr 4096 k' = Some (0, k'') \<and> mmu_inv sz ob k'' \<and>
    (\<forall>va. sv_canonical sz va \<longrightarrow> mmu_lookup sz ob k'' va = mmu_lookup sz ob k va)"
  using mmu_map_unmap_one [OF assms] by blast

theorem mmu_map_unmap_page_witness:
  "\<exists>k' k''. mmu_map 39 demo_mmu 0x1000 0x80200000 4096 PROT_R demo_mem = Some (0, k') \<and>
     mmu_unmap 39 demo_mmu 0x1000 4096 k' = Some (0, k'') \<and> mmu_lookup 39 demo_mmu k'' 0x1000 = None"
proof -
  have "prot_ok PROT_R" "low_map demo_mem" by (simp_all add: prot_ok_def PROT_R_def demo_mem_def)
  moreover have "sv_canonical 39 0x1000" by (rule low_canonical) simp
  ultimately show ?thesis
    using mmu_map_unmap_page [OF demo_inv _ demo_can_map_page, of PROT_R] by (auto simp: demo_lookup)
qed

text \<open>C21: Once the kernel runs on tables without the one-to-one map, unmapping a page always traps:
  \<open>_getPTE\<close> reads the next table through its physical address.\<close>

theorem mmu_unmap_page_traps:
  assumes "mmu_inv sz ob k" "\<not> low_map k" "take_bit 12 vaddr = 0" "vaddr \<le> vaddr + 4096"
  shows "mmu_unmap sz ob vaddr 4096 k = None"
proof -
  have sv: "sv_mode sz" using assms(1) by (simp add: mmu_inv_def)
  then have "0 < sv_top sz" by (auto simp: sv_mode_def sv_top_def)
  then show ?thesis
    using unmap_block_traps [OF assms(1,2) _ order_refl calcLevel_page [OF sv]] assms(3,4)
    by (simp add: mmu_unmap_page)
qed

lemma demo_inv_low: "mmu_inv 39 demo_mmu (demo_mem\<lparr>low_map := False\<rparr>)"
  using demo_inv by (simp add: mmu_inv_def heap_ok_def)

theorem mmu_unmap_page_traps_witness: "mmu_unmap 39 demo_mmu 0x1000 4096 (demo_mem\<lparr>low_map := False\<rparr>) = None"
  by (rule mmu_unmap_page_traps [OF demo_inv_low]) (simp_all add: aligned12_unat)

end
