(* ===== verification/Vmmgr.thy ===== *)
theory Vmmgr
  imports Mmu_Props
begin

text \<open>Model of \<^verbatim>\<open>kernel/inc/k_vmmgr.hpp\<close>: the list of pending mappings of an address space. The
  manager calls its page table only through the interface \<open>MMUBase\<close>; the two operations are
  arguments of the definitions, the locale \<open>mmu_if\<close> is what the manager may rely on, and it is
  interpreted on the three instances of \<open>RV64MMU\<close>.\<close>

section \<open>State and operations\<close>

datatype pending_t = NONE | MAP | UNMAP

record map_t =
  m_vaddr :: u64
  m_paddr :: u64
  m_size :: u64
  m_prot :: u32
  pending :: pending_t

text \<open>\<open>_maps\<close> of one manager and the static \<open>_global_maps\<close> shared by all of them.\<close>

record vmmgr =
  vm_maps :: "map_t list"
  global_maps :: "map_t list"

type_synonym 'm map_op = "u64 \<Rightarrow> u64 \<Rightarrow> u64 \<Rightarrow> u32 \<Rightarrow> 'm \<Rightarrow> (int \<times> 'm) option"
type_synonym 'm unmap_op = "u64 \<Rightarrow> u64 \<Rightarrow> 'm \<Rightarrow> (int \<times> 'm) option"

definition VMemoryMgr :: "map_t list \<Rightarrow> vmmgr" where
  "VMemoryMgr gm = \<lparr>vm_maps = gm, global_maps = gm\<rparr>"

definition addMap :: "u64 \<Rightarrow> u64 \<Rightarrow> u64 \<Rightarrow> u32 \<Rightarrow> vmmgr \<Rightarrow> vmmgr" where
  "addMap va pa n p s =
     (let e = \<lparr>m_vaddr = va, m_paddr = pa, m_size = n, m_prot = p, pending = MAP\<rparr>;
          s1 = (if p AND PROT_G \<noteq> 0 then s\<lparr>global_maps := global_maps s @ [e]\<rparr> else s) in
      s1\<lparr>vm_maps := vm_maps s1 @ [e]\<rparr>)"

fun mark_unmap :: "u64 \<Rightarrow> u64 \<Rightarrow> map_t list \<Rightarrow> map_t list" where
  "mark_unmap va n [] = []"
| "mark_unmap va n (e # es) =
     (if m_vaddr e = va \<and> m_size e = n then e\<lparr>pending := UNMAP\<rparr> # es else e # mark_unmap va n es)"

definition removeMap :: "u64 \<Rightarrow> u64 \<Rightarrow> u32 \<Rightarrow> vmmgr \<Rightarrow> vmmgr" where
  "removeMap va n p s =
     (if p AND PROT_G \<noteq> 0 then s\<lparr>global_maps := mark_unmap va n (global_maps s)\<rparr>
      else s\<lparr>vm_maps := mark_unmap va n (vm_maps s)\<rparr>)"

fun confirm_loop ::
  "'m map_op \<Rightarrow> 'm unmap_op \<Rightarrow> map_t list \<Rightarrow> int \<Rightarrow> 'm \<Rightarrow> (int \<times> map_t list \<times> 'm) option" where
  "confirm_loop mp um [] rc m = Some (rc, [], m)"
| "confirm_loop mp um (e # es) rc m =
     (case pending e of
        NONE \<Rightarrow> do {
          (rc', es', m') \<leftarrow> confirm_loop mp um es rc m;
          Some (rc', e # es', m')
        }
      | _ \<Rightarrow> do {
          (rc1, m1) \<leftarrow> (if pending e = MAP then mp (m_vaddr e) (m_paddr e) (m_size e) (m_prot e) m
                        else um (m_vaddr e) (m_size e) m);
          if rc1 < 0 then Some (rc1, e # es, m1)
          else do {
            (rc', es', m') \<leftarrow> confirm_loop mp um es rc1 m1;
            Some (rc', e\<lparr>pending := NONE\<rparr> # es', m')
          }
        })"

definition confirm :: "'m map_op \<Rightarrow> 'm unmap_op \<Rightarrow> vmmgr \<Rightarrow> 'm \<Rightarrow> (int \<times> vmmgr \<times> 'm) option" where
  "confirm mp um s m = do {
     (rc, ms, m') \<leftarrow> confirm_loop mp um (vm_maps s) 0 m;
     Some (rc, s\<lparr>vm_maps := ms\<rparr>, m')
   }"

section \<open>The interface of a page table\<close>

text \<open>\<open>in_region e va\<close>: the address lies in the region of the entry. \<open>wants mp\<close>: the entry may be
  mapped, as far as its own fields go.\<close>

definition in_region :: "map_t \<Rightarrow> u64 \<Rightarrow> bool" where
  "in_region e va \<longleftrightarrow> va - m_vaddr e < m_size e"

definition well_placed :: "(u64 \<Rightarrow> bool) \<Rightarrow> map_t \<Rightarrow> bool" where
  "well_placed canon e \<longleftrightarrow> take_bit 12 (m_vaddr e) = 0 \<and> take_bit 12 (m_paddr e) = 0 \<and> take_bit 12 (m_size e) = 0 \<and>
     unat (m_paddr e) + unat (m_size e) \<le> 2 ^ 56 \<and> m_vaddr e \<le> m_vaddr e + m_size e \<and> prot_ok (m_prot e) \<and>
     (\<forall>va. in_region e va \<longrightarrow> canon va)"

definition pages :: "map_t \<Rightarrow> nat" where
  "pages e = unat (m_size e) div 4096"

locale mmu_if =
  fixes mp :: "'m map_op" and inv :: "'m \<Rightarrow> bool" and free_pages :: "'m \<Rightarrow> nat" and per_page :: nat
    and canon :: "u64 \<Rightarrow> bool" and mapped :: "'m \<Rightarrow> u64 \<Rightarrow> bool" and tr :: "'m \<Rightarrow> u64 \<Rightarrow> (u64 \<times> u64) option"
  assumes map_law: "\<And>m e. inv m \<Longrightarrow> well_placed canon e \<Longrightarrow> per_page * pages e \<le> free_pages m \<Longrightarrow>
      (\<And>va. in_region e va \<Longrightarrow> \<not> mapped m va) \<Longrightarrow>
      \<exists>rc m'. mp (m_vaddr e) (m_paddr e) (m_size e) (m_prot e) m = Some (rc, m') \<and> rc \<le> 0 \<and> inv m' \<and>
        free_pages m \<le> free_pages m' + per_page * pages e \<and>
        (\<forall>va. canon va \<longrightarrow> \<not> in_region e va \<longrightarrow> mapped m' va = mapped m va \<and> tr m' va = tr m va) \<and>
        (rc = 0 \<longrightarrow> (\<forall>va. in_region e va \<longrightarrow> tr m' va = Some (m_paddr e + (va - m_vaddr e), prot_flags (m_prot e))))"
begin

text \<open>The entries still to be mapped are well placed, free and do not overlap; the entries already
  confirmed stay as they are.\<close>

definition ready :: "map_t list \<Rightarrow> 'm \<Rightarrow> bool" where
  "ready es m \<longleftrightarrow> inv m \<and> per_page * sum_list (map pages es) \<le> free_pages m \<and>
     (\<forall>e\<in>set es. pending e \<noteq> UNMAP \<and> well_placed canon e \<and>
        (pending e = MAP \<longrightarrow> (\<forall>va. in_region e va \<longrightarrow> \<not> mapped m va))) \<and>
     sorted_wrt (\<lambda>e e'. \<forall>va. \<not> (in_region e va \<and> in_region e' va)) es"

lemma ready_step:
  assumes r: "ready (e # es) m" and p: "pending e = MAP"
  shows "\<exists>rc m'. mp (m_vaddr e) (m_paddr e) (m_size e) (m_prot e) m = Some (rc, m') \<and> rc \<le> 0 \<and> ready es m' \<and> inv m' \<and>
    (\<forall>va. canon va \<longrightarrow> \<not> in_region e va \<longrightarrow> tr m' va = tr m va) \<and>
    (rc = 0 \<longrightarrow> (\<forall>va. in_region e va \<longrightarrow> tr m' va = Some (m_paddr e + (va - m_vaddr e), prot_flags (m_prot e))))"
proof -
  have a: "inv m" "well_placed canon e" "per_page * pages e + per_page * sum_list (map pages es) \<le> free_pages m"
    "\<And>va. in_region e va \<Longrightarrow> \<not> mapped m va"
    using r p by (auto simp: ready_def algebra_simps)
  obtain rc m' where m: "mp (m_vaddr e) (m_paddr e) (m_size e) (m_prot e) m = Some (rc, m')" "rc \<le> 0" "inv m'"
      "free_pages m \<le> free_pages m' + per_page * pages e"
      "\<forall>va. canon va \<longrightarrow> \<not> in_region e va \<longrightarrow> mapped m' va = mapped m va \<and> tr m' va = tr m va"
      "rc = 0 \<longrightarrow> (\<forall>va. in_region e va \<longrightarrow> tr m' va = Some (m_paddr e + (va - m_vaddr e), prot_flags (m_prot e)))"
    using map_law [OF a(1,2) _ a(4)] a(3) by fastforce
  have "\<not> mapped m' va" if e': "e' \<in> set es" "pending e' = MAP" "in_region e' va" for e' va
  proof -
    have "canon va" "\<not> in_region e va" "\<not> mapped m va" using r e' by (auto simp: ready_def well_placed_def)
    with m(5) show ?thesis by blast
  qed
  then have "ready es m'" using r m(3,4) a(3) by (auto simp: ready_def)
  with m show ?thesis by blast
qed

lemma confirm_ready:
  assumes "ready es m"
  shows "\<exists>rc' es' m'. confirm_loop mp um es 0 m = Some (rc', es', m') \<and> rc' \<le> 0 \<and> inv m' \<and>
    (\<forall>va. canon va \<longrightarrow> (\<forall>e\<in>set es. pending e = MAP \<longrightarrow> \<not> in_region e va) \<longrightarrow> tr m' va = tr m va) \<and>
    (rc' = 0 \<longrightarrow> es' = map (\<lambda>e. e\<lparr>pending := NONE\<rparr>) es \<and>
       (\<forall>e\<in>set es. \<forall>va. pending e = MAP \<longrightarrow> in_region e va \<longrightarrow>
          tr m' va = Some (m_paddr e + (va - m_vaddr e), prot_flags (m_prot e))))"
  using assms
proof (induction es arbitrary: m)
  case Nil
  then show ?case by (simp add: ready_def)
next
  case (Cons e es)
  show ?case
  proof (cases "pending e")
    case NONE
    have "ready es m" using Cons.prems by (auto simp: ready_def algebra_simps)
    from Cons.IH [OF this] NONE show ?thesis by fastforce
  next
    case UNMAP
    then show ?thesis using Cons.prems by (simp add: ready_def)
  next
    case MAP
    obtain rc1 m1 where s: "mp (m_vaddr e) (m_paddr e) (m_size e) (m_prot e) m = Some (rc1, m1)" "rc1 \<le> 0" "ready es m1" "inv m1"
        and out: "\<And>va. canon va \<Longrightarrow> \<not> in_region e va \<Longrightarrow> tr m1 va = tr m va"
        and inn: "\<And>va. rc1 = 0 \<Longrightarrow> in_region e va \<Longrightarrow> tr m1 va = Some (m_paddr e + (va - m_vaddr e), prot_flags (m_prot e))"
      using ready_step [OF Cons.prems MAP] by blast
    show ?thesis
    proof (cases "rc1 = 0")
      case False
      with s MAP out show ?thesis by (intro exI [of _ rc1] exI [of _ "e # es"] exI [of _ m1]) simp
    next
      case True
      obtain rc' es' m' where c: "confirm_loop mp um es 0 m1 = Some (rc', es', m')" "rc' \<le> 0" "inv m'"
          and out': "\<And>va. canon va \<Longrightarrow> (\<And>e'. e' \<in> set es \<Longrightarrow> pending e' = MAP \<Longrightarrow> \<not> in_region e' va) \<Longrightarrow> tr m' va = tr m1 va"
          and inn': "rc' = 0 \<Longrightarrow> es' = map (\<lambda>e. e\<lparr>pending := NONE\<rparr>) es \<and> (\<forall>e\<in>set es. \<forall>va. pending e = MAP \<longrightarrow>
            in_region e va \<longrightarrow> tr m' va = Some (m_paddr e + (va - m_vaddr e), prot_flags (m_prot e)))"
        using Cons.IH [OF s(3)] by (elim exE conjE) blast
      have "tr m' va = Some (m_paddr e + (va - m_vaddr e), prot_flags (m_prot e))" if va: "in_region e va" for va
      proof -
        have "canon va" "\<And>e'. e' \<in> set es \<Longrightarrow> \<not> in_region e' va"
          using Cons.prems va by (auto simp: ready_def well_placed_def)
        then show ?thesis using out' [of va] inn [OF True va] by simp
      qed
      then show ?thesis
        using s c True MAP out out' inn'
        by (intro exI [of _ rc'] exI [of _ "e\<lparr>pending := NONE\<rparr> # es'"] exI [of _ m']) auto
    qed
  qed
qed

end

section \<open>The page-table class implements the interface\<close>

lemma mmu_translate_lookup:
  "mmu_lookup sz ob k' va = mmu_lookup sz ob k va \<Longrightarrow> mmu_translate sz ob k' va = mmu_translate sz ob k va"
  by (simp add: mmu_translate_def mmu_lookup_def sv_translate_def)

definition is_mapped :: "nat \<Rightarrow> rv64mmu \<Rightarrow> kmem \<Rightarrow> u64 \<Rightarrow> bool" where
  "is_mapped sz ob k va = (case mmu_lookup sz ob k va of None \<Rightarrow> False | Some _ \<Rightarrow> True)"

lemma not_is_mapped: "\<not> is_mapped sz ob k va \<longleftrightarrow> mmu_lookup sz ob k va = None"
  by (simp add: is_mapped_def split: option.splits)

interpretation rv: mmu_if "mmu_map sz ob" "mmu_inv sz ob" "\<lambda>k. length (heap k)" "sv_top sz" "sv_canonical sz"
  "is_mapped sz ob" "mmu_translate sz ob" for sz ob
proof
  fix k e
  assume a: "mmu_inv sz ob k" "well_placed (sv_canonical sz) e" "sv_top sz * pages e \<le> length (heap k)"
    "\<And>va. in_region e va \<Longrightarrow> \<not> is_mapped sz ob k va"
  have cm: "can_map sz ob k (m_vaddr e) (m_paddr e) (m_size e)"
    using a by (simp add: can_map_def well_placed_def pages_def in_region_def not_is_mapped)
  have "prot_ok (m_prot e)" "m_vaddr e \<le> m_vaddr e + m_size e" using a(2) by (simp_all add: well_placed_def)
  from mmu_map_region [OF a(1) this(1) cm this(2)]
  obtain rc k' where r: "mmu_map sz ob (m_vaddr e) (m_paddr e) (m_size e) (m_prot e) k = Some (rc, k')"
      "rc = 0 \<or> rc = K_EALREADY" "mmu_inv sz ob k'" "length (heap k) \<le> length (heap k') + sv_top sz * pages e"
      "maps_region sz ob k k' (m_vaddr e) (m_paddr e) (m_size e) (m_prot e) rc"
    unfolding pages_def by blast
  show "\<exists>rc k'. mmu_map sz ob (m_vaddr e) (m_paddr e) (m_size e) (m_prot e) k = Some (rc, k') \<and> rc \<le> 0 \<and> mmu_inv sz ob k' \<and>
     length (heap k) \<le> length (heap k') + sv_top sz * pages e \<and>
     (\<forall>va. sv_canonical sz va \<longrightarrow> \<not> in_region e va \<longrightarrow>
        is_mapped sz ob k' va = is_mapped sz ob k va \<and>
        mmu_translate sz ob k' va = mmu_translate sz ob k va) \<and>
     (rc = 0 \<longrightarrow> (\<forall>va. in_region e va \<longrightarrow>
        mmu_translate sz ob k' va = Some (m_paddr e + (va - m_vaddr e), prot_flags (m_prot e))))"
    using r by (intro exI [of _ rc] exI [of _ k'])
      (auto simp: maps_region_def in_region_def K_EALREADY_def is_mapped_def intro!: mmu_translate_lookup)
qed

section \<open>Properties\<close>

text \<open>The entries a manager can confirm: none is waiting to be unmapped, all are well placed, those
  waiting to be mapped are free, no two overlap and the heap has pages enough.\<close>

definition vm_ready :: "nat \<Rightarrow> rv64mmu \<Rightarrow> map_t list \<Rightarrow> kmem \<Rightarrow> bool" where
  "vm_ready sz ob es k \<longleftrightarrow> mmu_inv sz ob k \<and> sv_top sz * sum_list (map pages es) \<le> length (heap k) \<and>
     (\<forall>e\<in>set es. pending e \<noteq> UNMAP \<and> well_placed (sv_canonical sz) e \<and>
        (pending e = MAP \<longrightarrow> (\<forall>va. in_region e va \<longrightarrow> mmu_lookup sz ob k va = None))) \<and>
     sorted_wrt (\<lambda>e e'. \<forall>va. \<not> (in_region e va \<and> in_region e' va)) es"

lemma rv_ready: "rv.ready sz ob es k \<longleftrightarrow> vm_ready sz ob es k"
  by (simp add: rv.ready_def vm_ready_def not_is_mapped)


definition demo_vm :: vmmgr where
  "demo_vm = addMap 0x1000 0x80200000 0x3000 (PROT_R OR PROT_X) (VMemoryMgr [])"

lemma demo_vm_maps: "vm_maps demo_vm = [\<lparr>m_vaddr = 0x1000, m_paddr = 0x80200000, m_size = 0x3000, m_prot = 5, pending = MAP\<rparr>]"
  by (simp add: demo_vm_def addMap_def VMemoryMgr_def PROT_R_def PROT_X_def PROT_G_def Let_def)

lemma demo_vm_ready: "vm_ready 39 demo_mmu (vm_maps demo_vm) demo_mem"
  using demo_can_map demo_inv
  by (auto simp: vm_ready_def demo_vm_maps can_map_def well_placed_def in_region_def pages_def demo_lookup prot_ok_def)


lemma settled_same: "pending e = NONE \<Longrightarrow> e\<lparr>pending := NONE\<rparr> = e"
  by (cases e) simp

text \<open>\<open>shape es es' rc\<close>: all entries are settled, or those before a failing one.\<close>

definition shape :: "map_t list \<Rightarrow> map_t list \<Rightarrow> int \<Rightarrow> bool" where
  "shape es es' rc \<longleftrightarrow> 0 \<le> rc \<and> es' = map (\<lambda>e. e\<lparr>pending := NONE\<rparr>) es \<or>
    rc < 0 \<and> (\<exists>as e bs. es = as @ e # bs \<and> pending e \<noteq> NONE \<and> es' = map (\<lambda>e. e\<lparr>pending := NONE\<rparr>) as @ e # bs)"

lemma shape_Cons: "shape es es' rc \<Longrightarrow> shape (e # es) (e\<lparr>pending := NONE\<rparr> # es') rc"
  unfolding shape_def by (elim disjE exE conjE; simp) (metis append_Cons list.simps(9))

lemma shape_stop: "rc < 0 \<Longrightarrow> pending e \<noteq> NONE \<Longrightarrow> shape (e # es) (e # es) rc"
  unfolding shape_def by (intro disjI2 conjI exI [of _ "[]"]) auto

lemma confirm_loop_shape:
  "confirm_loop mp um es rc m = Some (rc', es', m') \<Longrightarrow> 0 \<le> rc \<Longrightarrow> shape es es' rc'"
proof (induction es arbitrary: rc m es')
  case Nil
  then show ?case by (simp add: shape_def)
next
  case (Cons e es)
  define r where "r = (if pending e = MAP then mp (m_vaddr e) (m_paddr e) (m_size e) (m_prot e) m
        else um (m_vaddr e) (m_size e) m)"
  show ?case
  proof (cases "pending e = NONE")
    case True
    with Cons.prems obtain es'' where "confirm_loop mp um es rc m = Some (rc', es'', m')" "es' = e # es''"
      by (cases "confirm_loop mp um es rc m") auto
    then show ?thesis using shape_Cons [of es es'' rc' e] Cons.IH Cons.prems(2) settled_same [OF True] by simp
  next
    case False
    then have c: "confirm_loop mp um (e # es) rc m = do {
        (rc1, m1) \<leftarrow> r;
        if rc1 < 0 then Some (rc1, e # es, m1)
        else do { (rc', es', m') \<leftarrow> confirm_loop mp um es rc1 m1; Some (rc', e\<lparr>pending := NONE\<rparr> # es', m') } }"
      by (cases "pending e") (simp_all add: r_def)
    then obtain rc1 m1 where r: "r = Some (rc1, m1)" using Cons.prems(1) by (cases r) auto
    show ?thesis
    proof (cases "rc1 < 0")
      case True
      with c r Cons.prems(1) have "rc' = rc1" "es' = e # es" by auto
      with True False show ?thesis by (simp add: shape_stop)
    next
      case ok: False
      with c r Cons.prems(1) obtain es'' where
        "confirm_loop mp um es rc1 m1 = Some (rc', es'', m')" "es' = e\<lparr>pending := NONE\<rparr> # es''"
        by (cases "confirm_loop mp um es rc1 m1") auto
      then show ?thesis using shape_Cons [of es es'' rc' e] Cons.IH ok by simp
    qed
  qed
qed

lemma confirm_loop_settled:
  "\<forall>e\<in>set es. pending e = NONE \<Longrightarrow> confirm_loop mp um es rc m = Some (rc, es, m)"
  by (induction es) auto





end
