(* ===== verification/Lock.thy ===== *)
theory Lock
  imports Abydos_Prelude
begin

text \<open>Model of \<^verbatim>\<open>kernel/inc/k_lock.h\<close> and of the lock hooks of \<^verbatim>\<open>kernel/main/libc_hooks.cpp\<close>. Every
  access to an atomic variable is one step of the hart that makes it, and the steps of the harts
  interleave freely; a weak compare-and-exchange may fail for no reason. The depth of a hart is
  not in the code: it counts the acquisitions a hart has completed and not yet given back (a release that is not
  recursive gives all of them back). The
  recursion count is an atomic 32 bit integer, so counting up and down wraps.\<close>

section \<open>The lock object\<close>

datatype k_stage_t = K_BEFORE_BOOT | K_BOOT | K_BOOT_PERIP | K_BOOT_HARTS | K_MULTICORE | K_CLEARUP

text \<open>Where a hart is: outside every call, at one of the accesses of \<open>lock\<close> (read the owner, count
  up, compare and exchange, set the count), of \<open>try_acquire\<close> or of \<open>unlock\<close> (read the owner, count
  down, clear the owner).\<close>

datatype lpc = Out | LChk | LInc | LCas | LSet | TryChk | TryCas | UChk bool | UDec | UClr bool

record lstate =
  lk_stage :: k_stage_t
  owner :: int
  recursive_count :: "32 word"
  lk_pc :: "int \<Rightarrow> lpc"
  lk_res :: "int \<Rightarrow> int"
  depth :: "int \<Rightarrow> nat"

definition goto :: "int \<Rightarrow> lpc \<Rightarrow> lstate \<Rightarrow> lstate" where
  "goto h p s = s\<lparr>lk_pc := (lk_pc s)(h := p)\<rparr>"

definition set_depth :: "int \<Rightarrow> nat \<Rightarrow> lstate \<Rightarrow> lstate" where
  "set_depth h d s = s\<lparr>depth := (depth s)(h := d)\<rparr>"

definition return_int :: "int \<Rightarrow> int \<Rightarrow> lstate \<Rightarrow> lstate" where
  "return_int h r s = goto h Out (s\<lparr>lk_res := (lk_res s)(h := r)\<rparr>)"

definition lock :: "bool \<Rightarrow> int \<Rightarrow> lstate \<Rightarrow> lstate" where
  "lock recursive h s =
     (if lk_stage s \<noteq> K_MULTICORE then s
      else if recursive then goto h LChk s else goto h LCas s)"

definition unlock :: "bool \<Rightarrow> int \<Rightarrow> lstate \<Rightarrow> lstate" where
  "unlock recursive h s =
     (if lk_stage s \<noteq> K_MULTICORE then s else goto h (UChk recursive) s)"

definition try_acquire :: "bool \<Rightarrow> int \<Rightarrow> lstate \<Rightarrow> lstate" where
  "try_acquire recursive h s =
     (if lk_stage s \<noteq> K_MULTICORE then return_int h 1 s
      else if recursive then goto h TryChk s else goto h TryCas s)"

text \<open>The next access of hart \<open>h\<close>; \<open>ok\<close> is false when a weak compare-and-exchange fails for no
  reason.\<close>

definition lock_access :: "bool \<Rightarrow> int \<Rightarrow> lstate \<Rightarrow> lstate" where
  "lock_access ok h s =
     (case lk_pc s h of
        Out \<Rightarrow> s
      | LChk \<Rightarrow> if owner s = h then goto h LInc s else goto h LCas s
      | LInc \<Rightarrow> return_int h 1 (set_depth h (Suc (depth s h)) (s\<lparr>recursive_count := recursive_count s + 1\<rparr>))
      | LCas \<Rightarrow> if ok \<and> owner s = -1 then goto h LSet (s\<lparr>owner := h\<rparr>) else s
      | LSet \<Rightarrow> return_int h 1 (set_depth h 1 (s\<lparr>recursive_count := 1\<rparr>))
      | TryChk \<Rightarrow> if owner s = h then goto h LInc s else goto h TryCas s
      | TryCas \<Rightarrow> if ok \<and> owner s = -1 then goto h LSet (s\<lparr>owner := h\<rparr>) else return_int h 0 s
      | UChk recursive \<Rightarrow> if owner s = h then goto h (if recursive then UDec else UClr False) s else goto h Out s
      | UDec \<Rightarrow> (let n = recursive_count s - 1;
                      s1 = set_depth h (depth s h - 1) (s\<lparr>recursive_count := n\<rparr>) in
                  if n = 0 then goto h (UClr True) s1 else goto h Out s1)
      | UClr recursive \<Rightarrow>
          goto h Out (set_depth h (if recursive then depth s h else 0) (s\<lparr>owner := -1\<rparr>)))"

definition lock_init :: "k_stage_t \<Rightarrow> lstate" where
  "lock_init st = \<lparr>lk_stage = st, owner = -1, recursive_count = 0, lk_pc = (\<lambda>_. Out), lk_res = (\<lambda>_. 0), depth = (\<lambda>_. 0)\<rparr>"

text \<open>A hart outside every call may start any of them, with or without the recursive flag; a hart
  inside a call makes its next access; the boot code moves the kernel to another stage.\<close>

inductive lock_step :: "lstate \<Rightarrow> lstate \<Rightarrow> bool" where
  call_lock: "0 \<le> h \<Longrightarrow> lk_pc s h = Out \<Longrightarrow> lock_step s (lock r h s)"
| call_try: "0 \<le> h \<Longrightarrow> lk_pc s h = Out \<Longrightarrow> lock_step s (try_acquire r h s)"
| call_unlock: "0 \<le> h \<Longrightarrow> lk_pc s h = Out \<Longrightarrow> lock_step s (unlock r h s)"
| access: "0 \<le> h \<Longrightarrow> lock_step s (lock_access ok h s)"
| stage: "lock_step s (s\<lparr>lk_stage := st\<rparr>)"

text \<open>The states of the runs in which no hart ever holds more than \<open>n\<close> acquisitions at once. Every
  run is one of them for some \<open>n\<close> (\<open>lock_run_reach\<close>).\<close>

inductive lock_reach :: "nat \<Rightarrow> lstate \<Rightarrow> bool" for n where
  init: "lock_reach n (lock_init st)"
| step: "lock_reach n s \<Longrightarrow> lock_step s s' \<Longrightarrow> \<forall>h. depth s' h \<le> n \<Longrightarrow> lock_reach n s'"

inductive_cases lock_stepE: "lock_step s s'"

section \<open>The invariant\<close>

definition holds :: "lstate \<Rightarrow> int \<Rightarrow> bool" where
  "holds s h \<longleftrightarrow> 0 < depth s h \<or> lk_pc s h \<in> {LSet, UClr True, UClr False}"

definition hart_ok :: "lstate \<Rightarrow> int \<Rightarrow> bool" where
  "hart_ok s h \<longleftrightarrow>
     (holds s h \<longleftrightarrow> 0 \<le> h \<and> owner s = h) \<and>
     (lk_pc s h \<in> {LInc, UDec} \<longrightarrow> 0 < depth s h) \<and>
     (lk_pc s h \<in> {LSet, UClr True} \<longrightarrow> depth s h = 0) \<and>
     (owner s = h \<longrightarrow> lk_pc s h \<noteq> LSet \<longrightarrow> 0 \<le> h \<longrightarrow> recursive_count s = of_nat (depth s h)) \<and>
     (h < 0 \<longrightarrow> lk_pc s h = Out)"

definition lock_inv :: "lstate \<Rightarrow> bool" where
  "lock_inv s \<longleftrightarrow> (\<forall>h. hart_ok s h)"

lemmas lock_defs = lock_def unlock_def try_acquire_def goto_def set_depth_def return_int_def

lemma lock_inv_init: "lock_inv (lock_init st)"
  by (simp add: lock_inv_def hart_ok_def holds_def lock_init_def)

lemma lock_inv_call:
  assumes "lock_inv s" "0 \<le> h" "lk_pc s h = Out"
  shows "lock_inv (lock r h s)" "lock_inv (try_acquire r h s)" "lock_inv (unlock r h s)"
  using assms by (auto simp: lock_inv_def hart_ok_def holds_def lock_defs)

lemma count_down:
  assumes "0 < d" "d \<le> 2 ^ 32"
  shows "(of_nat (d - Suc 0) :: 32 word) = of_nat d - 1" "(of_nat d :: 32 word) = 1 \<longleftrightarrow> d = 1"
proof -
  obtain c where c: "d = Suc c" using assms(1) by (cases d) auto
  have "(of_nat c :: 32 word) = 0 \<longleftrightarrow> c = 0"
    using assms(2) unfolding c word_of_nat_eq_0_iff by (auto dest: dvd_imp_le)
  then show "(of_nat (d - Suc 0) :: 32 word) = of_nat d - 1" "(of_nat d :: 32 word) = 1 \<longleftrightarrow> d = 1"
    unfolding c by simp_all
qed

lemma lock_inv_access:
  assumes inv: "lock_inv s" and h: "0 \<le> h" and d: "depth s h \<le> 2 ^ 32"
  shows "lock_inv (lock_access ok h s)"
  unfolding lock_inv_def
proof
  fix g
  have H: "hart_ok s h" and G: "hart_ok s g" using inv by (auto simp: lock_inv_def)
  show "hart_ok (lock_access ok h s) g"
  proof (cases "g = h")
    case True
    with H h d show ?thesis
      by (cases "lk_pc s h") (auto simp: hart_ok_def holds_def lock_access_def lock_defs Let_def count_down)
  next
    case False
    with H G h d show ?thesis
      by (cases "lk_pc s h") (auto simp: hart_ok_def holds_def lock_access_def lock_defs Let_def count_down)
  qed
qed

lemma lock_inv_step: "lock_inv s \<Longrightarrow> \<forall>h. depth s h \<le> 2 ^ 32 \<Longrightarrow> lock_step s s' \<Longrightarrow> lock_inv s'"
proof (erule lock_stepE)
  fix st assume "lock_inv s" "s' = s\<lparr>lk_stage := st\<rparr>"
  then show "lock_inv s'" by (simp add: lock_inv_def hart_ok_def holds_def)
qed (simp_all add: lock_inv_call lock_inv_access)

lemma lock_reach_depth: "lock_reach n s \<Longrightarrow> depth s h \<le> n"
  by (induction rule: lock_reach.induct) (simp_all add: lock_init_def)

lemma lock_reach_inv: "lock_reach n s \<Longrightarrow> n \<le> 2 ^ 32 \<Longrightarrow> lock_inv s"
proof (induction rule: lock_reach.induct)
  case (step s s')
  have "\<forall>h. depth s h \<le> 2 ^ 32" using lock_reach_depth [OF step.hyps(1)] step.prems le_trans by blast
  then show ?case using step by (blast intro: lock_inv_step)
qed (rule lock_inv_init)

text \<open>A run of any length is covered: one step adds at most one acquisition.\<close>

lemma depth_step: "lock_step s s' \<Longrightarrow> depth s' h \<le> Suc (depth s h)"
proof (erule lock_stepE)
  fix g ok assume "s' = lock_access ok g s"
  then show "depth s' h \<le> Suc (depth s h)"
    by (cases "lk_pc s g") (auto simp: lock_access_def lock_defs Let_def)
qed (auto simp: lock_defs)

lemma lock_reach_mono: "lock_reach n s \<Longrightarrow> n \<le> m \<Longrightarrow> lock_reach m s"
  by (induction rule: lock_reach.induct) (auto intro: lock_reach.intros le_trans)

lemma lock_run_reach: "(lock_step ^^ k) (lock_init st) s \<Longrightarrow> lock_reach k s"
proof (induction k arbitrary: s)
  case (Suc k)
  then obtain s0 where s0: "lock_reach k s0" "lock_step s0 s" by auto
  have "\<forall>h. depth s h \<le> Suc k"
    using depth_step [OF s0(2)] lock_reach_depth [OF s0(1)] by (meson Suc_le_mono le_trans)
  with s0 show ?case by (meson le_SucI lock_reach.step lock_reach_mono order_refl)
qed (auto intro: lock_reach.init)

section \<open>A hart that runs alone\<close>

fun solo :: "nat \<Rightarrow> int \<Rightarrow> lstate \<Rightarrow> lstate" where
  "solo 0 h s = s"
| "solo (Suc n) h s = solo n h (lock_access True h s)"

definition lock_call :: "int \<Rightarrow> lstate \<Rightarrow> lstate" where
  "lock_call h s = solo 3 h (lock True h s)"

definition unlock_call :: "int \<Rightarrow> lstate \<Rightarrow> lstate" where
  "unlock_call h s = solo 3 h (unlock True h s)"

definition held :: "int \<Rightarrow> nat \<Rightarrow> lstate \<Rightarrow> bool" where
  "held h n s \<longleftrightarrow> lk_stage s = K_MULTICORE \<and> lk_pc s h = Out \<and> depth s h = n \<and>
     owner s = (if n = 0 then -1 else h) \<and> (0 < n \<longrightarrow> recursive_count s = of_nat n)"

lemma solo_3: "solo 3 h s = lock_access True h (lock_access True h (lock_access True h s))"
  by (simp add: eval_nat_numeral)

lemmas solo_defs = solo_3 lock_access_def lock_defs Let_def

lemma lock_call_held: "held h n s \<Longrightarrow> 0 \<le> h \<Longrightarrow> held h (Suc n) (lock_call h s)"
  by (cases n) (auto simp: held_def lock_call_def solo_defs)

lemma unlock_call_held:
  assumes "held h (Suc n) s" "0 \<le> h" "n < 2 ^ 32"
  shows "held h n (unlock_call h s)"
proof -
  have "(of_nat n :: 32 word) = 0 \<longleftrightarrow> n = 0" using count_down(2) [of "Suc n"] assms(3) by simp
  then show ?thesis using assms by (auto simp: held_def unlock_call_def solo_defs)
qed

lemma lock_calls_held: "held h n s \<Longrightarrow> 0 \<le> h \<Longrightarrow> held h (n + m) ((lock_call h ^^ m) s)"
  by (induction m) (simp_all add: lock_call_held)

lemma unlock_calls_held:
  "held h (n + m) s \<Longrightarrow> 0 \<le> h \<Longrightarrow> n + m \<le> 2 ^ 32 \<Longrightarrow> held h n ((unlock_call h ^^ m) s)"
  by (induction m arbitrary: n) (auto intro: unlock_call_held)

section \<open>The lock of the allocator\<close>

text \<open>\<open>__malloc_lock\<close> and \<open>__malloc_unlock\<close>. A caller is known by the address of its reentrancy
  structure; it is outside, reads the lock, tries to exchange it or is in the section the lock
  should protect. The loop goes on while the exchange succeeds.\<close>

datatype mpc = MOut | MChk | MCas | MIn

record mstate =
  k_malloc_lock :: u64
  m_pc :: "u64 \<Rightarrow> mpc"

definition m_goto :: "u64 \<Rightarrow> mpc \<Rightarrow> mstate \<Rightarrow> mstate" where
  "m_goto r p s = s\<lparr>m_pc := (m_pc s)(r := p)\<rparr>"

definition malloc_lock :: "k_stage_t \<Rightarrow> u64 \<Rightarrow> mstate \<Rightarrow> mstate" where
  "malloc_lock st r s = (if st \<noteq> K_MULTICORE then m_goto r MIn s else m_goto r MChk s)"

definition malloc_access :: "bool \<Rightarrow> u64 \<Rightarrow> mstate \<Rightarrow> mstate" where
  "malloc_access ok r s =
     (case m_pc s r of
        MChk \<Rightarrow> if k_malloc_lock s = r then m_goto r MIn s else m_goto r MCas s
      | MCas \<Rightarrow> if ok \<and> k_malloc_lock s = 0 then s\<lparr>k_malloc_lock := r\<rparr> else m_goto r MIn s
      | _ \<Rightarrow> s)"

definition malloc_unlock :: "k_stage_t \<Rightarrow> u64 \<Rightarrow> mstate \<Rightarrow> mstate" where
  "malloc_unlock st r s =
     (if st \<noteq> K_MULTICORE then m_goto r MOut s else m_goto r MOut (s\<lparr>k_malloc_lock := 0\<rparr>))"

inductive malloc_reach :: "mstate \<Rightarrow> bool" where
  init: "malloc_reach \<lparr>k_malloc_lock = 0, m_pc = (\<lambda>_. MOut)\<rparr>"
| enter: "malloc_reach s \<Longrightarrow> m_pc s r = MOut \<Longrightarrow> malloc_reach (malloc_lock K_MULTICORE r s)"
| access: "malloc_reach s \<Longrightarrow> malloc_reach (malloc_access ok r s)"
| leave: "malloc_reach s \<Longrightarrow> m_pc s r = MIn \<Longrightarrow> malloc_reach (malloc_unlock K_MULTICORE r s)"

lemmas malloc_defs = malloc_lock_def malloc_access_def malloc_unlock_def m_goto_def

section \<open>Properties\<close>

text \<open>C24: Whatever calls the harts make on a lock and however their accesses interleave, as long as
  no hart takes it more than $2^{32}$ times without giving it back, at most one hart holds it; the
  owner field names that hart and the 32 bit count is the number of its acquisitions modulo
  $2^{32}$.\<close>

theorem lock_mutual_exclusion:
  assumes "lock_reach n s" "n \<le> 2 ^ 32" "0 < depth s g" "0 < depth s h"
  shows "g = h \<and> owner s = h \<and> recursive_count s = of_nat (depth s h)"
proof -
  have "hart_ok s g" "hart_ok s h" using lock_reach_inv [OF assms(1,2)] by (auto simp: lock_inv_def)
  with assms(3,4) show ?thesis by (auto simp: hart_ok_def holds_def)
qed

text \<open>Hart 1 takes the lock, hart 2 tries in vain.\<close>

definition lock_demo :: lstate where
  "lock_demo = lock_access True 2 (try_acquire False 2
     (lock_access True 1 (lock_access True 1 (lock False 1 (lock_init K_MULTICORE)))))"

lemma lock_demo_reach: "lock_reach 1 lock_demo"
  unfolding lock_demo_def
  by (intro lock_reach.step [OF _ lock_step.access] lock_reach.step [OF _ lock_step.call_lock]
      lock_reach.step [OF _ lock_step.call_try] lock_reach.init)
    (simp_all add: lock_init_def lock_access_def lock_defs)

theorem lock_mutual_exclusion_witness:
  "depth lock_demo 1 = 1 \<and> owner lock_demo = 1 \<and> recursive_count lock_demo = 1 \<and> lk_res lock_demo 2 = 0"
proof -
  have d: "depth lock_demo 1 = 1" "lk_res lock_demo 2 = 0"
    by (simp_all add: lock_demo_def lock_init_def lock_access_def lock_defs)
  show ?thesis using lock_mutual_exclusion [OF lock_demo_reach, of 1 1] d by simp
qed

text \<open>Once every hart is outside the calls and has given back what it acquired, the lock is free.\<close>

lemma lock_free_again:
  assumes "lock_reach n s" "n \<le> 2 ^ 32" "\<forall>h. lk_pc s h = Out \<and> depth s h = 0"
  shows "owner s < 0"
  using lock_reach_inv [OF assms(1,2)] assms(3) by (auto simp: lock_inv_def hart_ok_def holds_def not_less)

text \<open>C25: A hart that takes a free lock \<open>n\<close> times recursively, at most $2^{32}$ times, and gives it back
  \<open>m\<close> times finishes every call, still owns the lock with count \<open>n - m\<close> while \<open>m < n\<close>, and has
  freed it when \<open>m = n\<close>.\<close>

theorem lock_recursion_balanced:
  assumes "held h 0 s" "0 \<le> h" "m \<le> n" "n \<le> 2 ^ 32"
  shows "held h (n - m) ((unlock_call h ^^ m) ((lock_call h ^^ n) s))"
proof -
  have "held h (0 + n) ((lock_call h ^^ n) s)" by (rule lock_calls_held [OF assms(1,2)])
  then have "held h ((n - m) + m) ((lock_call h ^^ n) s)" using assms(3) by simp
  then show ?thesis by (rule unlock_calls_held [OF _ assms(2)]) (use assms(3,4) in simp)
qed

theorem lock_recursion_balanced_witness:
  "owner ((unlock_call 2 ^^ 2) ((lock_call 2 ^^ 3) (lock_init K_MULTICORE))) = 2 \<and>
   owner ((unlock_call 2 ^^ 3) ((lock_call 2 ^^ 3) (lock_init K_MULTICORE))) = -1"
  using lock_recursion_balanced [of 2 "lock_init K_MULTICORE" 2 3]
    lock_recursion_balanced [of 2 "lock_init K_MULTICORE" 3 3] by (simp add: held_def lock_init_def)

text \<open>The bound is sharp: one acquisition more and the count, wrapped around to 1, lets the first
  release free the lock while $2^{32}$ acquisitions are outstanding.\<close>

lemma lock_count_wraps:
  assumes "held h 0 s" "0 \<le> h"
  shows "owner (unlock_call h ((lock_call h ^^ (2 ^ 32 + 1)) s)) = -1 \<and>
    depth (unlock_call h ((lock_call h ^^ (2 ^ 32 + 1)) s)) h = 2 ^ 32"
proof -
  define s1 where "s1 = (lock_call h ^^ (2 ^ 32 + 1)) s"
  have "held h (0 + (2 ^ 32 + 1)) s1" unfolding s1_def by (rule lock_calls_held [OF assms])
  then have s1: "lk_stage s1 = K_MULTICORE" "lk_pc s1 h = Out" "depth s1 h = 2 ^ 32 + 1" "owner s1 = h"
    "recursive_count s1 = 1" by (simp_all add: held_def)
  show ?thesis unfolding s1_def [symmetric] using s1 assms(2) by (simp add: unlock_call_def solo_defs)
qed

text \<open>C26: The allocator's lock excludes nobody: of any two callers, the second enters the protected
  section while the first, which owns the lock, is in it.\<close>

theorem malloc_lock_no_exclusion:
  assumes "r \<noteq> 0" "q \<noteq> 0" "r \<noteq> q"
  shows "\<exists>s. malloc_reach s \<and> k_malloc_lock s = r \<and> m_pc s r = MIn \<and> m_pc s q = MIn"
proof -
  let ?i = "\<lparr>k_malloc_lock = 0, m_pc = (\<lambda>_. MOut)\<rparr>"
  let ?enter = "\<lambda>x s. malloc_access True x (malloc_access True x (malloc_lock K_MULTICORE x s))"
  let ?s = "?enter q (malloc_access True r (?enter r ?i))"
  have "malloc_reach (malloc_access True r (?enter r ?i))"
    by (intro malloc_reach.access malloc_reach.enter malloc_reach.init) simp
  moreover have "m_pc (malloc_access True r (?enter r ?i)) q = MOut" using assms by (simp add: malloc_defs)
  ultimately have "malloc_reach ?s"
    by (rule malloc_reach.access [OF malloc_reach.access [OF malloc_reach.enter]])
  moreover have "k_malloc_lock ?s = r \<and> m_pc ?s r = MIn \<and> m_pc ?s q = MIn"
    using assms by (simp add: malloc_defs)
  ultimately show ?thesis by blast
qed

theorem malloc_lock_no_exclusion_witness: "\<exists>s. malloc_reach s \<and> m_pc s 0x1000 = MIn \<and> m_pc s 0x2000 = MIn"
  using malloc_lock_no_exclusion [of "0x1000" "0x2000"] by auto

end
