(* ===== verification/Stdmap.thy ===== *)
theory Stdmap
  imports Abydos_Prelude
begin

text \<open>\<open>std::map\<close> of the C++ library as the components use it: a list of key-value pairs in the order
  of the keys, which is the order an iteration visits. \<open>map_put\<close> is an assignment through
  \<open>operator[]\<close>, \<open>map_insert\<close> is \<open>insert\<close>, which leaves an existing entry alone, and \<open>map_erase\<close> is
  \<open>erase\<close>.\<close>

type_synonym ('k, 'v) stdmap = "('k \<times> 'v) list"

definition map_find :: "('k, 'v) stdmap \<Rightarrow> 'k \<Rightarrow> 'v option" where
  "map_find m k = map_of m k"

fun map_put :: "('k :: linorder) \<Rightarrow> 'v \<Rightarrow> ('k, 'v) stdmap \<Rightarrow> ('k, 'v) stdmap" where
  "map_put k v [] = [(k, v)]"
| "map_put k v ((k', v') # m) =
     (if k < k' then (k, v) # (k', v') # m else if k = k' then (k, v) # m else (k', v') # map_put k v m)"

definition map_insert :: "('k :: linorder) \<Rightarrow> 'v \<Rightarrow> ('k, 'v) stdmap \<Rightarrow> ('k, 'v) stdmap" where
  "map_insert k v m = (case map_find m k of None \<Rightarrow> map_put k v m | Some _ \<Rightarrow> m)"

definition map_erase :: "'k \<Rightarrow> ('k, 'v) stdmap \<Rightarrow> ('k, 'v) stdmap" where
  "map_erase k m = filter (\<lambda>kv. fst kv \<noteq> k) m"

definition smap :: "('k :: linorder, 'v) stdmap \<Rightarrow> bool" where
  "smap m \<longleftrightarrow> sorted_wrt (<) (map fst m)"

lemma smap_Nil [simp]: "smap []"
  by (simp add: smap_def)

lemma smap_distinct: "smap m \<Longrightarrow> distinct (map fst m)"
  by (simp add: smap_def strict_sorted_iff)

lemma map_put_keys: "set (map fst (map_put k v m)) = insert k (set (map fst m))"
  by (induction k v m rule: map_put.induct) auto

lemma smap_put [simp]: "smap m \<Longrightarrow> smap (map_put k v m)"
proof (induction k v m rule: map_put.induct)
  case (2 k v k' v' m)
  have "set (map fst (map_put k v m)) = insert k (set (map fst m))" by (rule map_put_keys)
  with 2 show ?case by (auto simp: smap_def simp del: set_map)
qed (simp add: smap_def)

lemma smap_erase [simp]: "smap m \<Longrightarrow> smap (map_erase k m)"
  by (simp add: smap_def map_erase_def sorted_wrt_map sorted_wrt_filter)

lemma smap_insert [simp]: "smap m \<Longrightarrow> smap (map_insert k v m)"
  by (simp add: map_insert_def split: option.splits)

lemma find_put [simp]: "smap m \<Longrightarrow> map_find (map_put k v m) k' = (if k' = k then Some v else map_find m k')"
proof (induction k v m rule: map_put.induct)
  case (2 k v k1 v1 m)
  then show ?case by (auto simp: map_find_def smap_def)
qed (simp add: map_find_def)

lemma find_erase [simp]: "map_find (map_erase k m) k' = (if k' = k then None else map_find m k')"
  by (induction m) (auto simp: map_find_def map_erase_def)

lemma find_insert: "smap m \<Longrightarrow>
    map_find (map_insert k v m) k' = (if k' = k \<and> map_find m k = None then Some v else map_find m k')"
  by (auto simp: map_insert_def split: option.splits)

lemma find_Nil [simp]: "map_find [] k = None"
  by (simp add: map_find_def)

lemma find_None_iff: "map_find m k = None \<longleftrightarrow> k \<notin> set (map fst m)"
  by (simp add: map_find_def map_of_eq_None_iff)

lemma find_Some_iff: "smap m \<Longrightarrow> map_find m k = Some v \<longleftrightarrow> (k, v) \<in> set m"
  by (simp add: map_find_def smap_distinct map_of_eq_Some_iff)

lemma length_put: "map_find m k = None \<Longrightarrow> length (map_put k v m) = Suc (length m)"
  by (induction k v m rule: map_put.induct) (auto simp: map_find_def split: if_splits)

lemma erase_put_new: "map_find m k = None \<Longrightarrow> map_erase k (map_put k v m) = m"
proof (induction k v m rule: map_put.induct)
  case (2 k v k1 v1 m)
  then show ?case by (auto simp: map_find_def map_erase_def filter_id_conv split: if_splits)
       (metis fst_conv map_of_eq_None_iff image_eqI)+
qed (simp add: map_erase_def)

text \<open>Two sorted maps with the same entries are the same list.\<close>

lemma smap_eqI:
  assumes "smap m" "smap m'" "\<And>k. map_find m k = map_find m' k"
  shows "m = m'"
proof -
  have "set m = set m'" using assms(3) find_Some_iff [OF assms(1)] find_Some_iff [OF assms(2)] by (auto; metis)
  moreover have "inj_on fst (set m)" using smap_distinct [OF assms(1)] by (simp add: distinct_map)
  moreover have "sorted (map fst m)" "distinct (map fst m)" "sorted (map fst m')" "distinct (map fst m')"
    using assms(1,2) by (simp_all add: smap_def strict_sorted_iff)
  ultimately show ?thesis by (intro map_sorted_distinct_set_unique [of fst]) auto
qed

end
