(* ===== verification/Bytes.thy ===== *)
theory Bytes
  imports Abydos_Prelude "HOL-Library.Monad_Syntax"
begin

text \<open>Memory the parsers read: a block of bytes at an address. An access outside the block is
  \<^const>\<open>None\<close>. Addresses are natural numbers; the parsers add sizes of at most 32 bits to addresses
  inside a block, so no sum wraps as long as the block lies 8 GiB below the end of the address
  space.\<close>

type_synonym bmem = "nat \<times> u8 list"

definition rd8 :: "bmem \<Rightarrow> nat \<Rightarrow> u8 option" where
  "rd8 m a = (if fst m \<le> a \<and> a < fst m + length (snd m) then Some (snd m ! (a - fst m)) else None)"

text \<open>The bytes \<open>xs\<close> stand at address \<open>a\<close>.\<close>

definition at :: "bmem \<Rightarrow> nat \<Rightarrow> u8 list \<Rightarrow> bool" where
  "at m a xs \<longleftrightarrow> (\<forall>i<length xs. rd8 m (a + i) = Some (xs ! i))"

named_theorems at_simps

lemma at_Nil [at_simps]: "at m a []"
  by (simp add: at_def)

lemma at_Cons [at_simps]: "at m a (x # xs) \<longleftrightarrow> rd8 m a = Some x \<and> at m (Suc a) xs"
proof
  assume r: "at m a (x # xs)"
  then have "rd8 m (a + Suc i) = Some (xs ! i)" if "i < length xs" for i
    using that unfolding at_def by (metis length_Cons nth_Cons_Suc not_less_eq)
  moreover have "rd8 m a = Some x" using r unfolding at_def by force
  ultimately show "rd8 m a = Some x \<and> at m (Suc a) xs" by (simp add: at_def)
next
  assume r: "rd8 m a = Some x \<and> at m (Suc a) xs"
  show "at m a (x # xs)" unfolding at_def
  proof (intro allI impI)
    fix i assume "i < length (x # xs)"
    then show "rd8 m (a + i) = Some ((x # xs) ! i)" using r by (cases i) (auto simp: at_def)
  qed
qed

lemma at_append [at_simps]: "at m a (xs @ ys) \<longleftrightarrow> at m a xs \<and> at m (a + length xs) ys"
  by (induction xs arbitrary: a) (auto simp: at_simps)

lemma at_whole: "at (b, xs) b xs"
  by (simp add: at_def rd8_def)

lemma at_rd8: "at m a xs \<Longrightarrow> i < length xs \<Longrightarrow> rd8 m (a + i) = Some (xs ! i)"
  by (simp add: at_def)

lemma rd8_bound: "rd8 m a = Some x \<Longrightarrow> a < fst m + length (snd m)"
  by (simp add: rd8_def split: if_splits)

lemma at_bounds:
  assumes "at m a xs" "xs \<noteq> []"
  shows "fst m \<le> a" "a + length xs \<le> fst m + length (snd m)"
proof -
  have "rd8 m (a + 0) \<noteq> None" "rd8 m (a + (length xs - 1)) \<noteq> None"
    using at_rd8 [OF assms(1), of 0] at_rd8 [OF assms(1), of "length xs - 1"] assms(2) by auto
  moreover have "0 < length xs" using assms(2) by simp
  ultimately show "fst m \<le> a" "a + length xs \<le> fst m + length (snd m)" by (auto simp: rd8_def split: if_splits)
qed

lemma at_slice:
  assumes "at m a xs" "fst m \<le> a" "a + length xs \<le> fst m + length (snd m)"
  shows "take (length xs) (drop (a - fst m) (snd m)) = xs"
proof (rule nth_equalityI)
  show "length (take (length xs) (drop (a - fst m) (snd m))) = length xs" using assms(2,3) by simp
  fix i assume "i < length (take (length xs) (drop (a - fst m) (snd m)))"
  then have i: "i < length xs" by simp
  show "take (length xs) (drop (a - fst m) (snd m)) ! i = xs ! i"
    using at_rd8 [OF assms(1) i] assms(2) i by (simp add: rd8_def split: if_splits)
qed

text \<open>The string at an address, up to its terminating zero.\<close>

function cstr :: "bmem \<Rightarrow> nat \<Rightarrow> u8 list option" where
  "cstr m a = do {
     c \<leftarrow> rd8 m a;
     if c = 0 then Some [] else do { cs \<leftarrow> cstr m (Suc a); Some (c # cs) }
   }"
  by pat_completeness auto
termination
  by (relation "measure (\<lambda>(m, a). fst m + length (snd m) - a)") (auto dest!: rd8_bound)

declare cstr.simps [simp del]

lemma cstr_at: "at m a (xs @ [0]) \<Longrightarrow> 0 \<notin> set xs \<Longrightarrow> cstr m a = Some xs"
  by (induction xs arbitrary: a) (auto simp: at_simps cstr.simps)

lemma cstr_nonzero: "cstr m a = Some xs \<Longrightarrow> 0 \<notin> set xs"
  by (induction m a arbitrary: xs rule: cstr.induct) (subst (asm) cstr.simps, auto split: bind_splits if_splits)

text \<open>A block of bytes as \<open>memcmp\<close>, \<open>memcpy\<close> and \<open>memmove\<close> read it.\<close>

fun mem_bytes :: "bmem \<Rightarrow> nat \<Rightarrow> nat \<Rightarrow> u8 list option" where
  "mem_bytes m a 0 = Some []"
| "mem_bytes m a (Suc n) = do {
     c \<leftarrow> rd8 m a;
     cs \<leftarrow> mem_bytes m (a + 1) n;
     Some (c # cs)
   }"

lemma mem_bytes_in: "fst m \<le> a \<Longrightarrow> a + n \<le> fst m + length (snd m) \<Longrightarrow>
    mem_bytes m a n = Some (take n (drop (a - fst m) (snd m)))"
proof (induction n arbitrary: a)
  case (Suc n)
  then have "mem_bytes m (a + 1) n = Some (take n (drop (Suc (a - fst m)) (snd m)))" by (simp add: Suc_diff_le)
  moreover have "take (Suc n) (drop (a - fst m) (snd m)) = snd m ! (a - fst m) # take n (drop (Suc (a - fst m)) (snd m))"
    using Suc.prems by (simp add: Cons_nth_drop_Suc [symmetric] take_Suc_Cons [symmetric] del: take_Suc_Cons)
  ultimately show ?case using Suc.prems by (simp add: rd8_def)
qed simp

lemma mem_bytes_at: "at m a xs \<Longrightarrow> mem_bytes m a (length xs) = Some xs"
  by (induction xs arbitrary: a) (auto simp: at_simps)

lemma rd8_in: "fst m \<le> a \<Longrightarrow> a < fst m + length (snd m) \<Longrightarrow> \<exists>c. rd8 m a = Some c"
  by (simp add: rd8_def)

text \<open>The bytes of a string literal.\<close>

definition lit :: "string \<Rightarrow> u8 list" where
  "lit s = map of_char s"

end
