(* ===== verification/Sched.thy ===== *)
theory Sched
  imports Stdmap Bytes
begin

text \<open>Model of \<^verbatim>\<open>kernel/driver/scheduler/roundrobin.cpp\<close>: task groups, one per device handle, with
  their tasks under 32-bit identifiers. The search for a free identifier may not end, which is
  \<^const>\<open>None\<close>. The locale \<open>sys_scheduler\<close> is the contract of the interface \<open>SysScheduler\<close>.\<close>

section \<open>State and operations\<close>

record task_t =
  priority :: int
  start :: u64

record taskgroup_t =
  next_task_id :: u32
  tasks :: "(u32, task_t) stdmap"

record rr_sched =
  hdl_count :: int
  taskgroups :: "(int, taskgroup_t) stdmap"

definition rr_probe :: "u8 list \<Rightarrow> u8 list \<Rightarrow> int" where
  "rr_probe name compatible =
     (if name = lit ''scheduler-rr'' \<and> compatible = lit ''sys,scheduler'' then DRV_CAP_THIS else DRV_CAP_NONE)"

definition rr_addDevice :: "rr_sched \<Rightarrow> int \<times> rr_sched" where
  "rr_addDevice s =
     (hdl_count s, s\<lparr>taskgroups := map_put (hdl_count s) \<lparr>next_task_id = 1, tasks = []\<rparr> (taskgroups s),
                     hdl_count := hdl_count s + 1\<rparr>)"

definition rr_removeDevice :: "int \<Rightarrow> rr_sched \<Rightarrow> rr_sched" where
  "rr_removeDevice handler s = s\<lparr>taskgroups := map_erase handler (taskgroups s)\<rparr>"

partial_function (option) next_free :: "(u32, task_t) stdmap \<Rightarrow> u32 \<Rightarrow> u32 option" where
  "next_free ts i = (if map_find ts i \<noteq> None then next_free ts (i + 1) else Some i)"

definition addTask :: "int \<Rightarrow> task_t \<Rightarrow> rr_sched \<Rightarrow> (u32 \<times> rr_sched) option" where
  "addTask hdl task s =
     (case map_find (taskgroups s) hdl of
        None \<Rightarrow> Some (0, s)
      | Some tg \<Rightarrow>
          if length (tasks tg) = 0xFFFFFFFF then Some (0, s)
          else do {
            i \<leftarrow> next_free (tasks tg) (next_task_id tg);
            Some (i, s\<lparr>taskgroups := map_put hdl
              (tg\<lparr>tasks := map_put i task (tasks tg), next_task_id := i + 1\<rparr>) (taskgroups s)\<rparr>)
          })"

definition removeTask :: "int \<Rightarrow> u32 \<Rightarrow> rr_sched \<Rightarrow> int \<times> rr_sched" where
  "removeTask hdl task_id s =
     (case map_find (taskgroups s) hdl of
        None \<Rightarrow> (K_EINVAL, s)
      | Some tg \<Rightarrow>
          if map_find (tasks tg) task_id = None then (K_EALREADY, s)
          else (0, s\<lparr>taskgroups := map_put hdl (tg\<lparr>tasks := map_erase task_id (tasks tg)\<rparr>) (taskgroups s)\<rparr>))"

section \<open>The search for a free identifier\<close>

lemma next_free_steps:
  "(\<And>m. m < n \<Longrightarrow> map_find ts (i + of_nat m) \<noteq> None) \<Longrightarrow> map_find ts (i + of_nat n) = None \<Longrightarrow>
     next_free ts i = Some (i + of_nat n)"
proof (induction n arbitrary: i)
  case 0
  then show ?case by (subst next_free.simps) simp
next
  case (Suc n)
  have "map_find ts (i + 1 + of_nat m) \<noteq> None" if "m < n" for m
    using Suc.prems(1) [of "Suc m"] that by (simp add: ac_simps)
  then have "next_free ts (i + 1) = Some (i + 1 + of_nat n)"
    by (intro Suc.IH) (use Suc.prems(2) in \<open>simp_all add: ac_simps\<close>)
  moreover have "map_find ts i \<noteq> None" using Suc.prems(1) [of 0] by simp
  ultimately show ?case by (subst next_free.simps) (simp add: ac_simps)
qed

lemma next_free_total:
  fixes ts :: "(u32, task_t) stdmap"
  assumes "length ts < 2 ^ 32"
  shows "\<exists>j. next_free ts i = Some j \<and> map_find ts j = None"
proof -
  have "card (set (map fst ts)) \<le> length ts" using card_length [of "map fst ts"] by simp
  then have "set (map fst ts) \<noteq> UNIV" using assms by (auto simp: card_word)
  then obtain f where "map_find ts f = None" by (auto simp: find_None_iff)
  then have ex: "map_find ts (i + of_nat (unat (f - i))) = None" by simp
  define n where "n = (LEAST n. map_find ts (i + of_nat n) = None)"
  have "map_find ts (i + of_nat n) = None" unfolding n_def by (rule LeastI [where P = "\<lambda>n. map_find ts (i + of_nat n) = None", OF ex])
  moreover have "map_find ts (i + of_nat m) \<noteq> None" if "m < n" for m
    using not_less_Least that unfolding n_def by blast
  ultimately show ?thesis using next_free_steps by blast
qed

section \<open>The contract of a scheduler\<close>

text \<open>A list of tasks added one after the other.\<close>

fun add_all :: "(int \<Rightarrow> task_t \<Rightarrow> 's \<Rightarrow> (u32 \<times> 's) option) \<Rightarrow> int \<Rightarrow> task_t list \<Rightarrow> 's \<Rightarrow> (u32 list \<times> 's) option" where
  "add_all add h [] s = Some ([], s)"
| "add_all add h (t # ts) s = do {
     (i, s1) \<leftarrow> add h t s;
     (ids, s2) \<leftarrow> add_all add h ts s1;
     Some (i # ids, s2)
   }"

locale sys_scheduler =
  fixes inv :: "'s \<Rightarrow> bool" and group :: "'s \<Rightarrow> int \<Rightarrow> (u32 \<rightharpoonup> task_t) option"
    and add :: "int \<Rightarrow> task_t \<Rightarrow> 's \<Rightarrow> (u32 \<times> 's) option" and rem :: "int \<Rightarrow> u32 \<Rightarrow> 's \<Rightarrow> int \<times> 's"
  assumes add_law: "\<And>s h T t. inv s \<Longrightarrow> group s h = Some T \<Longrightarrow> card (dom T) < 0xFFFFFFFF \<Longrightarrow>
      \<exists>i s'. add h t s = Some (i, s') \<and> inv s' \<and> T i = None \<and> group s' = (group s)(h \<mapsto> T(i \<mapsto> t))"
    and rem_law: "\<And>s h T i. inv s \<Longrightarrow> group s h = Some T \<Longrightarrow> i \<in> dom T \<Longrightarrow>
      \<exists>s'. rem h i s = (0, s') \<and> inv s' \<and> group s' = (group s)(h \<mapsto> T(i := None))"
    and finite_law: "\<And>s h T. inv s \<Longrightarrow> group s h = Some T \<Longrightarrow> finite (dom T)"
begin

lemma add_rem:
  assumes "inv s" "group s h = Some T" "card (dom T) < 0xFFFFFFFF"
  shows "\<exists>i s' s''. add h t s = Some (i, s') \<and> rem h i s' = (0, s'') \<and> inv s'' \<and> group s'' = group s"
proof -
  obtain i s' where a: "add h t s = Some (i, s')" "inv s'" "T i = None" "group s' = (group s)(h \<mapsto> T(i \<mapsto> t))"
    using add_law [OF assms] by blast
  obtain s'' where r: "rem h i s' = (0, s'')" "inv s''" "group s'' = (group s')(h \<mapsto> (T(i \<mapsto> t))(i := None))"
    using rem_law [OF a(2), of h "T(i \<mapsto> t)" i] a(4) by auto
  have "(T(i \<mapsto> t))(i := None) = T" using a(3) by auto
  then have "group s'' = group s" using r(3) a(4) assms(2) by auto
  with a r show ?thesis by blast
qed

lemma add_all_distinct:
  assumes "inv s" "group s h = Some T" "card (dom T) + length ts \<le> 0xFFFFFFFF"
  shows "\<exists>ids s' T'. add_all add h ts s = Some (ids, s') \<and> inv s' \<and> group s' h = Some T' \<and> length ids = length ts \<and>
    distinct ids \<and> (\<forall>i\<in>set ids. T i = None) \<and> (\<forall>k<length ts. T' (ids ! k) = Some (ts ! k)) \<and>
    (\<forall>i. i \<notin> set ids \<longrightarrow> T' i = T i)"
  using assms
proof (induction ts arbitrary: s T)
  case (Cons t ts)
  obtain i s1 where a: "add h t s = Some (i, s1)" "inv s1" "T i = None" "group s1 = (group s)(h \<mapsto> T(i \<mapsto> t))"
    using add_law [OF Cons.prems(1,2)] Cons.prems(3) by fastforce
  have "card (dom (T(i \<mapsto> t))) = Suc (card (dom T))"
    using a(3) finite_law [OF Cons.prems(1,2)] by (simp add: card_insert_if domIff)
  then have le: "card (dom (T(i \<mapsto> t))) + length ts \<le> 0xFFFFFFFF" using Cons.prems(3) by simp
  have g: "group s1 h = Some (T(i \<mapsto> t))" using a(4) by simp
  obtain ids s' T' where r: "add_all add h ts s1 = Some (ids, s')" "inv s'" "group s' h = Some T'" "length ids = length ts"
      "distinct ids" "\<forall>j\<in>set ids. (T(i \<mapsto> t)) j = None" "\<forall>k<length ts. T' (ids ! k) = Some (ts ! k)"
      "\<forall>j. j \<notin> set ids \<longrightarrow> T' j = (T(i \<mapsto> t)) j"
    using Cons.IH [OF a(2) g le] by blast
  have i: "i \<notin> set ids" using r(6) by auto
  have "T' ((i # ids) ! k) = Some ((t # ts) ! k)" if "k < length (t # ts)" for k
    using that r(7,8) i by (cases k) auto
  moreover have "\<forall>j\<in>set (i # ids). T j = None" using r(6) a(3) by (auto split: if_splits)
  ultimately show ?case using a r i
    by (intro exI [of _ "i # ids"] exI [of _ s'] exI [of _ T']) auto
qed auto

end

section \<open>The round-robin driver implements it\<close>

definition rr_inv :: "rr_sched \<Rightarrow> bool" where
  "rr_inv s \<longleftrightarrow> smap (taskgroups s) \<and> (\<forall>h tg. map_find (taskgroups s) h = Some tg \<longrightarrow> smap (tasks tg))"

definition rr_group :: "rr_sched \<Rightarrow> int \<Rightarrow> (u32 \<rightharpoonup> task_t) option" where
  "rr_group s h = map_option (\<lambda>tg. map_find (tasks tg)) (map_find (taskgroups s) h)"

lemma card_smap: "smap m \<Longrightarrow> card (dom (map_find m)) = length m"
proof -
  assume m: "smap m"
  have "map_find m = map_of m" by (rule ext) (simp add: map_find_def)
  then have "dom (map_find m) = set (map fst m)" by (simp add: dom_map_of_conv_image_fst)
  then show ?thesis using distinct_card [OF smap_distinct [OF m]] by simp
qed

interpretation rr: sys_scheduler rr_inv rr_group addTask removeTask
proof
  fix s h T t
  assume i: "rr_inv s" and g: "rr_group s h = Some T" and c: "card (dom T) < 0xFFFFFFFF"
  obtain tg where tg: "map_find (taskgroups s) h = Some tg" "T = map_find (tasks tg)" "smap (tasks tg)" "smap (taskgroups s)"
    using i g by (auto simp: rr_group_def rr_inv_def)
  have len: "length (tasks tg) < 0xFFFFFFFF" using c card_smap [OF tg(3)] tg(2) by simp
  obtain j where j: "next_free (tasks tg) (next_task_id tg) = Some j" "map_find (tasks tg) j = None"
    using next_free_total [of "tasks tg" "next_task_id tg"] len by auto
  show "\<exists>i s'. addTask h t s = Some (i, s') \<and> rr_inv s' \<and> T i = None \<and> rr_group s' = (rr_group s)(h \<mapsto> T(i \<mapsto> t))"
    using i tg len j by (auto simp: addTask_def rr_inv_def rr_group_def fun_eq_iff split: if_splits)
next
  fix s h T j
  assume "rr_inv s" "rr_group s h = Some T" "j \<in> dom T"
  then show "\<exists>s'. removeTask h j s = (0, s') \<and> rr_inv s' \<and> rr_group s' = (rr_group s)(h \<mapsto> T(j := None))"
    by (auto simp: rr_group_def rr_inv_def removeTask_def fun_eq_iff split: if_splits)
next
  fix s h T
  assume "rr_inv s" "rr_group s h = Some T"
  then show "finite (dom T)"
    by (auto simp: rr_group_def rr_inv_def map_find_def finite_dom_map_of)
qed

section \<open>Properties\<close>

text \<open>C27: Adding a list of tasks to a group with room for them always returns; the identifiers are
  pairwise distinct and were free, each names its task afterwards and every other task of the group
  is as before. The search for a free identifier ends although the counter wraps around.\<close>

theorem addTask_all_distinct:
  assumes "rr_inv s" "rr_group s h = Some T" "card (dom T) + length ts \<le> 0xFFFFFFFF"
  shows "\<exists>ids s' T'. add_all addTask h ts s = Some (ids, s') \<and> rr_inv s' \<and> rr_group s' h = Some T' \<and>
    length ids = length ts \<and> distinct ids \<and> (\<forall>i\<in>set ids. T i = None) \<and>
    (\<forall>k<length ts. T' (ids ! k) = Some (ts ! k)) \<and> (\<forall>i. i \<notin> set ids \<longrightarrow> T' i = T i)"
  by (rule rr.add_all_distinct [OF assms])

definition demo_rr :: rr_sched where
  "demo_rr = snd (rr_addDevice \<lparr>hdl_count = 0, taskgroups = []\<rparr>)"

lemma demo_rr: "rr_inv demo_rr" "rr_group demo_rr 0 = Some Map.empty"
  by (auto simp: demo_rr_def rr_addDevice_def rr_inv_def rr_group_def smap_def map_find_def fun_eq_iff)

theorem addTask_all_distinct_witness:
  "\<exists>ids s'. add_all addTask 0 [\<lparr>priority = 1, start = 0x1000\<rparr>, \<lparr>priority = 2, start = 0x2000\<rparr>] demo_rr = Some (ids, s') \<and> distinct ids"
  using addTask_all_distinct [OF demo_rr, of "[\<lparr>priority = 1, start = 0x1000\<rparr>, \<lparr>priority = 2, start = 0x2000\<rparr>]"] by auto

text \<open>Removing the task that was just added gives back the task groups as they were.\<close>

lemma addTask_removeTask:
  assumes "rr_inv s" "rr_group s h = Some T" "card (dom T) < 0xFFFFFFFF"
  shows "\<exists>i s' s''. addTask h t s = Some (i, s') \<and> removeTask h i s' = (0, s'') \<and> rr_inv s'' \<and> rr_group s'' = rr_group s"
  by (rule rr.add_rem [OF assms])

lemma addTask_removeTask_witness:
  "\<exists>i s' s''. addTask 0 \<lparr>priority = 1, start = 0x1000\<rparr> demo_rr = Some (i, s') \<and> removeTask 0 i s' = (0, s'') \<and>
     rr_group s'' 0 = Some Map.empty"
  using addTask_removeTask [OF demo_rr, of "\<lparr>priority = 1, start = 0x1000\<rparr>"] demo_rr(2) by auto

text \<open>After the counter of a group has wrapped around, a task is stored under identifier 0, the
  answer that stands for failure.\<close>

lemma addTask_answers_zero:
  assumes "rr_inv s" "map_find (taskgroups s) h = Some tg" "next_task_id tg = 0" "map_find (tasks tg) 0 = None"
    "length (tasks tg) < 0xFFFFFFFF"
  shows "\<exists>s' T'. addTask h t s = Some (0, s') \<and> rr_group s' h = Some T' \<and> T' 0 = Some t"
proof -
  have "next_free (tasks tg) 0 = Some 0" using assms(4) by (subst next_free.simps) simp
  then show ?thesis using assms by (auto simp: addTask_def rr_group_def rr_inv_def)
qed

definition demo_rr_wrapped :: rr_sched where
  "demo_rr_wrapped = \<lparr>hdl_count = 1, taskgroups = [(0, \<lparr>next_task_id = 0, tasks = []\<rparr>)]\<rparr>"

lemma addTask_answers_zero_witness:
  "\<exists>s' T'. addTask 0 \<lparr>priority = 1, start = 0x1000\<rparr> demo_rr_wrapped = Some (0, s') \<and> rr_group s' 0 = Some T' \<and>
     T' 0 = Some \<lparr>priority = 1, start = 0x1000\<rparr>"
  by (rule addTask_answers_zero [where tg = "\<lparr>next_task_id = 0, tasks = []\<rparr>"])
    (simp_all add: demo_rr_wrapped_def rr_inv_def smap_def map_find_def)

end
