(* ===== verification/Isr.thy ===== *)
theory Isr
  imports Abydos_Prelude
begin

text \<open>Model of \<^verbatim>\<open>kernel/main/k_isr.cpp\<close>: the trap entries, instruction by instruction. The entries
  are straight-line sequences of the few instructions of the data type \<open>instr\<close> around a call of a
  C handler, which is an arbitrary function on the machine state; what a handler compiled for the
  calling convention keeps is the predicate \<open>abi_handler\<close>.\<close>

section \<open>The machine\<close>

datatype reg = RA | SP | GP | TP | T0 | T1 | T2 | T3 | T4 | T5 | T6
  | A0 | A1 | A2 | A3 | A4 | A5 | A6 | A7
  | S0 | S1 | S2 | S3 | S4 | S5 | S6 | S7 | S8 | S9 | S10 | S11

datatype csr = SSCRATCH | SEPC | SCAUSE | SSTATUS | SIE | SIP

record cpu =
  xreg :: "reg \<Rightarrow> u64"
  csrs :: "csr \<Rightarrow> u64"
  dmem :: "u64 \<Rightarrow> u64"

text \<open>Stores and loads are relative to the stack pointer, as everywhere in the entries.\<close>

datatype instr = SD reg u64 | LD reg u64 | ADDI reg reg u64 | MV reg reg | LI reg u64 | ANDR reg reg reg
  | SUBR reg reg reg | SRAI reg reg nat | SLLI reg reg nat | CSRR reg csr | CSRW csr reg | CSRRW reg csr reg

definition set_reg :: "reg \<Rightarrow> u64 \<Rightarrow> cpu \<Rightarrow> cpu" where
  "set_reg r v c = c\<lparr>xreg := (xreg c)(r := v)\<rparr>"

definition set_csr :: "csr \<Rightarrow> u64 \<Rightarrow> cpu \<Rightarrow> cpu" where
  "set_csr r v c = c\<lparr>csrs := (csrs c)(r := v)\<rparr>"

fun exec :: "instr \<Rightarrow> cpu \<Rightarrow> cpu" where
  "exec (SD r off) c = c\<lparr>dmem := (dmem c)(xreg c SP + off := xreg c r)\<rparr>"
| "exec (LD r off) c = set_reg r (dmem c (xreg c SP + off)) c"
| "exec (ADDI d s i) c = set_reg d (xreg c s + i) c"
| "exec (MV d s) c = set_reg d (xreg c s) c"
| "exec (LI d i) c = set_reg d i c"
| "exec (ANDR d a b) c = set_reg d (xreg c a AND xreg c b) c"
| "exec (SUBR d a b) c = set_reg d (xreg c a - xreg c b) c"
| "exec (SRAI d s n) c = set_reg d (signed_drop_bit n (xreg c s)) c"
| "exec (SLLI d s n) c = set_reg d (push_bit n (xreg c s)) c"
| "exec (CSRR d r) c = set_reg d (csrs c r) c"
| "exec (CSRW r s) c = set_csr r (xreg c s) c"
| "exec (CSRRW d r s) c = set_csr r (xreg c s) (set_reg d (csrs c r) c)"

definition exec_all :: "instr list \<Rightarrow> cpu \<Rightarrow> cpu" where
  "exec_all is c = fold exec is c"

section \<open>The pieces of the entries\<close>

text \<open>\<open>K_ISR_SWITCH_SP\<close>: exchange the stack pointer with \<open>sscratch\<close>, and exchange them back when
  the value found was zero.\<close>

definition switch_sp :: "cpu \<Rightarrow> cpu" where
  "switch_sp c =
     (let c1 = exec (CSRRW SP SSCRATCH SP) c in
      if xreg c1 SP \<noteq> 0 then c1 else exec (CSRRW SP SSCRATCH SP) c1)"

definition save_normal :: "instr list" where
  "save_normal =
     [SD T0 24, SD T1 32, SD T2 40, SD T3 48, SD T4 56, SD T5 64, SD T6 72,
      SD A0 80, SD A1 88, SD A2 96, SD A3 104, SD A4 112, SD A5 120, SD A6 128, SD A7 136]"

definition save_additional :: "instr list" where
  "save_additional =
     [SD S0 144, SD S1 152, SD S2 160, SD S3 168, SD S4 176, SD S5 184, SD S6 192, SD S7 200,
      SD S8 208, SD S9 216, SD S10 224, SD S11 232]"

text \<open>\<open>_K_ISR_SAVE_RECALC_PTRS\<close>: the thread pointer from the top of the stack of this hart, and the
  global pointer; \<open>tls_len\<close> and \<open>gptr\<close> are the symbols \<open>_tls_len\<close> and \<open>__global_pointer$\<close>.\<close>

definition recalc_ptrs :: "u64 \<Rightarrow> u64 \<Rightarrow> cpu \<Rightarrow> cpu" where
  "recalc_ptrs tls_len gptr c =
     (let c1 = exec_all [MV TP SP, LI GP (64 * 8192 - 1), ANDR GP GP SP, SRAI TP TP 13] c;
          c2 = (if xreg c1 GP = 0 then c1 else exec (ADDI TP TP 1) c1) in
      exec_all [SLLI TP TP 13, LI GP tls_len, SUBR TP TP GP, LI GP gptr] c2)"

definition save_ctx_normal :: "u64 \<Rightarrow> u64 \<Rightarrow> cpu \<Rightarrow> cpu" where
  "save_ctx_normal tls_len gptr c =
     recalc_ptrs tls_len gptr
       (exec_all ([ADDI SP SP (-256), SD RA 0, SD GP 8, SD TP 16] @ save_normal) c)"

definition save_ctx_additional :: "u64 \<Rightarrow> u64 \<Rightarrow> cpu \<Rightarrow> cpu" where
  "save_ctx_additional tls_len gptr c =
     recalc_ptrs tls_len gptr
       (exec_all ([ADDI SP SP (-256), SD RA 0, SD GP 8, SD TP 16] @ save_normal @ save_additional) c)"

definition restore_normal :: "instr list" where
  "restore_normal =
     [LD RA 0, LD GP 8, LD TP 16, LD T0 24, LD T1 32, LD T2 40, LD T3 48, LD T4 56, LD T5 64, LD T6 72,
      LD A0 80, LD A1 88, LD A2 96, LD A3 104, LD A4 112, LD A5 120, LD A6 128, LD A7 136]"

definition restore_additional :: "instr list" where
  "restore_additional =
     [LD S0 144, LD S1 152, LD S2 160, LD S3 168, LD S4 176, LD S5 184, LD S6 192, LD S7 200,
      LD S8 208, LD S9 216, LD S10 224, LD S11 232]"

definition restore_ctx_normal :: "cpu \<Rightarrow> cpu" where
  "restore_ctx_normal c = exec_all (restore_normal @ [ADDI SP SP 256]) c"

definition restore_ctx_additional :: "cpu \<Rightarrow> cpu" where
  "restore_ctx_additional c =
     exec_all ([LD TP 248, CSRW SEPC TP, LD TP 240, CSRW SSCRATCH TP] @ restore_normal @ restore_additional
               @ [ADDI SP SP 256]) c"

section \<open>The entries\<close>

text \<open>\<open>K_ISR_ENTRY_IMPL(NORMAL, ...)\<close> and \<open>K_ISR_ENTRY_IMPL(ADDITIONAL, ...)\<close>, up to the final
  \<open>sret\<close>, which continues at \<open>sepc\<close>.\<close>

definition entry_normal :: "u64 \<Rightarrow> u64 \<Rightarrow> (cpu \<Rightarrow> cpu) \<Rightarrow> cpu \<Rightarrow> cpu" where
  "entry_normal tls_len gptr func c =
     switch_sp (restore_ctx_normal (func (exec (MV A0 SP) (save_ctx_normal tls_len gptr (switch_sp c)))))"

definition entry_additional :: "u64 \<Rightarrow> u64 \<Rightarrow> (cpu \<Rightarrow> cpu) \<Rightarrow> cpu \<Rightarrow> cpu" where
  "entry_additional tls_len gptr func c =
     switch_sp (restore_ctx_additional (func (exec (MV A0 SP) (save_ctx_additional tls_len gptr (switch_sp c)))))"

datatype esr = k_other_exception | k_esr_break | k_esr_ecall

text \<open>The jump table of \<open>k_exception_entry\<close>, with whether the full context is saved.\<close>

definition exc_table :: "(esr \<times> bool) list" where
  "exc_table =
     [(k_other_exception, False), (k_other_exception, False), (k_other_exception, False), (k_esr_break, False),
      (k_other_exception, False), (k_other_exception, False), (k_other_exception, False), (k_other_exception, False),
      (k_esr_ecall, True), (k_other_exception, False), (k_other_exception, False), (k_other_exception, False),
      (k_other_exception, False), (k_other_exception, False), (k_other_exception, False), (k_other_exception, False)]"

text \<open>\<open>None\<close>: the jump to \<open>_start_hang\<close>.\<close>

definition exc_dispatch :: "u64 \<Rightarrow> (esr \<times> bool) option" where
  "exc_dispatch scause =
     (if sint scause < 0 then None else if 16 \<le> sint scause then None else Some (exc_table ! unat scause))"

definition k_exception_entry :: "u64 \<Rightarrow> u64 \<Rightarrow> (esr \<Rightarrow> cpu \<Rightarrow> cpu) \<Rightarrow> cpu \<Rightarrow> cpu option" where
  "k_exception_entry tls_len gptr handler c0 =
     (let c = exec_all [SD RA (-256), SD GP (-248), SD TP (-240), CSRR GP SCAUSE] (switch_sp c0) in
      case exc_dispatch (xreg c GP) of
        None \<Rightarrow> None
      | Some (h, False) \<Rightarrow>
          Some (switch_sp (restore_ctx_normal (handler h (exec (MV A0 SP)
            (recalc_ptrs tls_len gptr (exec_all (ADDI SP SP (-256) # save_normal) c))))))
      | Some (h, True) \<Rightarrow>
          Some (switch_sp (restore_ctx_additional (handler h (exec (MV A0 SP)
            (recalc_ptrs tls_len gptr
              (exec_all (ADDI SP SP (-256) # save_normal @ save_additional @ [SD SP 240, CSRR TP SEPC, SD TP 248]) c)))))))"

text \<open>The vector table \<open>_exctable\<close>: four bytes per cause of an interrupt.\<close>

datatype vec = k_exception | k_softirq | k_timer | k_extirq | start_hang

definition exctable :: "vec list" where
  "exctable = [k_exception, k_softirq, start_hang, start_hang, start_hang, k_timer, k_extirq, start_hang,
     start_hang, start_hang, start_hang, start_hang, start_hang, start_hang, start_hang, start_hang]"

section \<open>The handlers\<close>

text \<open>\<open>k_isr_softirq\<close>: stop the hart's loop, acknowledge the interrupt, and, when a resume address
  is set, return to it in supervisor mode. The first component is \<open>k_halt\<close>.\<close>

definition k_isr_softirq :: "u64 \<Rightarrow> cpu \<Rightarrow> bool \<times> cpu" where
  "k_isr_softirq resume c =
     (let c1 = set_csr SIP (csrs c SIP AND NOT 2) c in
      (True,
       if resume \<noteq> 0 then
         set_csr SSCRATCH 0 (set_csr SIE (csrs c1 SIE AND NOT 2)
           (set_csr SSTATUS (csrs c1 SSTATUS OR 0x100) (set_csr SEPC resume c1)))
       else c1))"

datatype sbi_req = SendIPI int int | ClearTimer | SetTimer u64

definition k_isr_timer :: "u64 \<Rightarrow> u64 \<Rightarrow> sbi_req list" where
  "k_isr_timer time cpuclock =
     (if time > 10 * cpuclock then [SendIPI (-1) 0, ClearTimer] else [SetTimer (time + cpuclock)])"

text \<open>\<open>k_esr_ecall\<close> moves the saved program counter (slot 31) behind the \<open>ecall\<close>; its output is not
  modelled.\<close>

definition k_esr_ecall_fn :: "cpu \<Rightarrow> cpu" where
  "k_esr_ecall_fn c = c\<lparr>dmem := (dmem c)(xreg c A0 + 248 := dmem c (xreg c A0 + 248) + 4)\<rparr>"

section \<open>What the pieces do\<close>

lemmas set_defs = set_reg_def set_csr_def

lemma switch_sp_eq:
  "switch_sp c = (if csrs c SSCRATCH = 0 then c
     else set_csr SSCRATCH (xreg c SP) (set_reg SP (csrs c SSCRATCH) c))"
proof -
  have "(csrs c)(SSCRATCH := 0) = csrs c" if "csrs c SSCRATCH = 0" using that by auto
  then show ?thesis by (auto simp: switch_sp_def Let_def set_defs)
qed

text \<open>The slot of the frame a register is saved in; the boolean tells whether the context is full.\<close>

fun slot_of :: "reg \<Rightarrow> u64 option" where
  "slot_of RA = Some 0" | "slot_of GP = Some 8" | "slot_of TP = Some 16"
| "slot_of T0 = Some 24" | "slot_of T1 = Some 32" | "slot_of T2 = Some 40" | "slot_of T3 = Some 48"
| "slot_of T4 = Some 56" | "slot_of T5 = Some 64" | "slot_of T6 = Some 72"
| "slot_of A0 = Some 80" | "slot_of A1 = Some 88" | "slot_of A2 = Some 96" | "slot_of A3 = Some 104"
| "slot_of A4 = Some 112" | "slot_of A5 = Some 120" | "slot_of A6 = Some 128" | "slot_of A7 = Some 136"
| "slot_of _ = None"

definition callee_saved :: "reg \<Rightarrow> bool" where
  "callee_saved r \<longleftrightarrow> slot_of r = None \<and> r \<noteq> SP"

lemma exec_all_simps [simp]:
  "exec_all [] c = c" "exec_all (i # is) c = exec_all is (exec i c)"
  by (simp_all add: exec_all_def)

lemma exec_all_append [simp]: "exec_all (is @ js) c = exec_all js (exec_all is c)"
  by (simp add: exec_all_def)

lemma recalc_keeps:
  "dmem (recalc_ptrs l g c) = dmem c" "csrs (recalc_ptrs l g c) = csrs c"
  "r \<noteq> TP \<Longrightarrow> r \<noteq> GP \<Longrightarrow> xreg (recalc_ptrs l g c) r = xreg c r"
  by (simp_all add: recalc_ptrs_def Let_def set_defs)

lemma save_normal_frame:
  assumes "slot_of r = Some off"
  shows "dmem (save_ctx_normal l g c) (xreg c SP - 256 + off) = xreg c r"
  using assms by (cases r) (simp_all add: save_ctx_normal_def recalc_keeps save_normal_def set_defs)

lemma save_normal_keeps:
  "xreg (save_ctx_normal l g c) SP = xreg c SP - 256" "csrs (save_ctx_normal l g c) = csrs c"
  "callee_saved r \<Longrightarrow> xreg (save_ctx_normal l g c) r = xreg c r"
  by (simp_all add: save_ctx_normal_def recalc_keeps save_normal_def set_defs)
    (cases r; simp add: callee_saved_def recalc_keeps)

lemma restore_normal_reads:
  "slot_of r = Some off \<Longrightarrow> xreg (restore_ctx_normal c) r = dmem c (xreg c SP + off)"
  by (cases r) (simp_all add: restore_ctx_normal_def restore_normal_def set_defs)

lemma restore_normal_keeps:
  "xreg (restore_ctx_normal c) SP = xreg c SP + 256" "csrs (restore_ctx_normal c) = csrs c"
  "dmem (restore_ctx_normal c) = dmem c"
  "callee_saved r \<Longrightarrow> xreg (restore_ctx_normal c) r = xreg c r"
  by (auto simp: restore_ctx_normal_def restore_normal_def set_defs callee_saved_def)

text \<open>A handler compiled for the calling convention, with respect to the frame it is called above:
  it gives back the stack pointer and the callee-saved registers and does not write the frame.\<close>

definition keeps_frame :: "(cpu \<Rightarrow> cpu) \<Rightarrow> bool" where
  "keeps_frame f \<longleftrightarrow>
     (\<forall>c r. callee_saved r \<or> r = SP \<longrightarrow> xreg (f c) r = xreg c r) \<and>
     (\<forall>c off. off < 256 \<longrightarrow> dmem (f c) (xreg c SP + off) = dmem c (xreg c SP + off))"

definition abi_handler :: "(cpu \<Rightarrow> cpu) \<Rightarrow> bool" where
  "abi_handler f \<longleftrightarrow> keeps_frame f \<and>
     (\<forall>c. csrs (f c) SSCRATCH = csrs c SSCRATCH \<and> csrs (f c) SEPC = csrs c SEPC)"

lemma slot_lt: "slot_of r = Some off \<Longrightarrow> off < 256"
  by (cases r) auto

lemma reg_cases: "r = SP \<or> callee_saved r \<or> (\<exists>off. slot_of r = Some off)"
  by (auto simp: callee_saved_def)

lemma entry_normal_regs:
  fixes c1 :: cpu and f :: "cpu \<Rightarrow> cpu" and l g :: u64
  defines "c2 \<equiv> exec (MV A0 SP) (save_ctx_normal l g c1)"
  assumes f: "keeps_frame f"
  shows "xreg (restore_ctx_normal (f c2)) = xreg c1"
proof
  fix r
  have sp2: "xreg c2 SP = xreg c1 SP - 256" by (simp add: c2_def set_defs save_normal_keeps)
  have sp3: "xreg (f c2) SP = xreg c1 SP - 256" using f sp2 by (simp add: keeps_frame_def)
  consider "r = SP" | "callee_saved r" | off where "slot_of r = Some off" using reg_cases by blast
  then show "xreg (restore_ctx_normal (f c2)) r = xreg c1 r"
  proof cases
    case 1
    then show ?thesis by (simp add: restore_normal_keeps sp3)
  next
    case 2
    then have "xreg (restore_ctx_normal (f c2)) r = xreg c2 r" using f by (simp add: restore_normal_keeps keeps_frame_def)
    moreover have "r \<noteq> A0" using 2 by (auto simp: callee_saved_def)
    ultimately show ?thesis using 2 by (simp add: c2_def set_defs save_normal_keeps)
  next
    case 3
    have "xreg (restore_ctx_normal (f c2)) r = dmem (f c2) (xreg c2 SP + off)"
      using restore_normal_reads [OF 3] sp2 sp3 by simp
    also have "\<dots> = dmem c2 (xreg c2 SP + off)" using f slot_lt [OF 3] by (simp add: keeps_frame_def)
    also have "\<dots> = xreg c1 r" using save_normal_frame [OF 3, of l g c1] sp2 by (simp add: c2_def set_defs)
    finally show ?thesis .
  qed
qed

section \<open>The full context\<close>

fun slot_full :: "reg \<Rightarrow> u64 option" where
  "slot_full S0 = Some 144" | "slot_full S1 = Some 152" | "slot_full S2 = Some 160" | "slot_full S3 = Some 168"
| "slot_full S4 = Some 176" | "slot_full S5 = Some 184" | "slot_full S6 = Some 192" | "slot_full S7 = Some 200"
| "slot_full S8 = Some 208" | "slot_full S9 = Some 216" | "slot_full S10 = Some 224" | "slot_full S11 = Some 232"
| "slot_full r = slot_of r"

lemma slot_full_cases: "r \<noteq> SP \<Longrightarrow> \<exists>off. slot_full r = Some off \<and> off < 240"
  by (cases r) auto

lemma restore_additional_reads:
  "slot_full r = Some off \<Longrightarrow> xreg (restore_ctx_additional c) r = dmem c (xreg c SP + off)"
  by (cases r) (simp_all add: restore_ctx_additional_def restore_normal_def restore_additional_def set_defs)

lemma restore_additional_keeps:
  "xreg (restore_ctx_additional c) SP = xreg c SP + 256"
  "csrs (restore_ctx_additional c) SEPC = dmem c (xreg c SP + 248)"
  "csrs (restore_ctx_additional c) SSCRATCH = dmem c (xreg c SP + 240)"
  "dmem (restore_ctx_additional c) = dmem c"
  by (simp_all add: restore_ctx_additional_def restore_normal_def restore_additional_def set_defs)

text \<open>The frame \<open>k_exception_entry\<close> builds for \<open>ecall\<close>, and the one of the timer entry.\<close>

definition ecall_frame :: "u64 \<Rightarrow> u64 \<Rightarrow> cpu \<Rightarrow> cpu" where
  "ecall_frame l g c = exec (MV A0 SP) (recalc_ptrs l g
     (exec_all (ADDI SP SP (-256) # save_normal @ save_additional @ [SD SP 240, CSRR TP SEPC, SD TP 248])
       (exec_all [SD RA (-256), SD GP (-248), SD TP (-240), CSRR GP SCAUSE] c)))"

definition timer_frame :: "u64 \<Rightarrow> u64 \<Rightarrow> cpu \<Rightarrow> cpu" where
  "timer_frame l g c = exec (MV A0 SP) (save_ctx_additional l g c)"

lemma ecall_frame_saves:
  "slot_full r = Some off \<Longrightarrow> dmem (ecall_frame l g c) (xreg c SP - 256 + off) = xreg c r"
  by (cases r) (simp_all add: ecall_frame_def recalc_keeps save_normal_def save_additional_def set_defs)

lemma ecall_frame_facts:
  "xreg (ecall_frame l g c) SP = xreg c SP - 256"
  "xreg (ecall_frame l g c) A0 = xreg c SP - 256"
  "dmem (ecall_frame l g c) (xreg c SP - 256 + 248) = csrs c SEPC"
  "dmem (ecall_frame l g c) (xreg c SP - 256 + 240) = xreg c SP - 256"
  "csrs (ecall_frame l g c) = csrs c"
  by (simp_all add: ecall_frame_def recalc_keeps save_normal_def save_additional_def set_defs)

lemma timer_frame_facts:
  "xreg (timer_frame l g c) SP = xreg c SP - 256"
  "dmem (timer_frame l g c) (xreg c SP - 256 + 248) = dmem c (xreg c SP - 8)"
  "dmem (timer_frame l g c) (xreg c SP - 256 + 240) = dmem c (xreg c SP - 16)"
  by (simp_all add: timer_frame_def save_ctx_additional_def recalc_keeps save_normal_def save_additional_def set_defs)

lemma timer_frame_saves:
  "slot_full r = Some off \<Longrightarrow> dmem (timer_frame l g c) (xreg c SP - 256 + off) = xreg c r"
  by (cases r) (simp_all add: timer_frame_def save_ctx_additional_def recalc_keeps save_normal_def save_additional_def set_defs)

lemma shift_back: "push_bit 13 (signed_drop_bit 13 x) = push_bit 13 (drop_bit 13 (x :: u64))"
proof (rule word_bit_extI)
  fix i :: nat assume "i < 64"
  then show "bit (push_bit 13 (signed_drop_bit 13 x)) i = bit (push_bit 13 (drop_bit 13 x)) i"
    by (auto simp: bit_push_bit_iff bit_signed_drop_bit_iff bit_drop_bit_eq)
qed

lemma round_up_stack:
  assumes "unat stk mod 8192 = 0" "0 < n" "n < 8192"
  shows "push_bit 13 (signed_drop_bit 13 (stk - n) + 1) = (stk :: u64)" "(2 ^ 19 - 1) AND (stk - n) \<noteq> 0"
proof -
  let ?x = "stk - n"
  have n: "0 < unat n" "unat n < 8192" using assms(2,3) by (simp_all add: word_less_nat_alt)
  obtain d where d: "unat n + d = 8192" "d < 8192" using n by (metis add_diff_inverse_nat less_imp_le_nat diff_less not_le zero_less_numeral)
  have "8192 dvd unat stk" using assms(1) by (simp add: dvd_eq_mod_eq_0)
  then have "8192 \<le> unat stk \<or> unat stk = 0" using dvd_imp_le by fastforce
  then have "unat n \<le> unat stk \<or> unat stk = 0" using n by auto
  then have "unat ?x mod 8192 = d"
  proof
    assume le: "unat n \<le> unat stk"
    then have u: "unat ?x = unat stk - unat n" by (simp add: unat_sub word_le_nat_alt)
    obtain q where q: "unat stk = 8192 * q" using assms(1) by (auto simp: dvd_eq_mod_eq_0 [symmetric] elim!: dvdE)
    then obtain p where "q = Suc p" using le n by (cases q) auto
    then have "unat ?x = d + p * 8192" using q d u by simp
    then show ?thesis using d by simp
  next
    assume z: "unat stk = 0"
    have "unat ?x = 2 ^ 64 - unat n" using unat_sub_if_size [of stk n] z n by (simp add: word_size)
    moreover define q :: nat where "q = 2 ^ 51 - 1"
    ultimately have "unat ?x = d + q * 8192" using d by (simp add: q_def)
    then show ?thesis using d by simp
  qed
  then have t: "unat (take_bit 13 ?x) = 8192 - unat n" using d by (simp add: unat_take_bit_word)
  then have tb: "take_bit 13 ?x = 8192 - n"
    using n assms(3) by (simp add: word_unat_eq_iff unat_sub word_le_nat_alt)
  have "push_bit 13 (signed_drop_bit 13 ?x + 1) = push_bit 13 (drop_bit 13 ?x) + 8192"
    by (simp add: push_bit_add shift_back)
  also have "\<dots> = ?x - take_bit 13 ?x + 8192" using bits_ident [of 13 ?x] by (metis add_diff_cancel_right')
  finally show "push_bit 13 (signed_drop_bit 13 ?x + 1) = stk" by (simp add: tb)
  have "take_bit 13 (take_bit 19 ?x) = take_bit 13 ?x" by (simp add: take_bit_take_bit)
  moreover have "take_bit 13 ?x \<noteq> 0" using t n by (metis less_irrefl_nat unat_0 zero_less_diff)
  ultimately have "take_bit 19 ?x \<noteq> 0" by (metis take_bit_of_0)
  then show "(2 ^ 19 - 1) AND ?x \<noteq> 0" by (simp add: take_bit_eq_mask mask_eq_exp_minus_1 and.commute)
qed

section \<open>Properties\<close>

text \<open>C8: An interrupt served through the normal entry is transparent: when the handler obeys the
  calling convention and leaves \<open>sepc\<close> and \<open>sscratch\<close> alone, the interrupted code, be it the kernel
  (\<open>sscratch\<close> is zero) or a user program with a non-null stack pointer, finds every register and both
  control registers as they were.\<close>

theorem entry_normal_transparent:
  assumes "abi_handler f" "csrs c SSCRATCH = 0 \<or> xreg c SP \<noteq> 0"
  shows "xreg (entry_normal l g f c) = xreg c \<and>
    csrs (entry_normal l g f c) SSCRATCH = csrs c SSCRATCH \<and> csrs (entry_normal l g f c) SEPC = csrs c SEPC"
proof -
  let ?c1 = "switch_sp c"
  let ?c4 = "restore_ctx_normal (f (exec (MV A0 SP) (save_ctx_normal l g ?c1)))"
  have r: "xreg ?c4 = xreg ?c1" using assms(1) by (intro entry_normal_regs) (simp add: abi_handler_def)
  have s: "csrs ?c4 SSCRATCH = csrs ?c1 SSCRATCH" "csrs ?c4 SEPC = csrs ?c1 SEPC"
    using assms(1) by (simp_all add: abi_handler_def restore_normal_keeps set_defs save_normal_keeps)
  have "entry_normal l g f c = switch_sp ?c4" by (simp add: entry_normal_def)
  then show ?thesis using r s assms(2) by (auto simp: switch_sp_eq set_defs)
qed

definition demo_cpu :: cpu where
  "demo_cpu = \<lparr>xreg = (\<lambda>r. if r = SP then 0x4000 else 7), csrs = (\<lambda>r. if r = SSCRATCH then 0x9000 else if r = SEPC then 0x1234 else 0),
     dmem = (\<lambda>_. 0)\<rparr>"

theorem entry_normal_transparent_witness:
  "xreg (entry_normal 0 0 (set_reg T0 99) demo_cpu) = xreg demo_cpu"
proof -
  have "abi_handler (set_reg T0 99)"
    by (auto simp: abi_handler_def keeps_frame_def set_defs callee_saved_def)
  then show ?thesis using entry_normal_transparent [of "set_reg T0 99" demo_cpu 0 0] by (simp add: demo_cpu_def)
qed

text \<open>C30: A software interrupt that finds a resume address while a user program runs makes the hart
  continue in the kernel: \<open>sepc\<close> is the resume address, the previous mode is supervisor, the stack
  pointer is the kernel stack and \<open>sscratch\<close> says so.\<close>

theorem softirq_resumes_kernel:
  assumes "keeps_frame f" "\<And>c. csrs (f c) = csrs (snd (k_isr_softirq resume c))"
    "resume \<noteq> 0" "csrs c SSCRATCH = ksp" "ksp \<noteq> 0"
  shows "csrs (entry_normal l g f c) SEPC = resume \<and> bit (csrs (entry_normal l g f c) SSTATUS) 8 \<and>
    xreg (entry_normal l g f c) SP = ksp \<and> csrs (entry_normal l g f c) SSCRATCH = 0 \<and>
    (\<forall>r. r \<noteq> SP \<longrightarrow> xreg (entry_normal l g f c) r = xreg c r)"
proof -
  let ?c1 = "switch_sp c"
  let ?c4 = "restore_ctx_normal (f (exec (MV A0 SP) (save_ctx_normal l g ?c1)))"
  have r: "xreg ?c4 = xreg ?c1" using assms(1) by (rule entry_normal_regs)
  have b: "bit ((x :: u64) OR 0x100) 8" for x
    using bit_or_iff [of x "0x100" 8] by (simp add: bit_numeral_word_iff)
  have s: "csrs ?c4 SSCRATCH = 0" "csrs ?c4 SEPC = resume" "bit (csrs ?c4 SSTATUS) 8"
    using assms(2,3) b by (simp_all add: restore_normal_keeps k_isr_softirq_def Let_def set_defs)
  have "entry_normal l g f c = ?c4" using s(1) by (simp add: entry_normal_def switch_sp_eq)
  then show ?thesis using r s assms(4,5) by (simp add: switch_sp_eq set_defs)
qed

theorem softirq_resumes_kernel_witness:
  "csrs (entry_normal 0 0 (\<lambda>c. snd (k_isr_softirq 0x8000 c)) demo_cpu) SEPC = 0x8000"
proof -
  have "keeps_frame (\<lambda>c. snd (k_isr_softirq 0x8000 c))"
    by (simp add: keeps_frame_def k_isr_softirq_def set_defs)
  then show ?thesis using softirq_resumes_kernel [of "\<lambda>c. snd (k_isr_softirq 0x8000 c)" "0x8000" demo_cpu "0x9000" 0 0]
    by (simp add: demo_cpu_def)
qed

definition ecall_handler :: "(esr \<Rightarrow> cpu \<Rightarrow> cpu) \<Rightarrow> bool" where
  "ecall_handler handler \<longleftrightarrow> (\<forall>c. let c' = handler k_esr_ecall c in
     xreg c' SP = xreg c SP \<and>
     (\<forall>off. off < 256 \<longrightarrow> dmem c' (xreg c A0 + off) = dmem (k_esr_ecall_fn c) (xreg c A0 + off)))"

text \<open>C31: A system call returns behind the \<open>ecall\<close> instruction with every register of the user program
  except the stack pointer: the saved one is the address of the kernel frame, so the user program goes
  on with a stack pointer into the kernel stack.\<close>

theorem ecall_loses_user_sp:
  assumes "ecall_handler handler" "csrs c SCAUSE = 8" "csrs c SSCRATCH = ksp" "ksp \<noteq> 0" "ksp \<noteq> 256"
  shows "\<exists>c'. k_exception_entry l g handler c = Some c' \<and> csrs c' SEPC = csrs c SEPC + 4 \<and>
    (\<forall>r. r \<noteq> SP \<longrightarrow> xreg c' r = xreg c r) \<and> xreg c' SP = ksp - 256 \<and> csrs c' SSCRATCH = ksp"
proof -
  let ?c1 = "switch_sp c" let ?c2 = "ecall_frame l g ?c1" let ?c3 = "handler k_esr_ecall ?c2"
  let ?c4 = "restore_ctx_additional ?c3"
  have c1: "xreg ?c1 SP = ksp" "csrs ?c1 SEPC = csrs c SEPC" "csrs ?c1 SCAUSE = 8" "\<And>r. r \<noteq> SP \<Longrightarrow> xreg ?c1 r = xreg c r"
    using assms(2-4) by (simp_all add: switch_sp_eq set_defs)
  have e: "k_exception_entry l g handler c = Some (switch_sp ?c4)"
    using c1(3) by (simp add: k_exception_entry_def Let_def set_defs exc_dispatch_def exc_table_def ecall_frame_def)
  have sp: "xreg ?c2 SP = ksp - 256" "xreg ?c2 A0 = ksp - 256" using c1(1) by (simp_all add: ecall_frame_facts)
  have sp3: "xreg ?c3 SP = ksp - 256" using assms(1) sp by (simp add: ecall_handler_def Let_def)
  have m: "dmem ?c3 (ksp - 256 + off) = dmem (k_esr_ecall_fn ?c2) (ksp - 256 + off)" if "off < 256" for off
    using assms(1) that sp by (metis ecall_handler_def)
  have fr: "dmem ?c2 (ksp - 256 + 248) = csrs c SEPC" "dmem ?c2 (ksp - 256 + 240) = ksp - 256"
    using ecall_frame_facts(3,4) [of l g ?c1] c1 by simp_all
  have pc: "csrs ?c4 SEPC = csrs c SEPC + 4" using m [of 248] fr sp
    by (simp add: restore_additional_keeps sp3 k_esr_ecall_fn_def)
  have ss: "csrs ?c4 SSCRATCH = ksp - 256" using m [of 240] fr sp
    by (simp add: restore_additional_keeps sp3 k_esr_ecall_fn_def)
  have "xreg ?c4 r = xreg c r" if r: "r \<noteq> SP" for r
  proof -
    obtain off where off: "slot_full r = Some off" "off < 240" using slot_full_cases [OF r] by blast
    then have "off < 256" "off \<noteq> 248" by (auto simp: word_less_nat_alt)
    then have "dmem ?c3 (ksp - 256 + off) = dmem ?c2 (ksp - 256 + off)" using m sp by (simp add: k_esr_ecall_fn_def)
    then show ?thesis
      using restore_additional_reads [OF off(1), of ?c3] ecall_frame_saves [OF off(1), of l g ?c1] sp3 c1(1,4) r by simp
  qed
  moreover have "xreg ?c4 SP = ksp" by (simp add: restore_additional_keeps sp3)
  ultimately show ?thesis using e pc ss assms(5) by (simp add: switch_sp_eq set_defs)
qed

theorem ecall_loses_user_sp_witness:
  "\<exists>c'. k_exception_entry 0 0 (\<lambda>h. k_esr_ecall_fn) (set_csr SCAUSE 8 demo_cpu) = Some c' \<and> csrs c' SEPC = 0x1238 \<and>
     xreg c' SP = 0x8F00"
proof -
  have "ecall_handler (\<lambda>h. k_esr_ecall_fn)" by (simp add: ecall_handler_def k_esr_ecall_fn_def)
  then show ?thesis using ecall_loses_user_sp [of "\<lambda>h. k_esr_ecall_fn" "set_csr SCAUSE 8 demo_cpu" "0x9000" 0 0]
    by (auto simp: demo_cpu_def set_defs)
qed

text \<open>C32: The timer entry restores the program counter and the stack pointer from two slots nobody has
  written: after a timer interrupt in a user program \<open>sepc\<close> is the word below the top of the kernel
  stack, whatever it was.\<close>

theorem timer_loses_pc:
  assumes "keeps_frame f" "csrs c SSCRATCH = ksp" "ksp \<noteq> 0"
  shows "csrs (entry_additional l g f c) SEPC = dmem c (ksp - 8)"
proof -
  let ?c1 = "switch_sp c" let ?c2 = "timer_frame l g ?c1"
  have c1: "xreg ?c1 SP = ksp" "dmem ?c1 = dmem c" using assms(2,3) by (simp_all add: switch_sp_eq set_defs)
  have sp: "xreg ?c2 SP = ksp - 256" using c1(1) by (simp add: timer_frame_facts)
  have f: "xreg (f d) SP = xreg d SP" "dmem (f d) (xreg d SP + 248) = dmem d (xreg d SP + 248)" for d
    using assms(1) by (simp_all add: keeps_frame_def)
  have "csrs (restore_ctx_additional (f ?c2)) SEPC = dmem c (ksp - 8)"
    using timer_frame_facts(2) [of l g ?c1] c1 f [of ?c2] sp by (simp add: restore_additional_keeps)
  moreover have "csrs (switch_sp d) SEPC = csrs d SEPC" for d by (simp add: switch_sp_eq set_defs)
  ultimately show ?thesis by (simp add: entry_additional_def timer_frame_def)
qed

theorem timer_loses_pc_witness: "csrs (entry_additional 0 0 (set_reg T0 99) demo_cpu) SEPC = 0"
proof -
  have "keeps_frame (set_reg T0 99)" by (auto simp: keeps_frame_def set_defs callee_saved_def)
  then show ?thesis using timer_loses_pc [of "set_reg T0 99" demo_cpu "0x9000" 0 0] by (simp add: demo_cpu_def)
qed

text \<open>On a trap taken within the first 8 KiB below the top of a hart's stack, the entry computes the
  thread pointer of that hart, the thread-local area just below the top of its stack.\<close>

lemma recalc_ptrs_correct:
  assumes "unat stk mod 8192 = 0" "0 < n" "n < 8192" "xreg c SP = stk - n"
  shows "xreg (recalc_ptrs tls_len gptr c) TP = stk - tls_len \<and> xreg (recalc_ptrs tls_len gptr c) GP = gptr"
  using round_up_stack [OF assms(1-3)] assms(4)
  by (simp add: recalc_ptrs_def Let_def set_defs)

lemma recalc_ptrs_correct_witness: "xreg (recalc_ptrs 0x100 5 (demo_cpu\<lparr>xreg := (\<lambda>r. 0x4100)\<rparr>)) TP = 0x5F00"
  using recalc_ptrs_correct [of "0x6000" "0x1F00" "demo_cpu\<lparr>xreg := (\<lambda>r. 0x4100)\<rparr>" "0x100" 5] by simp

text \<open>The external interrupt of supervisor mode has cause 9; its slot of the vector table hangs the
  hart, and the external handler sits in the slot of cause 6.\<close>

lemma exctable_external_hangs: "exctable ! 9 = start_hang \<and> exctable ! 6 = k_extirq \<and> length exctable = 16"
  by (simp add: exctable_def)

end
