(* ===== verification/Cxxabi.thy ===== *)
theory Cxxabi
  imports Abydos_Prelude
begin

text \<open>Model of \<^verbatim>\<open>kernel/main/k_cxxabi.cpp\<close>: the table of destructors. \<open>__cxa_finalize\<close> returns the calls
  it makes, in order, and the table it leaves; the functions called are not part of the file and
  are taken not to register further ones.\<close>

definition ATEXIT_MAX_FUNCS :: nat where "ATEXIT_MAX_FUNCS = 1024"

record atexit_func_entry_t =
  destructor_func :: u64
  obj_ptr :: u64
  dso_handle :: u64

record atexit_state =
  atexit_funcs :: "atexit_func_entry_t list"
  atexit_func_count :: nat

definition atexit_init :: atexit_state where
  "atexit_init = \<lparr>atexit_funcs = replicate ATEXIT_MAX_FUNCS \<lparr>destructor_func = 0, obj_ptr = 0, dso_handle = 0\<rparr>,
     atexit_func_count = 0\<rparr>"

definition cxa_atexit :: "u64 \<Rightarrow> u64 \<Rightarrow> u64 \<Rightarrow> atexit_state \<Rightarrow> int \<times> atexit_state" where
  "cxa_atexit f objptr dso s =
     (if atexit_func_count s \<ge> ATEXIT_MAX_FUNCS then (-1, s)
      else (0, s\<lparr>atexit_funcs := (atexit_funcs s)[atexit_func_count s :=
                   \<lparr>destructor_func = f, obj_ptr = objptr, dso_handle = dso\<rparr>],
                 atexit_func_count := atexit_func_count s + 1\<rparr>))"

text \<open>The two loops count \<open>i\<close> down from the number of entries.\<close>

fun finalize_all :: "atexit_func_entry_t list \<Rightarrow> nat \<Rightarrow> (u64 \<times> u64) list" where
  "finalize_all es 0 = []"
| "finalize_all es (Suc i) =
     (if destructor_func (es ! i) \<noteq> 0 then [(destructor_func (es ! i), obj_ptr (es ! i))] else []) @ finalize_all es i"

fun finalize_one :: "u64 \<Rightarrow> atexit_func_entry_t list \<Rightarrow> nat \<Rightarrow> (u64 \<times> u64) list \<times> atexit_func_entry_t list" where
  "finalize_one f es 0 = ([], es)"
| "finalize_one f es (Suc i) =
     (if destructor_func (es ! i) = f then
        (let (calls, es') = finalize_one f (es[i := (es ! i)\<lparr>destructor_func := 0\<rparr>]) i in
         ((f, obj_ptr (es ! i)) # calls, es'))
      else finalize_one f es i)"

definition cxa_finalize :: "u64 \<Rightarrow> atexit_state \<Rightarrow> (u64 \<times> u64) list \<times> atexit_state" where
  "cxa_finalize f s =
     (if f = 0 then (finalize_all (atexit_funcs s) (atexit_func_count s), s)
      else (let (calls, es) = finalize_one f (atexit_funcs s) (atexit_func_count s) in
            (calls, s\<lparr>atexit_funcs := es\<rparr>)))"

section \<open>The table\<close>

definition atexit_inv :: "atexit_state \<Rightarrow> bool" where
  "atexit_inv s \<longleftrightarrow> length (atexit_funcs s) = ATEXIT_MAX_FUNCS \<and> atexit_func_count s \<le> ATEXIT_MAX_FUNCS"

text \<open>The registrations the table holds, in the order they were made.\<close>

definition registered :: "atexit_state \<Rightarrow> (u64 \<times> u64) list" where
  "registered s = map (\<lambda>e. (destructor_func e, obj_ptr e)) (take (atexit_func_count s) (atexit_funcs s))"

lemma atexit_inv_init: "atexit_inv atexit_init" "registered atexit_init = []" "atexit_func_count atexit_init = 0"
  by (simp_all add: atexit_inv_def atexit_init_def registered_def)

lemma cxa_atexit_inv: "atexit_inv s \<Longrightarrow> atexit_inv (snd (cxa_atexit f p d s))"
  by (auto simp: atexit_inv_def cxa_atexit_def)

lemma registered_atexit:
  assumes "atexit_inv s" "atexit_func_count s < ATEXIT_MAX_FUNCS"
  shows "cxa_atexit f p d s = (0, snd (cxa_atexit f p d s))"
    "registered (snd (cxa_atexit f p d s)) = registered s @ [(f, p)]"
    "atexit_func_count (snd (cxa_atexit f p d s)) = Suc (atexit_func_count s)"
  using assms by (auto simp: atexit_inv_def cxa_atexit_def registered_def take_Suc_conv_app_nth)

lemma finalize_all_rev:
  "i \<le> length es \<Longrightarrow> finalize_all es i =
     rev (filter (\<lambda>c. fst c \<noteq> 0) (map (\<lambda>e. (destructor_func e, obj_ptr e)) (take i es)))"
  by (induction i) (auto simp: take_Suc_conv_app_nth)

lemma finalize_registered: "atexit_inv s \<Longrightarrow> fst (cxa_finalize 0 s) = rev (filter (\<lambda>c. fst c \<noteq> 0) (registered s))"
  by (simp add: cxa_finalize_def finalize_all_rev atexit_inv_def registered_def)

lemma finalize_one_table:
  "snd (finalize_one f es i) = map (\<lambda>e. if destructor_func e = f then e\<lparr>destructor_func := 0\<rparr> else e) (take i es) @ drop i es"
  if "i \<le> length es" "f \<noteq> 0" for i
  using that(1)
proof (induction i arbitrary: es)
  case (Suc i)
  then have i: "i < length es" by simp
  have t: "take (Suc i) es = take i es @ [es ! i]" "drop i es = es ! i # drop (Suc i) es"
    using i by (simp_all add: take_Suc_conv_app_nth Cons_nth_drop_Suc)
  show ?case using Suc.IH [of es] Suc.IH [of "es[i := (es ! i)\<lparr>destructor_func := 0\<rparr>]"] i t
    by (simp add: Let_def case_prod_unfold upd_conv_take_nth_drop)
qed simp

lemma finalize_one_calls:
  "i \<le> length es \<Longrightarrow> f \<noteq> 0 \<Longrightarrow> fst (finalize_one f es i) =
     rev (filter (\<lambda>c. fst c = f) (map (\<lambda>e. (destructor_func e, obj_ptr e)) (take i es)))"
proof (induction i arbitrary: es)
  case (Suc i)
  then have "i < length es" by simp
  then show ?case using Suc.IH [of es] Suc.IH [of "es[i := (es ! i)\<lparr>destructor_func := 0\<rparr>]"] Suc.prems
    by (simp add: take_Suc_conv_app_nth Let_def case_prod_unfold)
qed simp

section \<open>Properties\<close>

text \<open>A list of registrations made one after the other.\<close>

definition register :: "(u64 \<times> u64) list \<Rightarrow> atexit_state \<Rightarrow> atexit_state" where
  "register rs s = fold (\<lambda>(f, p) s. snd (cxa_atexit f p 0 s)) rs s"

lemma register_facts:
  "atexit_inv s \<Longrightarrow> atexit_func_count s + length rs \<le> ATEXIT_MAX_FUNCS \<Longrightarrow>
     atexit_inv (register rs s) \<and> registered (register rs s) = registered s @ rs \<and>
     atexit_func_count (register rs s) = atexit_func_count s + length rs"
proof (induction rs arbitrary: s)
  case (Cons r rs)
  obtain f p where r: "r = (f, p)" by force
  have a: "atexit_func_count s < ATEXIT_MAX_FUNCS" using Cons.prems by simp
  note n = registered_atexit [OF Cons.prems(1) a, of f p 0]
  show ?case using Cons.IH [of "snd (cxa_atexit f p 0 s)"] cxa_atexit_inv [OF Cons.prems(1)] n Cons.prems(2)
    by (simp add: register_def r)
qed (simp add: register_def)

text \<open>C33: The destructors of at most 1024 registrations run in the opposite order of their
  registration, each on its object, when everything is destroyed at the end.\<close>

theorem cxa_finalize_reverse:
  assumes "length rs \<le> ATEXIT_MAX_FUNCS" "\<forall>r\<in>set rs. fst r \<noteq> 0"
  shows "fst (cxa_finalize 0 (register rs atexit_init)) = rev rs"
proof -
  have r: "atexit_inv (register rs atexit_init)" "registered (register rs atexit_init) = rs"
    using register_facts [OF atexit_inv_init(1), of rs] assms(1) by (simp_all add: atexit_inv_init)
  then have "fst (cxa_finalize 0 (register rs atexit_init)) = rev (filter (\<lambda>c. fst c \<noteq> 0) rs)"
    using finalize_registered by simp
  also have "filter (\<lambda>c. fst c \<noteq> 0) rs = rs" using assms(2) by (simp add: filter_id_conv)
  finally show ?thesis .
qed

theorem cxa_finalize_reverse_witness:
  "fst (cxa_finalize 0 (register [(1, 10), (2, 20), (1, 30)] atexit_init)) = [(1, 30), (2, 20), (1, 10)]"
  using cxa_finalize_reverse [of "[(1, 10), (2, 20), (1, 30)]"] by (simp add: ATEXIT_MAX_FUNCS_def)

text \<open>Destroying one function runs exactly its registrations, the latest first, and forgets them:
  asking again runs nothing. The table refuses the 1025th registration with -1.\<close>

lemma cxa_finalize_once:
  assumes "atexit_inv s" "f \<noteq> 0" "cxa_finalize f s = (calls, s')"
  shows "calls = rev (filter (\<lambda>c. fst c = f) (registered s)) \<and> fst (cxa_finalize f s') = [] \<and>
    atexit_inv s' \<and> (atexit_func_count s = ATEXIT_MAX_FUNCS \<longrightarrow> cxa_atexit g p d s' = (-1, s'))"
proof -
  let ?n = "atexit_func_count s" and ?es = "atexit_funcs s"
  have n: "?n \<le> length ?es" using assms(1) by (simp add: atexit_inv_def)
  have c: "calls = fst (finalize_one f ?es ?n)" "s' = s\<lparr>atexit_funcs := snd (finalize_one f ?es ?n)\<rparr>"
    using assms(2,3) by (auto simp: cxa_finalize_def case_prod_unfold Let_def)
  let ?clear = "\<lambda>e. if destructor_func e = f then e\<lparr>destructor_func := 0\<rparr> else e"
  have es': "atexit_funcs s' = map ?clear (take ?n ?es) @ drop ?n ?es"
    using c finalize_one_table [OF n assms(2)] by simp
  have "take ?n (atexit_funcs s') = map ?clear (take ?n ?es)" using n by (simp add: es')
  then have "fst (cxa_finalize f s') = []"
    using assms(2) c n es'
    by (simp add: cxa_finalize_def case_prod_unfold Let_def finalize_one_calls)
  moreover have "calls = rev (filter (\<lambda>c. fst c = f) (registered s))"
    using c n assms(2) by (simp add: finalize_one_calls registered_def)
  moreover have "atexit_inv s'" using assms(1) es' c n by (simp add: atexit_inv_def)
  ultimately show ?thesis using c by (simp add: cxa_atexit_def)
qed

lemma cxa_finalize_once_witness:
  "fst (cxa_finalize 1 (snd (cxa_finalize 1 (register [(1, 10), (2, 20), (1, 30)] atexit_init)))) = []"
proof -
  have "atexit_inv (register [(1, 10), (2, 20), (1, 30)] atexit_init)"
    using register_facts [OF atexit_inv_init(1), of "[(1, 10), (2, 20), (1, 30)]"]
    by (simp add: atexit_inv_init ATEXIT_MAX_FUNCS_def)
  then show ?thesis
    using cxa_finalize_once [of "register [(1, 10), (2, 20), (1, 30)] atexit_init" 1] by (metis prod.collapse zero_neq_one)
qed

text \<open>Destroying everything forgets nothing: a second request runs every destructor again.\<close>

lemma cxa_finalize_all_repeats:
  "cxa_finalize 0 (snd (cxa_finalize 0 s)) = cxa_finalize 0 s"
  by (simp add: cxa_finalize_def)

end
