(* ===== verification/Cpio.thy ===== *)
theory Cpio
  imports Bytes
begin

text \<open>Model of \<^verbatim>\<open>deps/libcpio/libcpio.c\<close>: reading an archive in the ``new ASCII'' format. The archive
  is in a block of memory; a read outside it is \<^const>\<open>None\<close>, and the null pointer is the
  \<^const>\<open>None\<close> inside. The writer of the format, against which the reader is proved, is defined below
  it.\<close>

section \<open>The reader\<close>

definition CPIO_HEADER_MAGIC :: "u8 list" where "CPIO_HEADER_MAGIC = [0x30, 0x37, 0x30, 0x37, 0x30, 0x31]"

definition CPIO_FOOTER_MAGIC :: "u8 list" where
  "CPIO_FOOTER_MAGIC = [0x54, 0x52, 0x41, 0x49, 0x4C, 0x45, 0x52, 0x21, 0x21, 0x21]"

definition CPIO_ALIGNMENT :: nat where "CPIO_ALIGNMENT = 4"

text \<open>\<open>sizeof (struct cpio_header)\<close> and the offsets of the two fields the reader uses.\<close>

definition cpio_header :: nat where "cpio_header = 110"
definition c_filesize :: nat where "c_filesize = 54"
definition c_namesize :: nat where "c_namesize = 94"

record cpio_header_info =
  filename :: nat
  filesize :: nat
  fdata :: nat
  fnext :: nat

text \<open>\<open>(n + align - 1) & ~(align - 1)\<close> for an alignment that is a power of two.\<close>

definition align_up :: "nat \<Rightarrow> nat \<Rightarrow> nat" where
  "align_up n align = (n + align - 1) div align * align"

definition hexval :: "u8 \<Rightarrow> nat option" where
  "hexval c =
     (if 0x30 \<le> c \<and> c \<le> 0x39 then Some (unat c - 0x30)
      else if 0x61 \<le> c \<and> c \<le> 0x66 then Some (unat c - 0x61 + 10)
      else if 0x41 \<le> c \<and> c \<le> 0x46 then Some (unat c - 0x41 + 10)
      else None)"

fun hex_loop :: "bmem \<Rightarrow> nat \<Rightarrow> nat \<Rightarrow> nat \<Rightarrow> nat option" where
  "hex_loop m s 0 r = Some r"
| "hex_loop m s (Suc n) r = do {
     c \<leftarrow> rd8 m s;
     (case hexval c of Some d \<Rightarrow> hex_loop m (Suc s) n (r * 16 + d) | None \<Rightarrow> Some (r * 16))
   }"

definition parse_hex_str :: "bmem \<Rightarrow> nat \<Rightarrow> nat \<Rightarrow> nat option" where
  "parse_hex_str m s max_len = hex_loop m s max_len 0"

text \<open>The second string is a constant of the caller, its terminating zero is the end of the list.\<close>

fun cpio_strncmp :: "bmem \<Rightarrow> nat \<Rightarrow> u8 list \<Rightarrow> nat \<Rightarrow> int option" where
  "cpio_strncmp m a [] n =
     (if n = 0 then Some 0 else do { c \<leftarrow> rd8 m a; Some (int (unat c)) })"
| "cpio_strncmp m a (b # bs) n =
     (if n = 0 then Some 0
      else do {
        c \<leftarrow> rd8 m a;
        if c \<noteq> b then Some (int (unat c) - int (unat b))
        else if c = 0 then Some 0
        else cpio_strncmp m (Suc a) bs (n - 1)
      })"

definition cpio_len_next :: "nat \<Rightarrow> nat \<Rightarrow> nat \<Rightarrow> nat" where
  "cpio_len_next len prev nxt = (if len < nxt - prev then 0 else len)"

definition cpio_parse_header :: "bmem \<Rightarrow> nat \<Rightarrow> nat \<Rightarrow> (int \<times> cpio_header_info option) option" where
  "cpio_parse_header m archive len =
     (if len < cpio_header then Some (-1, None)
      else do {
        cmp \<leftarrow> cpio_strncmp m archive CPIO_HEADER_MAGIC 6;
        if cmp \<noteq> 0 then Some (-1, None)
        else do {
          fsize \<leftarrow> parse_hex_str m (archive + c_filesize) 8;
          filename_length \<leftarrow> parse_hex_str m (archive + c_namesize) 8;
          if len < cpio_header + filename_length + fsize then Some (-1, None)
          else do {
            let fname = archive + cpio_header;
            last \<leftarrow> rd8 m (fname + filename_length - 1);
            if last \<noteq> 0 then Some (-1, None)
            else do {
              eof \<leftarrow> (if filename_length \<ge> 11 then map_option (\<lambda>c. c = 0) (cpio_strncmp m fname CPIO_FOOTER_MAGIC 11)
                     else Some False);
              if eof then Some (1, None)
              else do {
                let data = align_up (archive + cpio_header + filename_length) CPIO_ALIGNMENT;
                let nxt = align_up (data + fsize) CPIO_ALIGNMENT;
                Some (0, Some \<lparr>filename = fname, filesize = fsize, fdata = data, fnext = nxt\<rparr>)
              }
            }
          }
        }
      })"

lemma align_up_ge: "n \<le> align_up n 4"
  by (simp add: align_up_def)

text \<open>A header that is accepted lies in the block and the next one behind it.\<close>

lemma parse_header_next:
  assumes "cpio_parse_header m h len = Some (0, Some info)"
  shows "h < fst m + length (snd m) \<and> h + 110 \<le> fnext info"
proof -
  obtain c n f where "cpio_strncmp m h CPIO_HEADER_MAGIC 6 = Some c" and
    i: "fnext info = align_up (align_up (h + 110 + n) 4 + f) 4"
    using assms by (auto simp: cpio_parse_header_def cpio_header_def CPIO_ALIGNMENT_def Let_def split: if_splits bind_splits)
  then have "\<exists>x. rd8 m h = Some x" by (auto simp: CPIO_HEADER_MAGIC_def split: bind_splits)
  moreover have "h + 110 \<le> fnext info"
    using align_up_ge [of "h + 110 + n"] align_up_ge [of "align_up (h + 110 + n) 4 + f"] i by linarith
  ultimately show ?thesis using rd8_bound by blast
qed

text \<open>The \<open>for\<close> loop of \<open>cpio_get_entry\<close>: \<open>i\<close> and \<open>n\<close> are of type \<open>int\<close>, and counting \<open>i\<close> beyond the largest
  of them is undefined. The last header read is the answer; a negative \<open>n\<close> makes no round and
  answers what the local variable \<open>header_info\<close> happens to hold, the parameter \<open>junk\<close>.\<close>

function cpio_entry_loop ::
  "bmem \<Rightarrow> nat \<Rightarrow> nat \<Rightarrow> int \<Rightarrow> int \<Rightarrow> cpio_header_info \<Rightarrow> cpio_header_info option option" where
  "cpio_entry_loop m header len i n info =
     (if i \<le> n then do {
        (err, r) \<leftarrow> cpio_parse_header m header len;
        (case r of
           None \<Rightarrow> Some None
         | Some info' \<Rightarrow>
             if i = 2 ^ 31 - 1 then None
             else cpio_entry_loop m (fnext info') (cpio_len_next len header (fnext info')) (i + 1) n info')
      }
      else Some (Some info))"
  by pat_completeness auto
termination
  by (relation "measure (\<lambda>(m, header, len, i, n, info). nat (n + 1 - i))") auto

declare cpio_entry_loop.simps [simp del]

definition cpio_get_entry ::
  "cpio_header_info \<Rightarrow> bmem \<Rightarrow> nat \<Rightarrow> nat \<Rightarrow> int \<Rightarrow> cpio_header_info option option" where
  "cpio_get_entry junk m archive len n = cpio_entry_loop m archive len 0 n junk"

function cpio_get_file :: "bmem \<Rightarrow> nat \<Rightarrow> nat \<Rightarrow> u8 list \<Rightarrow> cpio_header_info option option" where
  "cpio_get_file m header len name = do {
     r \<leftarrow> cpio_parse_header m header len;
     (case r of
        (err, Some i) \<Rightarrow>
          if err \<noteq> 0 then Some None
          else do {
            c \<leftarrow> cpio_strncmp m (filename i) name (2 ^ 64 - 1);
            if c = 0 then Some (Some i)
            else cpio_get_file m (fnext i) (cpio_len_next len header (fnext i)) name
          }
      | (err, None) \<Rightarrow> Some None)
   }"
  by pat_completeness auto
termination
  by (relation "measure (\<lambda>(m, header, len, name). fst m + length (snd m) - header)")
    (auto dest!: parse_header_next)

declare cpio_get_file.simps [simp del]

text \<open>The length is answered as an \<open>unsigned int\<close>.\<close>

definition cpio_strlen :: "bmem \<Rightarrow> nat \<Rightarrow> 32 word option" where
  "cpio_strlen m str = map_option (\<lambda>s. of_nat (length s)) (cstr m str)"

text \<open>The copy writes the characters over the beginning of the buffer, and no terminating zero; a
  string longer than the buffer is written past its end.\<close>

definition cpio_strcpy :: "bmem \<Rightarrow> u8 list \<Rightarrow> nat \<Rightarrow> u8 list option" where
  "cpio_strcpy m to from = do {
     cs \<leftarrow> cstr m from;
     if length cs \<le> length to then Some (cs @ drop (length cs) to) else None
   }"

text \<open>The two fields of \<open>struct cpio_info\<close> are \<open>unsigned int\<close>.\<close>

function cpio_info_loop :: "bmem \<Rightarrow> nat \<Rightarrow> nat \<Rightarrow> 32 word \<Rightarrow> 32 word \<Rightarrow> (int \<times> 32 word \<times> 32 word) option" where
  "cpio_info_loop m header len file_count max_path_sz = do {
     r \<leftarrow> cpio_parse_header m header len;
     (case r of
        (err, Some i) \<Rightarrow>
          if err \<noteq> 0 then Some (err, file_count, max_path_sz)
          else do {
            current_path_sz \<leftarrow> cpio_strlen m (filename i);
            cpio_info_loop m (fnext i) (cpio_len_next len header (fnext i)) (file_count + 1)
              (if current_path_sz > max_path_sz then current_path_sz else max_path_sz)
          }
      | (err, None) \<Rightarrow> Some (if err = 1 then 0 else err, file_count, max_path_sz))
   }"
  by pat_completeness auto
termination
  by (relation "measure (\<lambda>(m, header, len, c, x). fst m + length (snd m) - header)")
    (auto dest!: parse_header_next)

declare cpio_info_loop.simps [simp del]

definition cpio_info :: "bmem \<Rightarrow> nat \<Rightarrow> nat \<Rightarrow> (int \<times> 32 word \<times> 32 word) option" where
  "cpio_info m archive len = cpio_info_loop m archive len 0 0"

fun cpio_ls :: "bmem \<Rightarrow> nat \<Rightarrow> nat \<Rightarrow> u8 list list \<Rightarrow> u8 list list option" where
  "cpio_ls m header len [] = Some []"
| "cpio_ls m header len (buf # bufs) = do {
     r \<leftarrow> cpio_parse_header m header len;
     (case r of
        (err, None) \<Rightarrow> Some (buf # bufs)
      | (err, Some i) \<Rightarrow> do {
          buf' \<leftarrow> cpio_strcpy m buf (filename i);
          bufs' \<leftarrow> cpio_ls m (fnext i) (cpio_len_next len header (fnext i)) bufs;
          Some (buf' # bufs')
        })
   }"

section \<open>The format\<close>

text \<open>An entry: the metadata between the magic number and the file size, between the sizes, and
  after the name size; the name, without its zero; and the contents.\<close>

record cfile =
  cf_meta1 :: "u8 list"
  cf_meta2 :: "u8 list"
  cf_check :: "u8 list"
  cf_name :: "u8 list"
  cf_data :: "u8 list"

definition hexdig :: "nat \<Rightarrow> u8" where
  "hexdig d = (if d < 10 then of_nat (0x30 + d) else of_nat (0x61 + d - 10))"

fun hexdigs :: "nat \<Rightarrow> nat \<Rightarrow> u8 list" where
  "hexdigs 0 n = []"
| "hexdigs (Suc k) n = hexdigs k (n div 16) @ [hexdig (n mod 16)]"

definition pad4 :: "nat \<Rightarrow> u8 list" where
  "pad4 n = replicate (align_up n 4 - n) 0"

definition entry_head :: "cfile \<Rightarrow> u8 list" where
  "entry_head f = CPIO_HEADER_MAGIC @ cf_meta1 f @ hexdigs 8 (length (cf_data f)) @ cf_meta2 f @
     hexdigs 8 (length (cf_name f) + 1) @ cf_check f"

definition entry_bytes :: "cfile \<Rightarrow> u8 list" where
  "entry_bytes f = entry_head f @ cf_name f @ [0] @ pad4 (110 + length (cf_name f) + 1) @
     cf_data f @ pad4 (length (cf_data f))"

definition file_ok :: "cfile \<Rightarrow> bool" where
  "file_ok f \<longleftrightarrow> length (cf_meta1 f) = 48 \<and> length (cf_meta2 f) = 32 \<and> length (cf_check f) = 8 \<and>
     0 \<notin> set (cf_name f) \<and> length (cf_name f) + 1 < 2 ^ 32 \<and> length (cf_data f) < 2 ^ 32"

definition trailer :: cfile where
  "trailer = \<lparr>cf_meta1 = replicate 48 0x30, cf_meta2 = replicate 32 0x30, cf_check = replicate 8 0x30,
     cf_name = CPIO_FOOTER_MAGIC, cf_data = []\<rparr>"

definition archive_bytes :: "cfile list \<Rightarrow> u8 list" where
  "archive_bytes fs = concat (map entry_bytes fs) @ entry_bytes trailer"

section \<open>Reading what the format holds\<close>

lemma hexval_hexdig: "d < 16 \<Longrightarrow> hexval (hexdig d) = Some d"
proof -
  have "\<forall>d\<in>set [0..<16]. hexval (hexdig d) = Some d" by (simp add: upt_conv_Cons hexval_def hexdig_def)
  then show "d < 16 \<Longrightarrow> hexval (hexdig d) = Some d" by simp
qed

lemma length_hexdigs [simp]: "length (hexdigs k n) = k"
  by (induction k arbitrary: n) simp_all

lemma hex_loop_append:
  "hex_loop m s (length ds + k) r = hex_loop m (s + length ds) k (foldl (\<lambda>r d. r * 16 + d) r ds)"
  if "at m s (map hexdig ds)" "\<forall>d\<in>set ds. d < 16"
  using that
proof (induction ds arbitrary: s r)
  case (Cons d ds)
  then have c: "rd8 m s = Some (hexdig d)" "hexval (hexdig d) = Some d" and t: "at m (Suc s) (map hexdig ds)" "\<forall>d\<in>set ds. d < 16"
    by (auto simp: at_simps hexval_hexdig)
  show ?case using Cons.IH [OF t] by (simp add: c)
qed simp

fun digs :: "nat \<Rightarrow> nat \<Rightarrow> nat list" where
  "digs 0 n = []"
| "digs (Suc k) n = digs k (n div 16) @ [n mod 16]"

lemma hexdigs_digs: "hexdigs k n = map hexdig (digs k n)" "length (digs k n) = k" "\<forall>d\<in>set (digs k n). d < 16"
  by (induction k arbitrary: n) auto

lemma foldl_digs: "n < 16 ^ k \<Longrightarrow> foldl (\<lambda>r d. r * 16 + d) 0 (digs k n) = n"
proof (induction k arbitrary: n)
  case (Suc k)
  then have "n div 16 < 16 ^ k" by (simp add: less_mult_imp_div_less mult.commute)
  then show ?case using Suc.IH by simp
qed simp

lemma parse_hex_digits: "at m s (hexdigs k n) \<Longrightarrow> n < 16 ^ k \<Longrightarrow> parse_hex_str m s k = Some n"
  using hex_loop_append [of m s "digs k n" 0 0] hexdigs_digs [of k n] foldl_digs [of n k]
  by (simp add: parse_hex_str_def)

lemma strncmp_eq:
  "at m a (name @ [0]) \<Longrightarrow> 0 \<notin> set name \<Longrightarrow> 0 \<notin> set bs \<Longrightarrow> length bs < n \<Longrightarrow>
     \<exists>c. cpio_strncmp m a bs n = Some c \<and> (c = 0 \<longleftrightarrow> name = bs)"
proof (induction bs arbitrary: a name n)
  case Nil
  then show ?case by (cases name) (auto simp: at_simps unat_eq_zero uint_0_iff)
next
  case (Cons b bs)
  show ?case
  proof (cases name)
    case Nil
    then show ?thesis using Cons.prems by (auto simp: at_simps unat_eq_zero uint_0_iff)
  next
    case (Cons x xs)
    note c = Cons
    show ?thesis
    proof (cases "x = b")
      case True
      obtain r where "cpio_strncmp m (Suc a) bs (n - 1) = Some r" "r = 0 \<longleftrightarrow> xs = bs"
        using Cons.IH [of "Suc a" xs "n - 1"] Cons.prems c by (auto simp: at_simps less_diff_conv)
      then show ?thesis using True c Cons.prems by (auto simp: at_simps)
    next
      case False
      then show ?thesis using c Cons.prems by (auto simp: at_simps simp flip: word_uint_eq_iff)
    qed
  qed
qed

lemma strncmp_prefix:
  "at m a bs \<Longrightarrow> 0 \<notin> set bs \<Longrightarrow> cpio_strncmp m a bs (length bs) = Some 0"
  by (induction bs arbitrary: a) (auto simp: at_simps)

lemma align_up_mult: "a mod 4 = 0 \<Longrightarrow> align_up (a + n) 4 = a + align_up n 4"
proof -
  assume "a mod 4 = 0"
  then show ?thesis unfolding align_up_def by presburger
qed

lemma length_entry_head [simp]: "file_ok f \<Longrightarrow> length (entry_head f) = 110"
  by (simp add: entry_head_def file_ok_def CPIO_HEADER_MAGIC_def)

lemma align_up_mod [simp]: "align_up n 4 mod 4 = 0"
  by (simp add: align_up_def)

lemma length_entry:
  "file_ok f \<Longrightarrow> length (entry_bytes f) = align_up (110 + length (cf_name f) + 1) 4 + align_up (length (cf_data f)) 4"
  using align_up_ge [of "110 + length (cf_name f) + 1"] align_up_ge [of "length (cf_data f)"]
  by (simp add: entry_bytes_def pad4_def)

text \<open>What \<open>cpio_parse_header\<close> finds in an entry at an aligned address.\<close>

definition entry_info :: "nat \<Rightarrow> cfile \<Rightarrow> cpio_header_info" where
  "entry_info h f = \<lparr>filename = h + 110, filesize = length (cf_data f),
     fdata = h + align_up (110 + length (cf_name f) + 1) 4, fnext = h + length (entry_bytes f)\<rparr>"

lemma parse_entry:
  assumes ok: "file_ok f" and e: "at m h (entry_bytes f)" and h: "h mod 4 = 0" and len: "length (entry_bytes f) \<le> len"
  shows "cpio_parse_header m h len =
    Some (if cf_name f = CPIO_FOOTER_MAGIC then (1, None) else (0, Some (entry_info h f)))"
proof -
  let ?nl = "length (cf_name f) + 1" and ?dl = "length (cf_data f)"
  have parts: "at m h CPIO_HEADER_MAGIC" "at m (h + 54) (hexdigs 8 ?dl)" "at m (h + 94) (hexdigs 8 ?nl)"
    "at m (h + 110) (cf_name f @ [0])"
    using e ok by (auto simp: entry_bytes_def entry_head_def at_simps file_ok_def CPIO_HEADER_MAGIC_def ac_simps)
  have z: "0 \<notin> set CPIO_HEADER_MAGIC" "length CPIO_HEADER_MAGIC = 6" "0 \<notin> set CPIO_FOOTER_MAGIC" "length CPIO_FOOTER_MAGIC = 10"
    by (simp_all add: CPIO_HEADER_MAGIC_def CPIO_FOOTER_MAGIC_def)
  have magic: "cpio_strncmp m h CPIO_HEADER_MAGIC 6 = Some 0" using strncmp_prefix [OF parts(1) z(1)] z(2) by simp
  have sizes: "parse_hex_str m (h + 54) 8 = Some ?dl" "parse_hex_str m (h + 94) 8 = Some ?nl"
    using parts ok by (auto simp: file_ok_def intro!: parse_hex_digits)
  have last: "rd8 m (h + 110 + ?nl - 1) = Some 0" using parts(4) by (simp add: at_simps ac_simps)
  obtain c where c: "cpio_strncmp m (h + 110) CPIO_FOOTER_MAGIC 11 = Some c" "c = 0 \<longleftrightarrow> cf_name f = CPIO_FOOTER_MAGIC"
    using strncmp_eq [OF parts(4), of CPIO_FOOTER_MAGIC 11] ok z by (auto simp: file_ok_def)
  have l: "cpio_header \<le> len" "cpio_header + ?nl + ?dl \<le> len"
    using len length_entry [OF ok] align_up_ge [of "110 + ?nl"] align_up_ge [of ?dl] by (simp_all add: cpio_header_def)
  have al: "align_up (h + 110 + ?nl) 4 = h + align_up (110 + ?nl) 4"
    "align_up (h + align_up (110 + ?nl) 4 + ?dl) 4 = h + length (entry_bytes f)"
    using align_up_mult [OF h, of "110 + ?nl"] align_up_mult [of "h + align_up (110 + ?nl) 4" ?dl] h length_entry [OF ok]
    by (simp_all add: ac_simps mod_add_eq [symmetric])
  have eof: "(if ?nl \<ge> 11 then map_option (\<lambda>c. c = 0) (cpio_strncmp m (h + 110) CPIO_FOOTER_MAGIC 11) else Some False)
      = Some (cf_name f = CPIO_FOOTER_MAGIC)"
    using c z(4) by auto
  define nl where "nl = ?nl"
  note defs = cpio_header_def c_filesize_def c_namesize_def CPIO_ALIGNMENT_def nl_def
  have F: "\<not> len < cpio_header" "\<not> len < cpio_header + nl + ?dl"
    "parse_hex_str m (h + c_filesize) 8 = Some ?dl" "parse_hex_str m (h + c_namesize) 8 = Some nl"
    "rd8 m (h + cpio_header + nl - 1) = Some 0"
    "(if nl \<ge> 11 then map_option (\<lambda>c. c = 0) (cpio_strncmp m (h + cpio_header) CPIO_FOOTER_MAGIC 11) else Some False)
      = Some (cf_name f = CPIO_FOOTER_MAGIC)"
    "align_up (h + cpio_header + nl) CPIO_ALIGNMENT = h + align_up (110 + ?nl) 4"
    "align_up (h + align_up (110 + ?nl) 4 + ?dl) CPIO_ALIGNMENT = h + length (entry_bytes f)"
    using l sizes last eof al unfolding defs by (simp_all only: not_less add.assoc)
  show ?thesis
    unfolding cpio_parse_header_def Let_def
    by (simp add: F magic entry_info_def del: One_nat_def) (use F(8) in \<open>simp add: cpio_header_def\<close>)
qed

section \<open>Whole archives\<close>

definition files_ok :: "cfile list \<Rightarrow> bool" where
  "files_ok fs \<longleftrightarrow> (\<forall>f\<in>set fs. file_ok f \<and> cf_name f \<noteq> CPIO_FOOTER_MAGIC)"

lemma trailer_ok: "file_ok trailer"
  by (simp add: file_ok_def trailer_def CPIO_FOOTER_MAGIC_def)

lemma length_entry_mod: "file_ok f \<Longrightarrow> length (entry_bytes f) mod 4 = 0"
  by (simp add: length_entry) (metis align_up_mod mod_add_eq add_0 mod_0)

lemma archive_Cons: "archive_bytes (f # fs) = entry_bytes f @ archive_bytes fs"
  by (simp add: archive_bytes_def)

text \<open>The reader stands at the first of the entries \<open>fs\<close>.\<close>

definition reading :: "bmem \<Rightarrow> nat \<Rightarrow> nat \<Rightarrow> cfile list \<Rightarrow> bool" where
  "reading m h len fs \<longleftrightarrow> files_ok fs \<and> at m h (archive_bytes fs) \<and> h mod 4 = 0 \<and> length (archive_bytes fs) \<le> len"

lemma reading_Nil: "reading m h len [] \<Longrightarrow> cpio_parse_header m h len = Some (1, None)"
  using parse_entry [OF trailer_ok, of m h len] by (simp add: reading_def archive_bytes_def trailer_def)

lemma reading_Cons:
  assumes "reading m h len (f # fs)"
  shows "cpio_parse_header m h len = Some (0, Some (entry_info h f))" "file_ok f"
    "reading m (fnext (entry_info h f)) (cpio_len_next len h (fnext (entry_info h f))) fs"
    "at m (h + 110) (cf_name f @ [0])" "at m (fdata (entry_info h f)) (cf_data f)"
    "fst m \<le> fdata (entry_info h f) \<and> fdata (entry_info h f) + length (cf_data f) \<le> fst m + length (snd m)"
proof -
  have r: "file_ok f" "cf_name f \<noteq> CPIO_FOOTER_MAGIC" "files_ok fs" "at m h (entry_bytes f)"
    "at m (h + length (entry_bytes f)) (archive_bytes fs)" "h mod 4 = 0"
    "length (entry_bytes f) + length (archive_bytes fs) \<le> len"
    using assms by (auto simp: reading_def files_ok_def archive_Cons at_simps)
  show "file_ok f" by (rule r)
  show "cpio_parse_header m h len = Some (0, Some (entry_info h f))"
    using parse_entry [OF r(1,4,6), of len] r(2,7) by simp
  show "reading m (fnext (entry_info h f)) (cpio_len_next len h (fnext (entry_info h f))) fs"
    using r length_entry_mod [OF r(1)]
    by (auto simp: reading_def entry_info_def cpio_len_next_def mod_add_eq [symmetric])
  have "entry_bytes f \<noteq> []" using length_entry [OF r(1)] align_up_ge [of "110 + length (cf_name f) + 1"] by auto
  from at_bounds [OF r(4) this]
  show "fst m \<le> fdata (entry_info h f) \<and> fdata (entry_info h f) + length (cf_data f) \<le> fst m + length (snd m)"
    using length_entry [OF r(1)] align_up_ge [of "length (cf_data f)"] by (simp add: entry_info_def)
  show "at m (h + 110) (cf_name f @ [0])"
    using r(1,4) by (simp add: entry_bytes_def at_simps ac_simps)
  have "length (pad4 (110 + length (cf_name f) + 1)) = align_up (110 + length (cf_name f) + 1) 4 - (110 + length (cf_name f) + 1)"
    by (simp add: pad4_def)
  then have "h + align_up (110 + length (cf_name f) + 1) 4 = h + length (entry_head f @ cf_name f @ [0] @ pad4 (110 + length (cf_name f) + 1))"
    using r(1) align_up_ge [of "110 + length (cf_name f) + 1"] by simp
  then show "at m (fdata (entry_info h f)) (cf_data f)"
    using r(4) by (simp add: entry_info_def entry_bytes_def at_simps ac_simps)
qed

lemma get_file_reading:
  "reading m h len fs \<Longrightarrow> 0 \<notin> set name \<Longrightarrow> length name < 2 ^ 64 - 1 \<Longrightarrow>
     case find (\<lambda>f. cf_name f = name) fs of
       None \<Rightarrow> cpio_get_file m h len name = Some None
     | Some f \<Rightarrow> \<exists>i. cpio_get_file m h len name = Some (Some i) \<and> filesize i = length (cf_data f) \<and> at m (fdata i) (cf_data f) \<and>
         fst m \<le> fdata i \<and> fdata i + length (cf_data f) \<le> fst m + length (snd m)"
proof (induction fs arbitrary: h len)
  case Nil
  then show ?case using reading_Nil by (simp add: cpio_get_file.simps)
next
  case (Cons f fs)
  note r = reading_Cons [OF Cons.prems(1)]
  have "0 \<notin> set (cf_name f)" using r(2) by (simp add: file_ok_def)
  then obtain c where c: "cpio_strncmp m (h + 110) name (2 ^ 64 - 1) = Some c" "c = 0 \<longleftrightarrow> cf_name f = name"
    using strncmp_eq [OF r(4) _ Cons.prems(2,3)] by blast
  have fn: "filename (entry_info h f) = h + 110" "filesize (entry_info h f) = length (cf_data f)" by (simp_all add: entry_info_def)
  show ?case
  proof (cases "cf_name f = name")
    case True
    then show ?thesis using c r(1,5,6) fn by (subst cpio_get_file.simps) simp
  next
    case False
    then have "cpio_get_file m h len name =
        cpio_get_file m (fnext (entry_info h f)) (cpio_len_next len h (fnext (entry_info h f))) name"
      using c r(1) fn by (subst cpio_get_file.simps) simp
    then show ?thesis using Cons.IH [OF r(3) Cons.prems(2,3)] False by (auto split: option.splits)
  qed
qed

lemma get_entry_reading:
  "reading m h len fs \<Longrightarrow> 0 \<le> i \<Longrightarrow> i \<le> n \<Longrightarrow> n < 2 ^ 31 \<Longrightarrow> i + int (length fs) < 2 ^ 31 \<Longrightarrow>
     if n - i < int (length fs) then
       \<exists>x. cpio_entry_loop m h len i n info = Some (Some x) \<and> at m (filename x) (cf_name (fs ! nat (n - i)) @ [0]) \<and>
         filesize x = length (cf_data (fs ! nat (n - i))) \<and> at m (fdata x) (cf_data (fs ! nat (n - i)))
     else cpio_entry_loop m h len i n info = Some None"
proof (induction fs arbitrary: h len i info)
  case Nil
  then show ?case using reading_Nil by (subst cpio_entry_loop.simps) simp
next
  case (Cons f fs)
  note r = reading_Cons [OF Cons.prems(1)]
  let ?x = "entry_info h f"
  have step: "cpio_entry_loop m h len i n info =
      cpio_entry_loop m (fnext ?x) (cpio_len_next len h (fnext ?x)) (i + 1) n ?x"
    using r(1) Cons.prems by (subst cpio_entry_loop.simps) simp
  show ?case
  proof (cases "n = i")
    case True
    then have "cpio_entry_loop m h len i n info = Some (Some ?x)"
      unfolding step by (subst cpio_entry_loop.simps) simp
    then show ?thesis using True r by (simp add: entry_info_def)
  next
    case False
    then have "nat (n - i) = Suc (nat (n - (i + 1)))" using Cons.prems by simp
    then show ?thesis unfolding step using Cons.IH [OF r(3), of "i + 1" ?x] Cons.prems False by simp
  qed
qed

lemma max_of_nat:
  assumes "a < 2 ^ 32" "b < 2 ^ 32"
  shows "(if (of_nat a :: 32 word) > of_nat b then (of_nat a :: 32 word) else of_nat b) = of_nat (max a b)"
  using assms by (auto simp: word_less_nat_alt unat_of_nat max_def)

lemma info_reading:
  "reading m h len fs \<Longrightarrow> x < 2 ^ 32 \<Longrightarrow> cpio_info_loop m h len c (of_nat x) =
     Some (0, c + of_nat (length fs), of_nat (fold max (map (\<lambda>f. length (cf_name f)) fs) x))"
proof (induction fs arbitrary: h len c x)
  case Nil
  then show ?case using reading_Nil by (simp add: cpio_info_loop.simps)
next
  case (Cons f fs)
  note r = reading_Cons [OF Cons.prems(1)]
  have l: "length (cf_name f) < 2 ^ 32" using r(2) by (simp add: file_ok_def)
  have "cpio_strlen m (filename (entry_info h f)) = Some (of_nat (length (cf_name f)))"
    using cstr_at [OF r(4)] r(2) by (simp add: cpio_strlen_def file_ok_def entry_info_def)
  then show ?case using r(1) Cons.IH [OF r(3), of "max (length (cf_name f)) x" "c + 1"] l Cons.prems(2)
    by (subst cpio_info_loop.simps) (simp add: max_of_nat [OF l Cons.prems(2)] add.assoc)
qed

lemma reading_archive:
  "files_ok fs \<Longrightarrow> base mod 4 = 0 \<Longrightarrow> reading (base, archive_bytes fs) base (length (archive_bytes fs)) fs"
  by (simp add: reading_def at_whole)

text \<open>An archive without a trailer: behind the last file the reader goes on past the block.\<close>

lemma entry_110: "file_ok f \<Longrightarrow> 110 \<le> length (entry_bytes f)"
  using length_entry [of f] align_up_ge [of "110 + length (cf_name f) + 1"] by simp

lemma get_file_cut:
  "files_ok fs \<Longrightarrow> at m h (concat (map entry_bytes fs)) \<Longrightarrow> h mod 4 = 0 \<Longrightarrow>
   h + length (concat (map entry_bytes fs)) = fst m + length (snd m) \<Longrightarrow>
   length (concat (map entry_bytes fs)) \<le> len \<Longrightarrow> 110 \<le> len \<Longrightarrow>
   0 \<notin> set name \<Longrightarrow> length name < 2 ^ 64 - 1 \<Longrightarrow> name \<notin> cf_name ` set fs \<Longrightarrow> cpio_get_file m h len name = None"
proof (induction fs arbitrary: h)
  case Nil
  then have "cpio_parse_header m h len = None"
    by (cases m) (simp add: cpio_parse_header_def cpio_header_def CPIO_HEADER_MAGIC_def rd8_def)
  then show ?case by (simp add: cpio_get_file.simps)
next
  case (Cons f fs)
  have ok: "file_ok f" "cf_name f \<noteq> CPIO_FOOTER_MAGIC" "files_ok fs" and e: "at m h (entry_bytes f)"
    and t: "at m (h + length (entry_bytes f)) (concat (map entry_bytes fs))" and nm: "cf_name f \<noteq> name" "name \<notin> cf_name ` set fs"
    using Cons.prems by (auto simp: files_ok_def at_simps)
  have p: "cpio_parse_header m h len = Some (0, Some (entry_info h f))"
    using parse_entry [OF ok(1) e Cons.prems(3), of len] ok(2) Cons.prems(5) by simp
  have n: "at m (h + 110) (cf_name f @ [0])" using ok(1) e by (simp add: entry_bytes_def at_simps ac_simps)
  have "0 \<notin> set (cf_name f)" using ok(1) by (simp add: file_ok_def)
  then obtain c where c: "cpio_strncmp m (h + 110) name (2 ^ 64 - 1) = Some c" "c \<noteq> 0"
    using strncmp_eq [OF n _ Cons.prems(7,8)] nm by blast
  have "(h + length (entry_bytes f)) mod 4 = 0" using Cons.prems(3) length_entry_mod [OF ok(1)] by (simp add: mod_add_eq [symmetric])
  then have "cpio_get_file m (h + length (entry_bytes f)) len name = None"
    using Cons.prems by (intro Cons.IH [OF ok(3) t _ _ _ _ _ _ nm(2)]) simp_all
  then show ?case using p c Cons.prems(5)
    by (subst cpio_get_file.simps) (simp add: entry_info_def cpio_len_next_def)
qed

section \<open>Properties\<close>

text \<open>C9: In an archive written in the format, looking a name up never reads outside the archive and
  finds the first file of that name: the size answered is the length of its contents and the address
  answered is where its contents stand. A name the archive does not have gives the null pointer.\<close>

theorem cpio_get_file_correct:
  assumes "files_ok fs" "base mod 4 = 0" "0 \<notin> set name" "length name < 2 ^ 64 - 1"
  shows "case find (\<lambda>f. cf_name f = name) fs of
      None \<Rightarrow> cpio_get_file (base, archive_bytes fs) base (length (archive_bytes fs)) name = Some None
    | Some f \<Rightarrow> \<exists>i. cpio_get_file (base, archive_bytes fs) base (length (archive_bytes fs)) name = Some (Some i) \<and>
        filesize i = length (cf_data f) \<and> at (base, archive_bytes fs) (fdata i) (cf_data f)"
  using get_file_reading [OF reading_archive [OF assms(1,2)] assms(3,4)] by (auto split: option.splits)

definition demo_file :: cfile where
  "demo_file = trailer\<lparr>cf_name := [0x61, 0x62], cf_data := [1, 2, 3]\<rparr>"

lemma demo_file_ok: "files_ok [demo_file]"
  by (simp add: files_ok_def file_ok_def demo_file_def trailer_def CPIO_FOOTER_MAGIC_def)

theorem cpio_get_file_correct_witness:
  "\<exists>i. cpio_get_file (4096, archive_bytes [demo_file]) 4096 (length (archive_bytes [demo_file])) [0x61, 0x62] = Some (Some i) \<and>
     filesize i = 3"
  using cpio_get_file_correct [OF demo_file_ok, of 4096 "[0x61, 0x62]"] by (auto simp: demo_file_def)


definition demo_file2 :: cfile where
  "demo_file2 = trailer\<lparr>cf_name := [0x78], cf_data := [7]\<rparr>"

lemma demo_files_ok: "files_ok [demo_file, demo_file2]"
  by (simp add: files_ok_def file_ok_def demo_file_def demo_file2_def trailer_def CPIO_FOOTER_MAGIC_def)


text \<open>C35: The reader does not count down the bytes that are left: at the end of an archive of one or more
  files that was cut off behind the last of them, looking up a name that none of them has reads
  beyond the archive.\<close>

theorem cpio_truncated_overrun:
  assumes "files_ok fs" "fs \<noteq> []" "base mod 4 = 0" "0 \<notin> set name" "length name < 2 ^ 64 - 1"
    "name \<notin> cf_name ` set fs"
  shows "cpio_get_file (base, concat (map entry_bytes fs)) base (length (concat (map entry_bytes fs))) name = None"
proof -
  obtain f gs where fs: "fs = f # gs" using assms(2) by (cases fs) auto
  have "110 \<le> length (concat (map entry_bytes fs))" using entry_110 [of f] assms(1) by (simp add: fs files_ok_def)
  then show ?thesis using get_file_cut [OF assms(1) at_whole assms(3) _ _ _ assms(4-6)] by simp
qed

theorem cpio_truncated_overrun_witness:
  "cpio_get_file (4096, entry_bytes demo_file @ entry_bytes demo_file2) 4096
     (length (entry_bytes demo_file @ entry_bytes demo_file2)) [0x7A] = None"
  using cpio_truncated_overrun [OF demo_files_ok, of 4096 "[0x7A]"] by (simp add: demo_file_def demo_file2_def)

end
