(* ===== verification/Cpiofs.thy ===== *)
theory Cpiofs
  imports Cpio
begin

text \<open>Model of \<^verbatim>\<open>kernel/driver/fs/cpiofs.cpp\<close> and \<^verbatim>\<open>kernel/driver/fs/devfs.cpp\<close>, the two classes that
  implement \<open>BasicFS\<close>. Sizes and positions keep their 64 bits. A copy that reads outside the
  archive is \<^const>\<open>None\<close>.\<close>

section \<open>State\<close>

definition MAX_FILES :: nat where "MAX_FILES = 1024"

record fcb_t =
  used :: bool
  fcb_file :: nat
  fcb_size :: u64
  lpos :: u64

definition fcb_free :: fcb_t where
  "fcb_free = \<lparr>used = False, fcb_file = 0, fcb_size = 0, lpos = 0\<rparr>"

record cpiofs =
  cf_archive :: bmem
  cf_archive_len :: nat
  cf_fcb :: "fcb_t list"

section \<open>Operations\<close>

text \<open>\<open>memcpy\<close> out of a block of memory.\<close>

definition rd_block :: "bmem \<Rightarrow> nat \<Rightarrow> nat \<Rightarrow> u8 list option" where
  "rd_block m a n =
     (if n = 0 then Some []
      else if fst m \<le> a \<and> a + n \<le> fst m + length (snd m) then Some (take n (drop (a - fst m) (snd m))) else None)"

text \<open>The constructor; the inner \<^const>\<open>None\<close> is the exception. The copy of the archive is in a block
  the allocator places at \<open>nbase\<close>.\<close>

definition CPIOFS :: "bmem \<Rightarrow> nat \<Rightarrow> nat \<Rightarrow> nat \<Rightarrow> cpiofs option option" where
  "CPIOFS m archive len nbase = do {
     (rc, _, _) \<leftarrow> cpio_info m archive len;
     if rc \<noteq> 0 then Some None
     else do {
       bs \<leftarrow> rd_block m archive len;
       Some (Some \<lparr>cf_archive = (nbase, bs), cf_archive_len = len, cf_fcb = replicate MAX_FILES fcb_free\<rparr>)
     }
   }"

text \<open>The first unused control block.\<close>

fun free_fcb :: "fcb_t list \<Rightarrow> nat option" where
  "free_fcb [] = None"
| "free_fcb (b # bs) = (if \<not> used b then Some 0 else map_option Suc (free_fcb bs))"

definition cpiofs_open :: "u8 list \<Rightarrow> int \<Rightarrow> int \<Rightarrow> cpiofs \<Rightarrow> (int \<times> cpiofs) option" where
  "cpiofs_open path flags mode fs = do {
     r \<leftarrow> cpio_get_file (cf_archive fs) (fst (cf_archive fs)) (cf_archive_len fs) path;
     (case r of
        None \<Rightarrow> Some (K_ENOENT, fs)
      | Some i \<Rightarrow>
          (case free_fcb (cf_fcb fs) of
             None \<Rightarrow> Some (K_ENOMEM, fs)
           | Some k \<Rightarrow>
               Some (int k, fs\<lparr>cf_fcb := (cf_fcb fs)[k :=
                 \<lparr>used = True, fcb_file = fdata i, fcb_size = of_nat (filesize i), lpos = 0\<rparr>]\<rparr>)))
   }"

definition bad_fd :: "int \<Rightarrow> cpiofs \<Rightarrow> bool" where
  "bad_fd fd fs \<longleftrightarrow> fd \<ge> int MAX_FILES \<or> fd < 0 \<or> \<not> used (cf_fcb fs ! nat fd)"

definition cpiofs_close :: "int \<Rightarrow> cpiofs \<Rightarrow> int \<times> cpiofs" where
  "cpiofs_close fd fs =
     (if bad_fd fd fs then (K_ENOENT, fs)
      else (K_OK, fs\<lparr>cf_fcb := (cf_fcb fs)[nat fd := fcb_free]\<rparr>))"

text \<open>\<open>read\<close> answers its return value, an \<open>int\<close>, and the bytes it copied.\<close>

definition cpiofs_read :: "int \<Rightarrow> u64 \<Rightarrow> cpiofs \<Rightarrow> (int \<times> u8 list \<times> cpiofs) option" where
  "cpiofs_read fd count fs =
     (if bad_fd fd fs then Some (K_ENOENT, [], fs)
      else let b = cf_fcb fs ! nat fd;
               n = (if lpos b + count > fcb_size b then fcb_size b - lpos b else count) in
        do {
          bs \<leftarrow> rd_block (cf_archive fs) (fcb_file b + unat (lpos b)) (unat n);
          Some (sint (ucast n :: 32 word), bs, fs\<lparr>cf_fcb := (cf_fcb fs)[nat fd := b\<lparr>lpos := lpos b + n\<rparr>]\<rparr>)
        })"

definition cpiofs_write :: "int \<Rightarrow> u8 list \<Rightarrow> cpiofs \<Rightarrow> int \<times> cpiofs" where
  "cpiofs_write fd buf fs = (-1, fs)"

definition SEEK_SET :: int where "SEEK_SET = 0"
definition SEEK_CUR :: int where "SEEK_CUR = 1"
definition SEEK_END :: int where "SEEK_END = 2"

text \<open>The position is unsigned, the offset signed: the sum of the two is unsigned, so the comparison
  of \<open>SEEK_CUR\<close> with zero is never true.\<close>

definition cpiofs_lseek :: "int \<Rightarrow> int \<Rightarrow> int \<Rightarrow> cpiofs \<Rightarrow> int \<times> cpiofs" where
  "cpiofs_lseek fd offset whence fs =
     (if bad_fd fd fs then (K_ENOENT, fs)
      else let b = cf_fcb fs ! nat fd;
               seek = (\<lambda>p. (K_OK, fs\<lparr>cf_fcb := (cf_fcb fs)[nat fd := b\<lparr>lpos := p\<rparr>]\<rparr>)) in
        if whence = SEEK_SET then
          (if offset < 0 then (K_EINVAL, fs)
           else if offset > sint (fcb_size b) then (K_EINVAL, fs)
           else seek (of_int offset))
        else if whence = SEEK_CUR then
          (if lpos b + of_int offset < 0 then (K_EINVAL, fs)
           else if lpos b + of_int offset > fcb_size b then (K_EINVAL, fs)
           else seek (lpos b + of_int offset))
        else if whence = SEEK_END then
          (if offset > 0 then (K_EINVAL, fs)
           else if offset < - sint (fcb_size b) then (K_EINVAL, fs)
           else seek (fcb_size b + of_int offset))
        else (K_EINVAL, fs))"

section \<open>The invariant\<close>

text \<open>A used control block describes a part of the archive and a position in it.\<close>

definition fcb_ok :: "bmem \<Rightarrow> fcb_t \<Rightarrow> bool" where
  "fcb_ok m b \<longleftrightarrow> used b \<longrightarrow>
     fst m \<le> fcb_file b \<and> fcb_file b + unat (fcb_size b) \<le> fst m + length (snd m) \<and> lpos b \<le> fcb_size b"

definition cpiofs_inv :: "cpiofs \<Rightarrow> bool" where
  "cpiofs_inv fs \<longleftrightarrow> length (cf_fcb fs) = MAX_FILES \<and> (\<forall>b\<in>set (cf_fcb fs). fcb_ok (cf_archive fs) b)"

text \<open>The contents of an open file, and the position in it.\<close>

definition fd_open :: "cpiofs \<Rightarrow> int \<Rightarrow> bool" where
  "fd_open fs fd \<longleftrightarrow> \<not> bad_fd fd fs"

definition fd_data :: "cpiofs \<Rightarrow> int \<Rightarrow> u8 list" where
  "fd_data fs fd = (let b = cf_fcb fs ! nat fd in
     take (unat (fcb_size b)) (drop (fcb_file b - fst (cf_archive fs)) (snd (cf_archive fs))))"

definition fd_pos :: "cpiofs \<Rightarrow> int \<Rightarrow> nat" where
  "fd_pos fs fd = unat (lpos (cf_fcb fs ! nat fd))"

definition cpio_files :: "cpiofs \<Rightarrow> int \<Rightarrow> (u8 list \<times> nat) option" where
  "cpio_files fs fd = (if fd_open fs fd then Some (fd_data fs fd, fd_pos fs fd) else None)"

lemma fd_openD:
  assumes "cpiofs_inv fs" "fd_open fs fd"
  shows "0 \<le> fd" "nat fd < length (cf_fcb fs)" "used (cf_fcb fs ! nat fd)" "fcb_ok (cf_archive fs) (cf_fcb fs ! nat fd)"
    "length (fd_data fs fd) = unat (fcb_size (cf_fcb fs ! nat fd))" "fd_pos fs fd \<le> length (fd_data fs fd)"
proof -
  show a: "0 \<le> fd" "nat fd < length (cf_fcb fs)" "used (cf_fcb fs ! nat fd)"
    using assms by (auto simp: fd_open_def bad_fd_def cpiofs_inv_def)
  show ok: "fcb_ok (cf_archive fs) (cf_fcb fs ! nat fd)" using assms(1) a(2) by (auto simp: cpiofs_inv_def)
  show l: "length (fd_data fs fd) = unat (fcb_size (cf_fcb fs ! nat fd))"
    using ok a(3) by (auto simp: fcb_ok_def fd_data_def Let_def)
  show "fd_pos fs fd \<le> length (fd_data fs fd)"
    using ok a(3) l by (simp add: fd_pos_def fcb_ok_def word_le_nat_alt)
qed

lemma inv_update:
  "cpiofs_inv fs \<Longrightarrow> fcb_ok (cf_archive fs) b \<Longrightarrow> cpiofs_inv (fs\<lparr>cf_fcb := (cf_fcb fs)[k := b]\<rparr>)"
  by (auto simp: cpiofs_inv_def dest!: set_update_subset_insert [THEN subsetD])

text \<open>Setting the position of an open file.\<close>

definition with_pos :: "int \<Rightarrow> u64 \<Rightarrow> cpiofs \<Rightarrow> cpiofs" where
  "with_pos fd p fs = fs\<lparr>cf_fcb := (cf_fcb fs)[nat fd := (cf_fcb fs ! nat fd)\<lparr>lpos := p\<rparr>]\<rparr>"

lemma with_pos:
  assumes "cpiofs_inv fs" "fd_open fs fd" "p \<le> fcb_size (cf_fcb fs ! nat fd)"
  shows "cpiofs_inv (with_pos fd p fs)" "fd_open (with_pos fd p fs) fd" "fd_pos (with_pos fd p fs) fd = unat p"
    "fd_data (with_pos fd p fs) fd = fd_data fs fd"
    "fd' \<noteq> fd \<Longrightarrow> fd_open fs fd' \<Longrightarrow> fd_open (with_pos fd p fs) fd' \<and>
       fd_pos (with_pos fd p fs) fd' = fd_pos fs fd' \<and> fd_data (with_pos fd p fs) fd' = fd_data fs fd'"
proof -
  note d = fd_openD [OF assms(1,2)]
  have "fcb_ok (cf_archive fs) ((cf_fcb fs ! nat fd)\<lparr>lpos := p\<rparr>)" using d(4) assms(3) by (auto simp: fcb_ok_def)
  then show "cpiofs_inv (with_pos fd p fs)" unfolding with_pos_def by (rule inv_update [OF assms(1)])
  show "fd_open (with_pos fd p fs) fd" "fd_pos (with_pos fd p fs) fd = unat p" "fd_data (with_pos fd p fs) fd = fd_data fs fd"
    using d(2) assms(2) by (simp_all add: fd_open_def bad_fd_def with_pos_def fd_pos_def fd_data_def Let_def)
  show "fd_open (with_pos fd p fs) fd' \<and> fd_pos (with_pos fd p fs) fd' = fd_pos fs fd' \<and> fd_data (with_pos fd p fs) fd' = fd_data fs fd'"
    if "fd' \<noteq> fd" "fd_open fs fd'"
  proof -
    have "nat fd' \<noteq> nat fd" using that d(1) fd_openD(1) [OF assms(1) that(2)] by auto
    then show ?thesis using that(2) by (simp add: fd_open_def bad_fd_def with_pos_def fd_pos_def fd_data_def Let_def)
  qed
qed

section \<open>Reading and seeking\<close>

lemma sint_small32: "unat (w :: 32 word) < 2 ^ 31 \<Longrightarrow> sint w = int (unat w)"
proof -
  assume "unat w < 2 ^ 31"
  then have "int (unat w) < int (2 ^ 31)" by (simp only: of_nat_less_iff)
  then have "uint w < 2 ^ 31" by simp
  then have "signed_take_bit 31 (uint w) = uint w"
    by (intro signed_take_bit_int_eq_self) (auto intro: order_trans [OF _ uint_ge_0])
  then show ?thesis by (simp add: sint_uint)
qed

lemma sint_small64: "unat (w :: u64) < 2 ^ 63 \<Longrightarrow> sint w = int (unat w)"
proof -
  assume "unat w < 2 ^ 63"
  then have "int (unat w) < int (2 ^ 63)" by (simp only: of_nat_less_iff)
  then have "uint w < 2 ^ 63" by simp
  then have "signed_take_bit 63 (uint w) = uint w"
    by (intro signed_take_bit_int_eq_self) (auto intro: order_trans [OF _ uint_ge_0])
  then show ?thesis by (simp add: sint_uint)
qed

lemma cpiofs_read_spec:
  assumes inv: "cpiofs_inv fs" and fd: "fd_open fs fd" and c: "unat count < 2 ^ 31" "length (fd_data fs fd) < 2 ^ 63"
  shows "cpiofs_read fd count fs =
    Some (int (min (unat count) (length (fd_data fs fd) - fd_pos fs fd)),
      take (unat count) (drop (fd_pos fs fd) (fd_data fs fd)),
      with_pos fd (of_nat (fd_pos fs fd + min (unat count) (length (fd_data fs fd) - fd_pos fs fd))) fs)"
proof -
  let ?b = "cf_fcb fs ! nat fd" let ?sz = "fcb_size ?b" let ?D = "snd (cf_archive fs)" let ?B = "fst (cf_archive fs)"
  note d = fd_openD [OF inv fd]
  have sz: "unat ?sz < 2 ^ 63" "unat ?sz = length (fd_data fs fd)" "unat (lpos ?b) = fd_pos fs fd" "fd_pos fs fd \<le> unat ?sz"
    using d(5,6) c(2) by (simp_all add: fd_pos_def)
  define n where "n = (if lpos ?b + count > ?sz then ?sz - lpos ?b else count)"
  have "unat (lpos ?b + count) = fd_pos fs fd + unat count" using sz c(1) by (simp add: unat_word_ariths)
  then have un: "unat n = min (unat count) (length (fd_data fs fd) - fd_pos fs fd)"
    using sz by (auto simp: n_def word_less_nat_alt unat_sub word_le_nat_alt)
  have pos: "lpos ?b + n = of_nat (fd_pos fs fd + unat n)" using sz(3) by (simp flip: sz(3))
  have ok: "?B \<le> fcb_file ?b" "fcb_file ?b + unat ?sz \<le> ?B + length ?D" using d(3,4) by (auto simp: fcb_ok_def)
  have blk: "rd_block (cf_archive fs) (fcb_file ?b + unat (lpos ?b)) (unat n) =
      Some (take (unat n) (drop (fd_pos fs fd) (fd_data fs fd)))"
  proof -
    have le: "fd_pos fs fd + unat n \<le> unat ?sz" using un sz by simp
    have "take (unat n) (drop (fd_pos fs fd) (fd_data fs fd)) = take (unat n) (drop (fcb_file ?b + fd_pos fs fd - ?B) ?D)"
      using le ok(1) by (simp add: fd_data_def Let_def drop_take add.commute min_absorb1 le_diff_conv2)
    then show ?thesis using le ok sz(3) by (auto simp: rd_block_def)
  qed
  have "take (unat n) (drop (fd_pos fs fd) (fd_data fs fd)) = take (unat count) (drop (fd_pos fs fd) (fd_data fs fd))"
    using un by (simp add: min_def)
  moreover have "sint (ucast n :: 32 word) = int (unat n)"
  proof -
    have "unat n < 2 ^ 31" using un c(1) by simp
    moreover from this have "unat (ucast n :: 32 word) = unat n" by (simp add: unsigned_ucast_eq take_bit_nat_eq_self)
    ultimately show ?thesis using sint_small32 [of "ucast n"] \<open>unat n < 2 ^ 31\<close> by simp
  qed
  ultimately show ?thesis using fd blk un pos
    by (simp add: cpiofs_read_def fd_open_def Let_def n_def [symmetric] with_pos_def)
qed

text \<open>What seeking means: the new position counts from the start, from the current position or from the
  end, and must lie in the file.\<close>

definition lseek_ref :: "nat \<Rightarrow> nat \<Rightarrow> int \<Rightarrow> int \<Rightarrow> nat option" where
  "lseek_ref sz pos offset whence =
     (let new = (if whence = SEEK_SET then 0 else if whence = SEEK_CUR then int pos else int sz) + offset in
      if whence \<in> {SEEK_SET, SEEK_CUR, SEEK_END} \<and> 0 \<le> new \<and> new \<le> int sz then Some (nat new) else None)"

lemma unat_of_nat64: "n < 2 ^ 64 \<Longrightarrow> unat (of_nat n :: u64) = n"
  by (simp add: unsigned_of_nat take_bit_nat_eq_self)

lemma unat_of_int_small: "0 \<le> i \<Longrightarrow> i < 2 ^ 64 \<Longrightarrow> unat (of_int i :: u64) = nat i"
proof -
  assume "0 \<le> i" "i < 2 ^ 64"
  then have "nat i < 2 ^ 64" "(of_int i :: u64) = of_nat (nat i)" by auto
  then show ?thesis by (simp add: unsigned_of_nat take_bit_nat_eq_self)
qed

lemma pow63: "(2 :: int) ^ 64 = 2 * 2 ^ 63" "(0 :: int) < 2 ^ 63"
  by simp_all

lemma unat_add_signed:
  assumes "unat p < 2 ^ 63" "- (2 ^ 63) \<le> i" "i < 2 ^ 63"
  shows "unat (p + of_int i :: u64) = (if 0 \<le> int (unat p) + i then nat (int (unat p) + i) else nat (int (unat p) + i + 2 ^ 64))"
proof -
  have e: "p + of_int i = (of_int (int (unat p) + i) :: u64)" by simp
  show ?thesis
  proof (cases "0 \<le> int (unat p) + i")
    case True
    have lt: "int (unat p) < 2 ^ 63" using assms(1) by (metis of_nat_less_iff of_nat_numeral of_nat_power)
    then have "unat (of_int (int (unat p) + i) :: u64) = nat (int (unat p) + i)"
      using True assms(3) by (intro unat_of_int_small) auto
    then show ?thesis using True e by metis
  next
    case False
    have "(of_int (int (unat p) + i) :: u64) = of_int (int (unat p) + i + 2 ^ 64)" by simp
    moreover have "unat (of_int (int (unat p) + i + 2 ^ 64) :: u64) = nat (int (unat p) + i + 2 ^ 64)"
    proof (rule unat_of_int_small)
      show "0 \<le> int (unat p) + i + 2 ^ 64" using assms(2) pow63 of_nat_0_le_iff [of "unat p", where 'a = int] by linarith
      show "int (unat p) + i + 2 ^ 64 < 2 ^ 64" using False by linarith
    qed
    ultimately show ?thesis using False e by metis
  qed
qed

lemma seek_cur_spec:
  assumes "unat p \<le> unat sz" "unat sz < 2 ^ 63" "- (2 ^ 63) \<le> i" "i < 2 ^ 63"
  shows "p + of_int i > (sz :: u64) \<longleftrightarrow> \<not> (0 \<le> int (unat p) + i \<and> int (unat p) + i \<le> int (unat sz))"
    "0 \<le> int (unat p) + i \<Longrightarrow> p + of_int i = of_nat (nat (int (unat p) + i))"
proof -
  have u: "unat (p + of_int i) = (if 0 \<le> int (unat p) + i then nat (int (unat p) + i) else nat (int (unat p) + i + 2 ^ 64))"
    using assms by (intro unat_add_signed) auto
  have "int (unat sz) < int (2 ^ 63)" using assms(2) by (simp only: of_nat_less_iff)
  then have "int (unat sz) < 2 ^ 63" by simp
  then have "int (unat p) + i + 2 ^ 64 > int (unat sz)"
    using assms(3) pow63 of_nat_0_le_iff [of "unat p", where 'a = int] by linarith
  then show "p + of_int i > sz \<longleftrightarrow> \<not> (0 \<le> int (unat p) + i \<and> int (unat p) + i \<le> int (unat sz))"
    unfolding word_less_nat_alt u by (auto simp: zless_nat_eq_int_zless)
  show "0 \<le> int (unat p) + i \<Longrightarrow> p + of_int i = of_nat (nat (int (unat p) + i))" by simp
qed

lemma cpiofs_lseek_spec:
  assumes inv: "cpiofs_inv fs" and fd: "fd_open fs fd" and sz: "length (fd_data fs fd) < 2 ^ 63"
    and o: "- (2 ^ 63) \<le> offset" "offset < 2 ^ 63"
  shows "cpiofs_lseek fd offset whence fs =
    (case lseek_ref (length (fd_data fs fd)) (fd_pos fs fd) offset whence of
       None \<Rightarrow> (K_EINVAL, fs)
     | Some p \<Rightarrow> (K_OK, with_pos fd (of_nat p) fs))"
proof -
  let ?b = "cf_fcb fs ! nat fd"
  note d = fd_openD [OF inv fd]
  have s: "unat (fcb_size ?b) < 2 ^ 63" "unat (fcb_size ?b) = length (fd_data fs fd)" "unat (lpos ?b) = fd_pos fs fd"
    "unat (lpos ?b) \<le> unat (fcb_size ?b)" using d(5,6) sz by (simp_all add: fd_pos_def)
  have si: "sint (fcb_size ?b) = int (length (fd_data fs fd))" using sint_small64 [OF s(1)] s(2) by simp
  have c: "lpos ?b + of_int offset > fcb_size ?b \<longleftrightarrow>
      \<not> (0 \<le> int (fd_pos fs fd) + offset \<and> int (fd_pos fs fd) + offset \<le> int (length (fd_data fs fd)))"
    using seek_cur_spec(1) [OF s(4,1) o] s(2,3) by simp
  have e: "fcb_size ?b + of_int offset = of_nat (nat (int (length (fd_data fs fd)) + offset))"
    if "0 \<le> int (length (fd_data fs fd)) + offset"
    using seek_cur_spec(2) [OF order_refl s(1) o] s(2) that by simp
  have cc: "lpos ?b + of_int offset = of_nat (nat (int (fd_pos fs fd) + offset))" if "0 \<le> int (fd_pos fs fd) + offset"
    using seek_cur_spec(2) [OF s(4,1) o] s(3) that by simp
  have w: "with_pos fd p fs = fs\<lparr>cf_fcb := (cf_fcb fs)[nat fd := ?b\<lparr>lpos := p\<rparr>]\<rparr>" for p by (simp add: with_pos_def)
  have f: "\<not> bad_fd fd fs" using fd by (simp add: fd_open_def)
  consider "whence = SEEK_SET" | "whence = SEEK_CUR" | "whence = SEEK_END" | "whence \<notin> {SEEK_SET, SEEK_CUR, SEEK_END}" by blast
  then show ?thesis
  proof cases
    case 1
    then show ?thesis using f si by (simp add: cpiofs_lseek_def lseek_ref_def Let_def w SEEK_SET_def)
  next
    case 2
    then show ?thesis using f c cc
      by (simp add: cpiofs_lseek_def lseek_ref_def Let_def w SEEK_SET_def SEEK_CUR_def)
  next
    case 3
    then show ?thesis using f si e
      by (simp add: cpiofs_lseek_def lseek_ref_def Let_def w SEEK_SET_def SEEK_CUR_def SEEK_END_def)
  next
    case 4
    then show ?thesis using f by (simp add: cpiofs_lseek_def lseek_ref_def Let_def)
  qed
qed

section \<open>A mounted archive\<close>

text \<open>An instance made from an archive of the files \<open>files\<close>.\<close>

definition mounted :: "cfile list \<Rightarrow> cpiofs \<Rightarrow> bool" where
  "mounted files fs \<longleftrightarrow> files_ok files \<and> cpiofs_inv fs \<and> fst (cf_archive fs) mod 4 = 0 \<and>
     snd (cf_archive fs) = archive_bytes files \<and> cf_archive_len fs = length (archive_bytes files)"

lemma CPIOFS_mounted:
  assumes "files_ok files" "base mod 4 = 0" "nbase mod 4 = 0"
  shows "\<exists>fs. CPIOFS (base, archive_bytes files) base (length (archive_bytes files)) nbase = Some (Some fs) \<and>
    mounted files fs \<and> (\<forall>fd. \<not> fd_open fs fd)"
proof -
  let ?fs = "\<lparr>cf_archive = (nbase, archive_bytes files), cf_archive_len = length (archive_bytes files),
    cf_fcb = replicate MAX_FILES fcb_free\<rparr>"
  have "CPIOFS (base, archive_bytes files) base (length (archive_bytes files)) nbase = Some (Some ?fs)"
    using info_reading [OF reading_archive [OF assms(1,2)], of 0 0]
    by (simp add: CPIOFS_def cpio_info_def rd_block_def)
  moreover have "mounted files ?fs"
    using assms by (simp add: mounted_def cpiofs_inv_def fcb_ok_def fcb_free_def)
  moreover have "\<not> fd_open ?fs fd" for fd
    by (auto simp: fd_open_def bad_fd_def fcb_free_def)
  ultimately show ?thesis by blast
qed

lemma free_fcb_spec:
  "case free_fcb bs of None \<Rightarrow> \<forall>b\<in>set bs. used b | Some k \<Rightarrow> k < length bs \<and> \<not> used (bs ! k) \<and> (\<forall>j<k. used (bs ! j))"
  by (induction bs) (auto split: option.splits simp: less_Suc_eq_0_disj)

lemma cpiofs_open_mounted:
  assumes m: "mounted files fs" and n: "0 \<notin> set path" "length path < 2 ^ 64 - 1"
  shows "case find (\<lambda>f. cf_name f = path) files of
      None \<Rightarrow> cpiofs_open path flags mode fs = Some (K_ENOENT, fs)
    | Some f \<Rightarrow> (case free_fcb (cf_fcb fs) of
        None \<Rightarrow> cpiofs_open path flags mode fs = Some (K_ENOMEM, fs)
      | Some k \<Rightarrow> \<exists>fs'. cpiofs_open path flags mode fs = Some (int k, fs') \<and> mounted files fs' \<and> cf_archive fs' = cf_archive fs \<and>
          \<not> fd_open fs (int k) \<and> cpio_files fs' = (cpio_files fs)(int k \<mapsto> (cf_data f, 0)))"
proof -
  let ?A = "cf_archive fs"
  have A: "?A = (fst ?A, archive_bytes files)" "fst ?A mod 4 = 0" "files_ok files"
    using m by (auto simp: mounted_def intro: prod_eqI)
  note g = get_file_reading [OF reading_archive [OF A(3,2)] n, folded A(1)]
  have len: "cf_archive_len fs = length (archive_bytes files)" using m by (simp add: mounted_def)
  show ?thesis
  proof (cases "find (\<lambda>f. cf_name f = path) files")
    case None
    then show ?thesis using g len by (simp add: cpiofs_open_def)
  next
    case (Some f)
    then obtain i where i: "cpio_get_file ?A (fst ?A) (cf_archive_len fs) path = Some (Some i)"
      "filesize i = length (cf_data f)" "at ?A (fdata i) (cf_data f)"
      "fst ?A \<le> fdata i" "fdata i + length (cf_data f) \<le> fst ?A + length (snd ?A)"
      using g len by auto
    have "f \<in> set files" using Some by (auto simp: find_Some_iff)
    then have dl: "unat (of_nat (length (cf_data f)) :: u64) = length (cf_data f)"
      using A(3) by (intro unat_of_nat64) (auto simp: files_ok_def file_ok_def)
    show ?thesis
    proof (cases "free_fcb (cf_fcb fs)")
      case None
      then show ?thesis using Some i by (simp add: cpiofs_open_def)
    next
      case f: (Some k)
      then have k: "k < length (cf_fcb fs)" "\<not> used (cf_fcb fs ! k)" "k < MAX_FILES"
        using free_fcb_spec [of "cf_fcb fs"] m by (auto simp: mounted_def cpiofs_inv_def)
      let ?b = "\<lparr>used = True, fcb_file = fdata i, fcb_size = of_nat (filesize i), lpos = 0\<rparr>"
      let ?fs = "fs\<lparr>cf_fcb := (cf_fcb fs)[k := ?b]\<rparr>"
      have o: "cpiofs_open path flags mode fs = Some (int k, ?fs)" using f i by (simp add: cpiofs_open_def)
      have "fcb_ok ?A ?b" using i dl by (simp add: fcb_ok_def)
      then have "mounted files ?fs" using m inv_update [of fs ?b k] by (simp add: mounted_def)
      moreover have "fd_open ?fs (int k)" "fd_pos ?fs (int k) = 0" "\<not> fd_open fs (int k)"
        using k by (simp_all add: fd_open_def bad_fd_def fd_pos_def)
      moreover have "fd_data ?fs (int k) = cf_data f"
        using at_slice [OF i(3-5)] i(2) dl k(1) by (simp add: fd_data_def)
      moreover have "cpio_files ?fs fd = cpio_files fs fd" if "fd \<noteq> int k" for fd
      proof (cases "nat fd = k")
        case True
        then show ?thesis using that by (auto simp: cpio_files_def fd_open_def bad_fd_def)
      next
        case False
        then show ?thesis by (simp add: cpio_files_def fd_open_def bad_fd_def fd_pos_def fd_data_def)
      qed
      ultimately have "cpio_files ?fs = (cpio_files fs)(int k \<mapsto> (cf_data f, 0))"
        by (auto simp: cpio_files_def fun_eq_iff)
      then show ?thesis using Some f o \<open>mounted files ?fs\<close> \<open>\<not> fd_open fs (int k)\<close> by auto
    qed
  qed
qed

lemma mounted_with_pos:
  "mounted files fs \<Longrightarrow> fd_open fs fd \<Longrightarrow> p \<le> fcb_size (cf_fcb fs ! nat fd) \<Longrightarrow> mounted files (with_pos fd p fs)"
  using with_pos(1) [of fs fd p] by (simp add: mounted_def) (simp add: with_pos_def)

section \<open>Properties\<close>

text \<open>C28: For an open file of less than \<open>2 ^ 63\<close> bytes and every 64-bit offset, \<open>lseek\<close> with its mix of
  signed and unsigned comparisons does what seeking means: the position becomes the offset counted
  from the start, the current position or the end if that lies in the file, and nothing changes and the
  call answers \<open>K_EINVAL\<close> otherwise.\<close>

theorem cpiofs_lseek_correct:
  assumes "cpiofs_inv fs" "fd_open fs fd" "length (fd_data fs fd) < 2 ^ 63" "- (2 ^ 63) \<le> offset" "offset < 2 ^ 63"
  shows "cpiofs_lseek fd offset whence fs =
    (case lseek_ref (length (fd_data fs fd)) (fd_pos fs fd) offset whence of
       None \<Rightarrow> (K_EINVAL, fs)
     | Some p \<Rightarrow> (K_OK, with_pos fd (of_nat p) fs))"
  by (rule cpiofs_lseek_spec [OF assms])

text \<open>An open file of seven bytes at position three.\<close>

definition demo_cpiofs :: cpiofs where
  "demo_cpiofs = \<lparr>cf_archive = (4096, replicate 64 7), cf_archive_len = 64,
     cf_fcb = (replicate MAX_FILES fcb_free)[2 := \<lparr>used = True, fcb_file = 4100, fcb_size = 7, lpos = 3\<rparr>]\<rparr>"

lemma demo_cpiofs:
  "cpiofs_inv demo_cpiofs" "fd_open demo_cpiofs 2" "length (fd_data demo_cpiofs 2) = 7" "fd_pos demo_cpiofs 2 = 3"
proof -
  have "set ((replicate MAX_FILES fcb_free)[2 := \<lparr>used = True, fcb_file = 4100, fcb_size = 7, lpos = 3\<rparr>]) \<subseteq>
      {fcb_free, \<lparr>used = True, fcb_file = 4100, fcb_size = 7, lpos = 3\<rparr>}"
    by (rule order_trans [OF set_update_subset_insert]) auto
  then show "cpiofs_inv demo_cpiofs"
    by (fastforce simp: cpiofs_inv_def demo_cpiofs_def fcb_ok_def fcb_free_def)
  show "fd_open demo_cpiofs 2" "length (fd_data demo_cpiofs 2) = 7" "fd_pos demo_cpiofs 2 = 3"
    by (simp_all add: fd_open_def bad_fd_def fd_data_def fd_pos_def demo_cpiofs_def MAX_FILES_def)
qed

theorem cpiofs_lseek_correct_witness:
  "cpiofs_lseek 2 (-2) SEEK_CUR demo_cpiofs = (K_OK, with_pos 2 1 demo_cpiofs)"
  using cpiofs_lseek_correct [OF demo_cpiofs(1,2), of "-2" SEEK_CUR]
  by (simp add: demo_cpiofs(3,4) lseek_ref_def SEEK_SET_def SEEK_CUR_def)

text \<open>C40: A negative count passed through the \<open>size_t\<close> parameter of \<open>read\<close> wraps the check against the size:
  at a position of at least \<open>k\<close>, a count of \<open>-k\<close> makes \<open>memcpy\<close> run out of the archive.\<close>

theorem cpiofs_read_negative_overrun:
  assumes "cpiofs_inv fs" "fd_open fs fd" "0 < k" "k \<le> fd_pos fs fd" "length (snd (cf_archive fs)) < 2 ^ 63"
  shows "cpiofs_read fd (- of_nat k) fs = None"
proof -
  let ?b = "cf_fcb fs ! nat fd"
  note d = fd_openD [OF assms(1,2)]
  have b: "fcb_file ?b + unat (fcb_size ?b) \<le> fst (cf_archive fs) + length (snd (cf_archive fs))" "lpos ?b \<le> fcb_size ?b"
    "fst (cf_archive fs) \<le> fcb_file ?b"
    using d(3,4) by (auto simp: fcb_ok_def)
  have k: "unat (of_nat k :: u64) = k" "k < 2 ^ 63"
    using assms(4,5) b by (auto intro!: unat_of_nat64 simp: fd_pos_def word_le_nat_alt)
  have "unat (lpos ?b - of_nat k) \<le> unat (lpos ?b)" using k assms(4) by (simp add: fd_pos_def unat_sub word_le_nat_alt)
  then have c: "\<not> lpos ?b + - of_nat k > fcb_size ?b" using b(2) by (simp add: word_less_nat_alt word_le_nat_alt)
  have "(- of_nat k :: u64) = of_nat (2 ^ 64 - k)" using k(2) by (simp add: of_nat_diff)
  then have "unat (- of_nat k :: u64) = 2 ^ 64 - k"
    using k assms(3) by (simp only:) (rule unat_of_nat64, simp)
  then have n: "unat (- of_nat k :: u64) > 2 ^ 63" using k(2) by simp
  then have "rd_block (cf_archive fs) (fcb_file ?b + unat (lpos ?b)) (unat (- of_nat k :: u64)) = None"
    using b(3) assms(5) by (auto simp: rd_block_def)
  then show ?thesis using assms(2) c by (simp add: cpiofs_read_def fd_open_def Let_def)
qed

theorem cpiofs_read_negative_overrun_witness: "cpiofs_read 2 (- of_nat 1) demo_cpiofs = None"
  by (rule cpiofs_read_negative_overrun) (use demo_cpiofs in \<open>simp_all add: demo_cpiofs_def\<close>)

end
