(* ===== verification/Vfs.thy ===== *)
theory Vfs
  imports Cpiofs Stdmap "HOL-Library.List_Lexorder" "HOL-Library.Sublist"
begin

text \<open>Model of \<^verbatim>\<open>kernel/inc/k_vfs.h\<close>, \<^verbatim>\<open>kernel/main/k_vfs.cpp\<close> and of the factories of
  \<^verbatim>\<open>kernel/driver/fs/cpiofs.cpp\<close> and \<^verbatim>\<open>kernel/driver/fs/devfs.cpp\<close>. The virtual methods of \<open>BasicFS\<close> are a
  record of operations on an object, the objects \<open>new\<close> made are numbered, and a deleted object is
  \<^const>\<open>None\<close> in its place, so that a call through a dangling pointer is a trap. The operations run with
  the lock of the file system held.\<close>

section \<open>The interface of a file system\<close>

record 'o fs_ops =
  op_open :: "u8 list \<Rightarrow> int \<Rightarrow> int \<Rightarrow> 'o \<Rightarrow> (int \<times> 'o) option"
  op_close :: "int \<Rightarrow> 'o \<Rightarrow> (int \<times> 'o) option"
  op_read :: "int \<Rightarrow> u64 \<Rightarrow> 'o \<Rightarrow> (int \<times> u8 list \<times> 'o) option"
  op_write :: "int \<Rightarrow> u8 list \<Rightarrow> 'o \<Rightarrow> (int \<times> 'o) option"
  op_lseek :: "int \<Rightarrow> int \<Rightarrow> int \<Rightarrow> 'o \<Rightarrow> (int \<times> 'o) option"

text \<open>A factory makes an object from a device path; it sees the memory and the address the allocator
  gives next. A deleter answers what is left of the object.\<close>

type_synonym 'o newInstanceFunc_t = "bmem \<Rightarrow> nat \<Rightarrow> u8 list \<Rightarrow> (int \<times> 'o option) option"
type_synonym 'o deleteInstanceFunc_t = "'o \<Rightarrow> int \<times> 'o option"

definition FILE_STDIN :: int where "FILE_STDIN = 0"
definition FILE_STDOUT :: int where "FILE_STDOUT = 1"
definition FILE_STDERR :: int where "FILE_STDERR = 2"

record 'o vfs =
  fs_objs :: "'o option list"
  fs_map :: "(u8 list, nat option \<times> 'o deleteInstanceFunc_t) stdmap"
  fs_factories :: "(u8 list \<times> 'o newInstanceFunc_t \<times> 'o deleteInstanceFunc_t) list"
  global_fd_map :: "(int, nat option \<times> int) stdmap"
  global_fd_counter :: int

definition vfs_init :: "'o vfs" where
  "vfs_init = \<lparr>fs_objs = [], fs_map = [], fs_factories = [], global_fd_map = [], global_fd_counter = 3\<rparr>"

section \<open>Registering file systems\<close>

definition registerFS ::
  "u8 list \<Rightarrow> 'o newInstanceFunc_t option \<Rightarrow> 'o deleteInstanceFunc_t option \<Rightarrow> 'o vfs \<Rightarrow> int \<times> 'o vfs" where
  "registerFS fs_name nf df s =
     (case (nf, df) of
        (Some n, Some d) \<Rightarrow> (0, s\<lparr>fs_factories := fs_factories s @ [(fs_name, n, d)]\<rparr>)
      | _ \<Rightarrow> (K_EINVAL, s))"

fun erase_factory :: "u8 list \<Rightarrow> (u8 list \<times> 'a) list \<Rightarrow> (u8 list \<times> 'a) list option" where
  "erase_factory n [] = None"
| "erase_factory n (f # fs) = (if fst f = n then Some fs else map_option ((#) f) (erase_factory n fs))"

definition unregisterFS :: "u8 list \<Rightarrow> 'o vfs \<Rightarrow> int \<times> 'o vfs" where
  "unregisterFS fs_name s =
     (case erase_factory fs_name (fs_factories s) of
        None \<Rightarrow> (K_ENOENT, s)
      | Some fs \<Rightarrow> (0, s\<lparr>fs_factories := fs\<rparr>))"

section \<open>Files\<close>

text \<open>The object behind a pointer.\<close>

definition deref :: "'o vfs \<Rightarrow> nat option \<Rightarrow> 'o option" where
  "deref s p = (case p of None \<Rightarrow> None | Some i \<Rightarrow> if i < length (fs_objs s) then fs_objs s ! i else None)"

definition set_obj :: "nat option \<Rightarrow> 'o option \<Rightarrow> 'o vfs \<Rightarrow> 'o vfs" where
  "set_obj p v s = (case p of None \<Rightarrow> s | Some i \<Rightarrow> s\<lparr>fs_objs := (fs_objs s)[i := v]\<rparr>)"

text \<open>The loop of \<open>open\<close> over the mount points: the longest one that starts the path.\<close>

fun longest_mount :: "u8 list \<Rightarrow> (u8 list \<times> nat option \<times> 'd) list \<Rightarrow> nat \<Rightarrow> nat option \<Rightarrow> nat \<times> nat option" where
  "longest_mount path [] max_len fs = (max_len, fs)"
| "longest_mount path (x # xs) max_len fs =
     (if prefix (fst x) path \<and> max_len < length (fst x)
      then longest_mount path xs (length (fst x)) (fst (snd x))
      else longest_mount path xs max_len fs)"

text \<open>The counter of descriptors is an \<open>int\<close>, whose overflow is undefined.\<close>

definition vfs_open :: "'o fs_ops \<Rightarrow> u8 list \<Rightarrow> int \<Rightarrow> int \<Rightarrow> 'o vfs \<Rightarrow> (int \<times> 'o vfs) option" where
  "vfs_open V path flags mode s =
     (case longest_mount path (fs_map s) 0 None of
        (_, None) \<Rightarrow> Some (K_ENOENT, s)
      | (max_len, Some i) \<Rightarrow> do {
          ob \<leftarrow> deref s (Some i);
          (ret, ob') \<leftarrow> op_open V (drop max_len path) flags mode ob;
          let s' = set_obj (Some i) (Some ob') s in
          if ret \<ge> 0 then
            if global_fd_counter s = 2 ^ 31 - 1 then None
            else Some (global_fd_counter s,
              s'\<lparr>global_fd_counter := global_fd_counter s + 1,
                 global_fd_map := map_insert (global_fd_counter s) (Some i, ret) (global_fd_map s)\<rparr>)
          else Some (ret, s')
        })"

definition vfs_close :: "'o fs_ops \<Rightarrow> int \<Rightarrow> 'o vfs \<Rightarrow> (int \<times> 'o vfs) option" where
  "vfs_close V fd s =
     (case map_find (global_fd_map s) fd of
        None \<Rightarrow> Some (K_ENOENT, s)
      | Some (p, lfd) \<Rightarrow> do {
          ob \<leftarrow> deref s p;
          (ret, ob') \<leftarrow> op_close V lfd ob;
          let s' = set_obj p (Some ob') s in
          Some (ret, if ret = K_OK then s'\<lparr>global_fd_map := map_erase fd (global_fd_map s)\<rparr> else s')
        })"

text \<open>The count is an \<open>int\<close> that becomes a \<open>size_t\<close>.\<close>

definition vfs_read :: "'o fs_ops \<Rightarrow> int \<Rightarrow> int \<Rightarrow> 'o vfs \<Rightarrow> (int \<times> u8 list \<times> 'o vfs) option" where
  "vfs_read V fd count s =
     (if fd = FILE_STDIN then Some (0, [], s)
      else case map_find (global_fd_map s) fd of
        None \<Rightarrow> Some (K_ENOENT, [], s)
      | Some (p, lfd) \<Rightarrow> do {
          ob \<leftarrow> deref s p;
          (ret, bs, ob') \<leftarrow> op_read V lfd (of_int count) ob;
          Some (ret, bs, set_obj p (Some ob') s)
        })"

text \<open>Writing to the standard output is a function of its own, here the parameter \<open>out\<close>.\<close>

definition vfs_write :: "'o fs_ops \<Rightarrow> (u8 list \<Rightarrow> int) \<Rightarrow> int \<Rightarrow> u8 list \<Rightarrow> 'o vfs \<Rightarrow> (int \<times> 'o vfs) option" where
  "vfs_write V out fd buf s =
     (if fd = FILE_STDOUT then Some (out buf, s)
      else case map_find (global_fd_map s) fd of
        None \<Rightarrow> Some (K_ENOENT, s)
      | Some (p, lfd) \<Rightarrow> do {
          ob \<leftarrow> deref s p;
          (ret, ob') \<leftarrow> op_write V lfd buf ob;
          Some (ret, set_obj p (Some ob') s)
        })"

text \<open>The console behind the standard output: the function a driver installed, the debug console of the
  firmware if it has one (asked once), or its console of single characters. \<open>probe\<close> is the answer of the
  firmware and \<open>addr\<close> the address of the buffer.\<close>

datatype sbi_out = Console_write nat u64 | Putchar u8

record stdout_st =
  support_dbcn :: int
  stdout_switched :: bool

definition write_stdout :: "int \<Rightarrow> (u8 list \<Rightarrow> int) \<Rightarrow> u64 \<Rightarrow> u8 list \<Rightarrow> stdout_st \<Rightarrow> int \<times> sbi_out list \<times> stdout_st" where
  "write_stdout probe k_stdout_func addr buf st =
     (let st' = (if support_dbcn st < 0 then st\<lparr>support_dbcn := probe\<rparr> else st) in
      if stdout_switched st' then (k_stdout_func buf, [], st')
      else if support_dbcn st' > 0 then (int (length buf), [Console_write (length buf) (addr AND 0xffffffff)], st')
      else (int (length buf), map Putchar buf, st'))"

definition vfs_lseek :: "'o fs_ops \<Rightarrow> int \<Rightarrow> int \<Rightarrow> int \<Rightarrow> 'o vfs \<Rightarrow> (int \<times> 'o vfs) option" where
  "vfs_lseek V fd offset whence s =
     (if fd = FILE_STDIN \<or> fd = FILE_STDOUT \<or> fd = FILE_STDERR then Some (K_ENOTSUPP, s)
      else case map_find (global_fd_map s) fd of
        None \<Rightarrow> Some (K_ENOENT, s)
      | Some (p, lfd) \<Rightarrow> do {
          ob \<leftarrow> deref s p;
          (ret, ob') \<leftarrow> op_lseek V lfd offset whence ob;
          Some (ret, set_obj p (Some ob') s)
        })"

section \<open>Mounting\<close>

text \<open>The first factory, among those of the given name, that does not answer \<open>K_ENOTSUPP\<close>.\<close>

fun try_factories :: "bmem \<Rightarrow> nat \<Rightarrow> u8 list \<Rightarrow> u8 list option \<Rightarrow>
    (u8 list \<times> 'o newInstanceFunc_t \<times> 'o deleteInstanceFunc_t) list \<Rightarrow>
    (int \<times> ('o option \<times> 'o deleteInstanceFunc_t) option) option" where
  "try_factories m nb devicePath fs_name [] = Some (K_ENOTSUPP, None)"
| "try_factories m nb devicePath fs_name ((name, nf, df) # fs) =
     (if fs_name = Some name \<or> fs_name = None then do {
        (ret, inst) \<leftarrow> nf m nb devicePath;
        if ret = K_OK then Some (0, Some (inst, df))
        else if ret \<noteq> K_ENOTSUPP then Some (ret, None)
        else try_factories m nb devicePath fs_name fs
      }
      else try_factories m nb devicePath fs_name fs)"

definition vfs_mount :: "bmem \<Rightarrow> nat \<Rightarrow> u8 list \<Rightarrow> u8 list \<Rightarrow> u8 list option \<Rightarrow> 'o vfs \<Rightarrow> (int \<times> 'o vfs) option" where
  "vfs_mount m nb path devicePath fs_name s = do {
     (ret, r) \<leftarrow> try_factories m nb devicePath fs_name (fs_factories s);
     (case r of
        None \<Rightarrow> Some (ret, s)
      | Some (None, df) \<Rightarrow> Some (0, s\<lparr>fs_map := map_insert path (None, df) (fs_map s)\<rparr>)
      | Some (Some ob, df) \<Rightarrow>
          Some (0, s\<lparr>fs_objs := fs_objs s @ [Some ob],
                     fs_map := map_insert path (Some (length (fs_objs s)), df) (fs_map s)\<rparr>))
   }"

text \<open>Deleting a null pointer does nothing.\<close>

definition vfs_umount :: "u8 list \<Rightarrow> 'o vfs \<Rightarrow> (int \<times> 'o vfs) option" where
  "vfs_umount path s =
     (case map_find (fs_map s) path of
        None \<Rightarrow> Some (K_ENOTSUPP, s)
      | Some (None, df) \<Rightarrow> Some (0, s\<lparr>fs_map := map_erase path (fs_map s)\<rparr>)
      | Some (Some i, df) \<Rightarrow> do {
          ob \<leftarrow> deref s (Some i);
          Some (0, (set_obj (Some i) (snd (df ob)) s)\<lparr>fs_map := map_erase path (fs_map s)\<rparr>)
        })"

section \<open>The file systems\<close>

text \<open>The classes that implement the interface, with the methods of each.\<close>

datatype fsobj = CpioObj cpiofs | DevObj

definition fs_vtable :: "fsobj fs_ops" where
  "fs_vtable = \<lparr>
     op_open = (\<lambda>path flags mode ob. case ob of
        CpioObj c \<Rightarrow> map_option (\<lambda>(r, c'). (r, CpioObj c')) (cpiofs_open path flags mode c)
      | DevObj \<Rightarrow> Some (-1, DevObj)),
     op_close = (\<lambda>fd ob. case ob of
        CpioObj c \<Rightarrow> (case cpiofs_close fd c of (r, c') \<Rightarrow> Some (r, CpioObj c'))
      | DevObj \<Rightarrow> Some (-1, DevObj)),
     op_read = (\<lambda>fd count ob. case ob of
        CpioObj c \<Rightarrow> map_option (\<lambda>(r, bs, c'). (r, bs, CpioObj c')) (cpiofs_read fd count c)
      | DevObj \<Rightarrow> Some (-1, [], DevObj)),
     op_write = (\<lambda>fd buf ob. case ob of
        CpioObj c \<Rightarrow> (case cpiofs_write fd buf c of (r, c') \<Rightarrow> Some (r, CpioObj c'))
      | DevObj \<Rightarrow> Some (-1, DevObj)),
     op_lseek = (\<lambda>fd offset whence ob. case ob of
        CpioObj c \<Rightarrow> (case cpiofs_lseek fd offset whence c of (r, c') \<Rightarrow> Some (r, CpioObj c'))
      | DevObj \<Rightarrow> Some (-1, DevObj))\<rparr>"

text \<open>\<open>sscanf\<close> with \<open>%lu\<close> (base 10) or \<open>%lx\<close> (base 16): white space, a sign, the prefix \<open>0x\<close> of base 16, digits.
  A number that does not fit is the largest one.\<close>

definition scan_space :: "u8 \<Rightarrow> bool" where
  "scan_space c \<longleftrightarrow> c = 0x20 \<or> 9 \<le> c \<and> c \<le> 13"

definition scan_digit :: "nat \<Rightarrow> u8 \<Rightarrow> nat option" where
  "scan_digit b c =
     (let d = (if 0x30 \<le> c \<and> c \<le> 0x39 then unat c - 0x30
               else if 0x61 \<le> c \<and> c \<le> 0x66 then unat c - 0x61 + 10
               else if 0x41 \<le> c \<and> c \<le> 0x46 then unat c - 0x41 + 10 else b) in
      if d < b then Some d else None)"

fun scan_prefix :: "nat \<Rightarrow> u8 list \<Rightarrow> u8 list" where
  "scan_prefix b (z # x # c # cs) =
     (if b = 16 \<and> z = 0x30 \<and> (x = 0x78 \<or> x = 0x58) \<and> scan_digit 16 c \<noteq> None then c # cs else z # x # c # cs)"
| "scan_prefix b cs = cs"

definition scan_ul :: "nat \<Rightarrow> u8 list \<Rightarrow> (u64 \<times> u8 list) option" where
  "scan_ul b xs =
     (let ys = dropWhile scan_space xs;
          neg = (ys \<noteq> [] \<and> hd ys = 0x2d);
          zs = scan_prefix b (if ys \<noteq> [] \<and> (hd ys = 0x2d \<or> hd ys = 0x2b) then tl ys else ys);
          ds = takeWhile (\<lambda>c. scan_digit b c \<noteq> None) zs;
          v = foldl (\<lambda>r c. r * b + the (scan_digit b c)) 0 ds in
      if ds = [] then None
      else Some (if v \<ge> 2 ^ 64 then - 1 else if neg then - of_nat v else of_nat v, drop (length ds) zs))"

definition scan_pair :: "nat \<Rightarrow> u8 list \<Rightarrow> (u64 \<times> u64) option" where
  "scan_pair b xs = do {
     (u, ys) \<leftarrow> scan_ul b xs;
     if ys \<noteq> [] \<and> hd ys = 0x2c then do {
       (v, _) \<leftarrow> scan_ul b (tl ys);
       Some (u, v)
     } else None
   }"

text \<open>The factory of the CPIO file system; an exception of the constructor is caught.\<close>

definition cpiofs_new :: "fsobj newInstanceFunc_t" where
  "cpiofs_new m nb devicePath =
     (case (case scan_pair 10 devicePath of None \<Rightarrow> scan_pair 16 devicePath | Some p \<Rightarrow> Some p) of
        None \<Rightarrow> Some (-1, None)
      | Some (addr, len) \<Rightarrow> do {
          r \<leftarrow> CPIOFS m (unat addr) (unat len) nb;
          (case r of None \<Rightarrow> Some (-1, None) | Some c \<Rightarrow> Some (0, Some (CpioObj c)))
        })"

definition devfs_new :: "fsobj newInstanceFunc_t" where
  "devfs_new m nb devicePath = Some (0, Some DevObj)"

definition fs_delete :: "fsobj deleteInstanceFunc_t" where
  "fs_delete ob = (0, None)"

definition cpiofs_register :: "fsobj vfs \<Rightarrow> fsobj vfs" where
  "cpiofs_register s = snd (registerFS [0x63, 0x70, 0x69, 0x6f, 0x66, 0x73] (Some cpiofs_new) (Some fs_delete) s)"

definition devfs_register :: "fsobj vfs \<Rightarrow> fsobj vfs" where
  "devfs_register s = snd (registerFS [0x63, 0x70, 0x69, 0x6f] (Some devfs_new) (Some fs_delete) s)"

section \<open>The calls of the C library\<close>

datatype fop = FOpen "u8 list" | FClose int | FRead int int | FSeek int int int

definition libc_hook :: "'o fs_ops \<Rightarrow> fop \<Rightarrow> 'o vfs \<Rightarrow> (int \<times> u8 list \<times> 'o vfs) option" where
  "libc_hook V c s =
     (case c of
        FOpen path \<Rightarrow> map_option (\<lambda>(r, s'). (r, [], s')) (vfs_open V path 0 0 s)
      | FClose fd \<Rightarrow> map_option (\<lambda>(r, s'). (r, [], s')) (vfs_close V fd s)
      | FRead fd count \<Rightarrow> vfs_read V fd count s
      | FSeek fd offset whence \<Rightarrow> map_option (\<lambda>(r, s'). (r, [], s')) (vfs_lseek V fd offset whence s))"

section \<open>What the calls promise\<close>

text \<open>A client sees, behind each descriptor, the contents of a file and a position in it.\<close>

type_synonym view = "int \<Rightarrow> (u8 list \<times> nat) option"

definition cpath :: "u8 list \<Rightarrow> bool" where
  "cpath p \<longleftrightarrow> 0 \<notin> set p \<and> length p < 2 ^ 64 - 1"

inductive astep :: "(u8 list \<Rightarrow> u8 list option) \<Rightarrow> fop \<Rightarrow> view \<Rightarrow> int \<Rightarrow> u8 list \<Rightarrow> view \<Rightarrow> bool" for look where
  a_open: "look path = Some d \<Longrightarrow> v fd = None \<Longrightarrow> 3 \<le> fd \<Longrightarrow> astep look (FOpen path) v fd [] (v(fd \<mapsto> (d, 0)))"
| a_open_fail: "r < 0 \<Longrightarrow> look path = None \<or> r = K_ENOMEM \<and> MAX_FILES \<le> card (dom v) \<Longrightarrow> astep look (FOpen path) v r [] v"
| a_close: "v fd = Some f \<Longrightarrow> astep look (FClose fd) v K_OK [] (v(fd := None))"
| a_close_fail: "v fd = None \<Longrightarrow> astep look (FClose fd) v K_ENOENT [] v"
| a_read: "v fd = Some (d, p) \<Longrightarrow> bs = take (nat n) (drop p d) \<Longrightarrow>
    astep look (FRead fd n) v (int (length bs)) bs (v(fd \<mapsto> (d, p + length bs)))"
| a_read_fail: "v fd = None \<Longrightarrow> astep look (FRead fd n) v (if fd = 0 then 0 else K_ENOENT) [] v"
| a_seek: "v fd = Some (d, p) \<Longrightarrow> lseek_ref (length d) p off wh = Some p' \<Longrightarrow>
    astep look (FSeek fd off wh) v K_OK [] (v(fd \<mapsto> (d, p')))"
| a_seek_inval: "v fd = Some (d, p) \<Longrightarrow> lseek_ref (length d) p off wh = None \<Longrightarrow> astep look (FSeek fd off wh) v K_EINVAL [] v"
| a_seek_fail: "v fd = None \<Longrightarrow> astep look (FSeek fd off wh) v (if 0 \<le> fd \<and> fd \<le> 2 then K_ENOTSUPP else K_ENOENT) [] v"

inductive_cases a_openE: "astep look (FOpen path) v r bs v'"
inductive_cases a_closeE: "astep look (FClose fd) v r bs v'"
inductive_cases a_readE: "astep look (FRead fd n) v r bs v'"
inductive_cases a_seekE: "astep look (FSeek fd off wh) v r bs v'"

definition fop_ok :: "fop \<Rightarrow> bool" where
  "fop_ok c \<longleftrightarrow> (case c of
      FOpen path \<Rightarrow> cpath path
    | FClose fd \<Rightarrow> True
    | FRead fd n \<Rightarrow> 0 \<le> n \<and> n < 2 ^ 31
    | FSeek fd off wh \<Rightarrow> - (2 ^ 63) \<le> off \<and> off < 2 ^ 63)"

text \<open>What a client of the whole system sees, from what it sees of each object: the contents of the
  file a path names, and the file and position behind a descriptor.\<close>

definition look :: "('o \<Rightarrow> u8 list \<Rightarrow> u8 list option) \<Rightarrow> 'o vfs \<Rightarrow> u8 list \<Rightarrow> u8 list option" where
  "look lookup s path =
     (case longest_mount path (fs_map s) 0 None of
        (n, p) \<Rightarrow> (case deref s p of None \<Rightarrow> None | Some ob \<Rightarrow> lookup ob (drop n path)))"

definition view_of :: "('o \<Rightarrow> view) \<Rightarrow> 'o vfs \<Rightarrow> view" where
  "view_of files s fd =
     (case map_find (global_fd_map s) fd of
        None \<Rightarrow> None
      | Some (p, lfd) \<Rightarrow> (case deref s p of None \<Rightarrow> None | Some ob \<Rightarrow> files ob lfd))"

text \<open>Every open file of an object is behind a descriptor, and every descriptor has a file of its own behind it.\<close>

definition reached :: "('o \<Rightarrow> view) \<Rightarrow> 'o vfs \<Rightarrow> bool" where
  "reached files s \<longleftrightarrow> (\<forall>p ob lfd. deref s p = Some ob \<longrightarrow> files ob lfd \<noteq> None \<longrightarrow> (\<exists>fd. map_find (global_fd_map s) fd = Some (p, lfd)))"

definition vfs_inv :: "('o \<Rightarrow> bool) \<Rightarrow> ('o \<Rightarrow> view) \<Rightarrow> 'o vfs \<Rightarrow> bool" where
  "vfs_inv okay files s \<longleftrightarrow> smap (fs_map s) \<and> smap (global_fd_map s) \<and> 3 \<le> global_fd_counter s \<and>
     (\<forall>fd e. map_find (global_fd_map s) fd = Some e \<longrightarrow> 3 \<le> fd \<and> fd < global_fd_counter s \<and> view_of files s fd \<noteq> None) \<and>
     (\<forall>fd fd' e. map_find (global_fd_map s) fd = Some e \<longrightarrow> map_find (global_fd_map s) fd' = Some e \<longrightarrow> fd = fd') \<and>
     (\<forall>p ob. deref s p = Some ob \<longrightarrow> okay ob) \<and>
     (\<forall>path p df. (path, p, df) \<in> set (fs_map s) \<longrightarrow> p \<noteq> None \<longrightarrow> deref s p \<noteq> None) \<and> reached files s"

lemma reachedD:
  "vfs_inv okay files s \<Longrightarrow> deref s p = Some ob \<Longrightarrow> files ob lfd \<noteq> None \<Longrightarrow> \<exists>fd. map_find (global_fd_map s) fd = Some (p, lfd)"
  unfolding vfs_inv_def reached_def by blast

lemma longest_mount_mem:
  "longest_mount path xs n q = (m, p) \<Longrightarrow>
     (m, p) = (n, q) \<or> (\<exists>k df. (k, p, df) \<in> set xs \<and> prefix k path \<and> m = length k)"
proof (induction xs arbitrary: n q)
  case (Cons x xs)
  obtain k p' df where x: "x = (k, p', df)" by (metis prod_cases3)
  show ?case
  proof (cases "prefix k path \<and> n < length k")
    case True
    then have "longest_mount path xs (length k) p' = (m, p)" using Cons.prems x by simp
    from Cons.IH [OF this] show ?thesis using True x by auto
  next
    case False
    then have "longest_mount path xs n q = (m, p)" using Cons.prems x by (auto split: if_splits)
    from Cons.IH [OF this] show ?thesis by auto
  qed
qed simp

lemma longest_mount_max:
  "longest_mount path xs n q = (m, p) \<Longrightarrow> n \<le> m \<and> (\<forall>x\<in>set xs. prefix (fst x) path \<longrightarrow> length (fst x) \<le> m)"
  by (induction xs arbitrary: n q) (fastforce split: if_splits)+

text \<open>A sequence of calls, and what it promises.\<close>

fun libc_hooks :: "'o fs_ops \<Rightarrow> fop list \<Rightarrow> 'o vfs \<Rightarrow> ((int \<times> u8 list) list \<times> 'o vfs) option" where
  "libc_hooks V [] s = Some ([], s)"
| "libc_hooks V (c # cs) s = do {
     (r, bs, s1) \<leftarrow> libc_hook V c s;
     (rs, s2) \<leftarrow> libc_hooks V cs s1;
     Some ((r, bs) # rs, s2)
   }"

inductive asteps :: "(u8 list \<Rightarrow> u8 list option) \<Rightarrow> fop list \<Rightarrow> view \<Rightarrow> (int \<times> u8 list) list \<Rightarrow> view \<Rightarrow> bool" for look where
  as_Nil: "asteps look [] v [] v"
| as_Cons: "astep look c v r bs v1 \<Longrightarrow> asteps look cs v1 rs v2 \<Longrightarrow> asteps look (c # cs) v ((r, bs) # rs) v2"

inductive_cases as_NilE: "asteps lk [] v rs v'"
inductive_cases as_ConsE: "asteps lk (c # cs) v rs v'"

text \<open>The answers to the calls on an open descriptor are determined.\<close>

lemma as_open: "asteps lk (FOpen path # cs) v ((r, bs) # rs) v' \<Longrightarrow> lk path = Some d \<Longrightarrow> 0 \<le> r \<Longrightarrow> asteps lk cs (v(r \<mapsto> (d, 0))) rs v'"
  by (auto elim!: as_ConsE a_openE)

lemma as_read:
  "asteps lk (FRead fd n # cs) v rs v' \<Longrightarrow> v fd = Some (d, p) \<Longrightarrow>
     \<exists>rs'. rs = (int (length (take (nat n) (drop p d))), take (nat n) (drop p d)) # rs' \<and>
       asteps lk cs (v(fd \<mapsto> (d, p + length (take (nat n) (drop p d))))) rs' v'"
  by (auto elim!: as_ConsE a_readE)

lemma as_seek:
  "asteps lk (FSeek fd off wh # cs) v rs v' \<Longrightarrow> v fd = Some (d, p) \<Longrightarrow> lseek_ref (length d) p off wh = Some p' \<Longrightarrow>
     \<exists>rs'. rs = (K_OK, []) # rs' \<and> asteps lk cs (v(fd \<mapsto> (d, p'))) rs' v'"
  by (auto elim!: as_ConsE a_seekE)

lemma as_close: "asteps lk (FClose fd # cs) v rs v' \<Longrightarrow> v fd = Some f \<Longrightarrow> \<exists>rs'. rs = (K_OK, []) # rs' \<and> asteps lk cs (v(fd := None)) rs' v'"
  by (auto elim!: as_ConsE a_closeE)

lemma hook_counter: "libc_hook V c s = Some (r, bs, s') \<Longrightarrow> global_fd_counter s' \<le> global_fd_counter s + 1"
  by (auto simp: libc_hook_def vfs_open_def vfs_close_def vfs_read_def vfs_lseek_def Let_def set_obj_def
      split: fop.splits option.splits prod.splits if_splits bind_splits)

text \<open>No control block of an object is free.\<close>

definition all_open :: "view \<Rightarrow> bool" where
  "all_open v \<longleftrightarrow> (\<forall>lfd. 0 \<le> lfd \<and> lfd < int MAX_FILES \<longrightarrow> v lfd \<noteq> None)"

text \<open>The contract of \<open>BasicFS\<close>: \<open>files\<close> is what a client sees of an object, \<open>lookup\<close> the files it has.\<close>

locale basic_fs =
  fixes V :: "'o fs_ops"
    and okay :: "'o \<Rightarrow> bool"
    and files :: "'o \<Rightarrow> view"
    and lookup :: "'o \<Rightarrow> u8 list \<Rightarrow> u8 list option"
  assumes open_law: "okay ob \<Longrightarrow> cpath path \<Longrightarrow> \<exists>r ob'. op_open V path fl mo ob = Some (r, ob') \<and> okay ob' \<and> lookup ob' = lookup ob \<and>
      (if r < 0 then files ob' = files ob \<and> (lookup ob path = None \<or> r = K_ENOMEM \<and> all_open (files ob))
       else files ob r = None \<and> (\<exists>d. lookup ob path = Some d \<and> files ob' = (files ob)(r \<mapsto> (d, 0))))"
    and close_law: "okay ob \<Longrightarrow> files ob fd = Some f \<Longrightarrow>
      \<exists>ob'. op_close V fd ob = Some (K_OK, ob') \<and> okay ob' \<and> lookup ob' = lookup ob \<and> files ob' = (files ob)(fd := None)"
    and read_law: "okay ob \<Longrightarrow> files ob fd = Some (d, p) \<Longrightarrow> 0 \<le> n \<Longrightarrow> n < 2 ^ 31 \<Longrightarrow> bs = take (nat n) (drop p d) \<Longrightarrow>
      \<exists>ob'. op_read V fd (of_int n) ob = Some (int (length bs), bs, ob') \<and> okay ob' \<and> lookup ob' = lookup ob \<and>
        files ob' = (files ob)(fd \<mapsto> (d, p + length bs))"
    and lseek_law: "okay ob \<Longrightarrow> files ob fd = Some (d, p) \<Longrightarrow> - (2 ^ 63) \<le> off \<Longrightarrow> off < 2 ^ 63 \<Longrightarrow>
      \<exists>ob'. op_lseek V fd off wh ob = Some (case lseek_ref (length d) p off wh of None \<Rightarrow> K_EINVAL | Some _ \<Rightarrow> K_OK, ob') \<and>
        okay ob' \<and> lookup ob' = lookup ob \<and>
        files ob' = (case lseek_ref (length d) p off wh of None \<Rightarrow> files ob | Some p' \<Rightarrow> (files ob)(fd \<mapsto> (d, p')))"
begin

lemma deref_Some: "deref s p = Some ob \<Longrightarrow> \<exists>i. p = Some i \<and> i < length (fs_objs s) \<and> fs_objs s ! i = Some ob"
  by (auto simp: deref_def split: option.splits if_splits)

lemma deref_set:
  "deref s p = Some ob \<Longrightarrow> deref (set_obj p (Some ob') s) q = (if q = p then Some ob' else deref s q)"
  by (drule deref_Some) (auto simp: deref_def set_obj_def nth_list_update split: option.splits)

lemma set_obj_frame [simp]:
  "fs_map (set_obj p v s) = fs_map s" "global_fd_map (set_obj p v s) = global_fd_map s"
  "global_fd_counter (set_obj p v s) = global_fd_counter s" "fs_factories (set_obj p v s) = fs_factories s"
  by (auto simp: set_obj_def split: option.splits)

lemma deref_frame [simp]:
  "deref (s\<lparr>global_fd_map := m\<rparr>) p = deref s p" "deref (s\<lparr>global_fd_counter := c\<rparr>) p = deref s p"
  "deref (s\<lparr>fs_map := f\<rparr>) p = deref s p"
  by (simp_all add: deref_def split: option.split)

lemma look_set: "deref s p = Some ob \<Longrightarrow> lookup ob' = lookup ob \<Longrightarrow> look lookup (set_obj p (Some ob') s) = look lookup s"
  by (rule ext) (auto simp: look_def deref_set split: option.splits prod.splits)

lemma view_set:
  assumes "vfs_inv okay files s" "deref s p = Some ob" "files ob' = (files ob)(lfd := x)"
  shows "view_of files (set_obj p (Some ob') s) =
    (\<lambda>fd. if map_find (global_fd_map s) fd = Some (p, lfd) then x else view_of files s fd)"
  using assms(2,3) by (auto simp: view_of_def deref_set fun_eq_iff split: option.splits)

lemma view_step:
  assumes inv: "vfs_inv okay files s" and fd: "map_find (global_fd_map s) fd = Some (p, lfd)"
    and ob: "deref s p = Some ob" "okay ob'" "files ob' = (files ob)(lfd := x)" "lookup ob' = lookup ob"
  shows "view_of files (set_obj p (Some ob') s) = (view_of files s)(fd := x)"
    "look lookup (set_obj p (Some ob') s) = look lookup s"
    "x \<noteq> None \<Longrightarrow> vfs_inv okay files (set_obj p (Some ob') s)"
proof -
  show v: "view_of files (set_obj p (Some ob') s) = (view_of files s)(fd := x)"
    using view_set [OF inv ob(1,3)] inv fd by (auto simp: vfs_inv_def fun_eq_iff)
  show "look lookup (set_obj p (Some ob') s) = look lookup s" by (rule look_set [OF ob(1,4)])
  assume x: "x \<noteq> None"
  have "reached files (set_obj p (Some ob') s)"
    using inv ob(1,3) fd by (auto simp: vfs_inv_def reached_def deref_set split: if_splits)
  with x show "vfs_inv okay files (set_obj p (Some ob') s)"
    using inv ob(1,2) unfolding vfs_inv_def v by (simp add: deref_set)
qed

lemma view_cases:
  assumes "vfs_inv okay files s"
  obtains "map_find (global_fd_map s) fd = None" "view_of files s fd = None"
  | p lfd ob d pos where "map_find (global_fd_map s) fd = Some (p, lfd)" "deref s p = Some ob" "okay ob"
      "files ob lfd = Some (d, pos)" "view_of files s fd = Some (d, pos)" "3 \<le> fd"
proof (cases "map_find (global_fd_map s) fd")
  case None
  then show ?thesis using that(1) by (simp add: view_of_def)
next
  case (Some e)
  obtain p lfd where e: "e = (p, lfd)" by fastforce
  have "view_of files s fd \<noteq> None" "3 \<le> fd" using assms Some by (auto simp: vfs_inv_def)
  then obtain ob d pos where "deref s p = Some ob" "files ob lfd = Some (d, pos)"
    using Some e by (auto simp: view_of_def split: option.splits)
  then show ?thesis using assms Some e \<open>3 \<le> fd\<close> by (intro that(2)) (auto simp: view_of_def vfs_inv_def)
qed

lemma read_step:
  assumes inv: "vfs_inv okay files s" and n: "0 \<le> n" "n < 2 ^ 31"
  shows "\<exists>r bs s'. vfs_read V fd n s = Some (r, bs, s') \<and> vfs_inv okay files s' \<and> look lookup s' = look lookup s \<and>
    astep (look lookup s) (FRead fd n) (view_of files s) r bs (view_of files s')"
proof (rule view_cases [OF inv, of fd])
  assume v: "map_find (global_fd_map s) fd = None" "view_of files s fd = None"
  then show ?thesis using inv a_read_fail [of "view_of files s" fd "look lookup s" n]
    by (auto simp: vfs_read_def FILE_STDIN_def)
next
  fix p lfd ob d pos
  assume v: "map_find (global_fd_map s) fd = Some (p, lfd)" "deref s p = Some ob" "okay ob"
    "files ob lfd = Some (d, pos)" "view_of files s fd = Some (d, pos)" "3 \<le> fd"
  let ?bs = "take (nat n) (drop pos d)"
  obtain ob' where o: "op_read V lfd (of_int n) ob = Some (int (length ?bs), ?bs, ob')" "okay ob'" "lookup ob' = lookup ob"
    "files ob' = (files ob)(lfd \<mapsto> (d, pos + length ?bs))"
    using read_law [OF v(3,4) n refl] by blast
  note u = view_step [OF inv v(1,2) o(2,4,3)]
  have "vfs_read V fd n s = Some (int (length ?bs), ?bs, set_obj p (Some ob') s)"
    using v(1,2,6) o(1) by (simp add: vfs_read_def FILE_STDIN_def)
  moreover have "astep (look lookup s) (FRead fd n) (view_of files s) (int (length ?bs)) ?bs (view_of files (set_obj p (Some ob') s))"
    unfolding u(1) using v(5) by (rule a_read) simp
  ultimately show ?thesis using u(2,3) by blast
qed

lemma close_step:
  assumes inv: "vfs_inv okay files s"
  shows "\<exists>r s'. vfs_close V fd s = Some (r, s') \<and> vfs_inv okay files s' \<and> look lookup s' = look lookup s \<and>
    astep (look lookup s) (FClose fd) (view_of files s) r [] (view_of files s')"
proof (rule view_cases [OF inv, of fd])
  assume v: "map_find (global_fd_map s) fd = None" "view_of files s fd = None"
  then show ?thesis using inv a_close_fail [of "view_of files s" fd "look lookup s"] by (auto simp: vfs_close_def)
next
  fix p lfd ob d pos
  assume v: "map_find (global_fd_map s) fd = Some (p, lfd)" "deref s p = Some ob" "okay ob"
    "files ob lfd = Some (d, pos)" "view_of files s fd = Some (d, pos)" "3 \<le> fd"
  obtain ob' where o: "op_close V lfd ob = Some (K_OK, ob')" "okay ob'" "lookup ob' = lookup ob" "files ob' = (files ob)(lfd := None)"
    using close_law [OF v(3,4)] by blast
  note u = view_step [OF inv v(1,2) o(2,4,3)]
  let ?s = "set_obj p (Some ob') s" let ?s' = "?s\<lparr>global_fd_map := map_erase fd (global_fd_map s)\<rparr>"
  have "view_of files ?s' = (\<lambda>f. if f = fd then None else view_of files ?s f)"
    by (auto simp: view_of_def fun_eq_iff split: option.splits)
  then have w: "view_of files ?s' = (view_of files s)(fd := None)" unfolding u(1) by auto
  have "look lookup ?s' = look lookup ?s" by (rule ext) (simp add: look_def)
  then have l: "look lookup ?s' = look lookup s" using u(2) by simp
  have "reached files ?s'" unfolding reached_def
  proof (intro allI impI)
    fix q ob1 l assume a: "deref ?s' q = Some ob1" "files ob1 l \<noteq> None"
    then have "if q = p then files ob l \<noteq> None \<and> l \<noteq> lfd else deref s q = Some ob1" using v(2) o(4) by (auto simp: deref_set split: if_splits)
    then obtain f where f: "map_find (global_fd_map s) f = Some (q, l)"
      using reachedD [OF inv v(2), of l] reachedD [OF inv _ a(2), of q] by (cases "q = p") auto
    have "f \<noteq> fd" using a f v(1,2) o(4) by (auto simp: deref_set)
    with f show "\<exists>f. map_find (global_fd_map ?s') f = Some (q, l)" by auto
  qed
  then have "vfs_inv okay files ?s'"
    using inv v(2) o(2) unfolding vfs_inv_def w by (simp add: deref_set)
  moreover have "vfs_close V fd s = Some (K_OK, ?s')" using v(1,2) o(1) by (simp add: vfs_close_def Let_def)
  moreover have "astep (look lookup s) (FClose fd) (view_of files s) K_OK [] (view_of files ?s')"
    unfolding w using v(5) by (rule a_close)
  ultimately show ?thesis using l by blast
qed

lemma lseek_step:
  assumes inv: "vfs_inv okay files s" and n: "- (2 ^ 63) \<le> off" "off < 2 ^ 63"
  shows "\<exists>r s'. vfs_lseek V fd off wh s = Some (r, s') \<and> vfs_inv okay files s' \<and> look lookup s' = look lookup s \<and>
    astep (look lookup s) (FSeek fd off wh) (view_of files s) r [] (view_of files s')"
proof (rule view_cases [OF inv, of fd])
  assume v: "map_find (global_fd_map s) fd = None" "view_of files s fd = None"
  have "fd = FILE_STDIN \<or> fd = FILE_STDOUT \<or> fd = FILE_STDERR \<longleftrightarrow> 0 \<le> fd \<and> fd \<le> 2"
    by (auto simp: FILE_STDIN_def FILE_STDOUT_def FILE_STDERR_def)
  then show ?thesis using v inv a_seek_fail [of "view_of files s" fd "look lookup s" off wh] by (auto simp: vfs_lseek_def)
next
  fix p lfd ob d pos
  assume v: "map_find (global_fd_map s) fd = Some (p, lfd)" "deref s p = Some ob" "okay ob"
    "files ob lfd = Some (d, pos)" "view_of files s fd = Some (d, pos)" "3 \<le> fd"
  obtain ob' where o: "op_lseek V lfd off wh ob = Some (case lseek_ref (length d) pos off wh of None \<Rightarrow> K_EINVAL | Some _ \<Rightarrow> K_OK, ob')"
    "okay ob'" "lookup ob' = lookup ob"
    "files ob' = (case lseek_ref (length d) pos off wh of None \<Rightarrow> files ob | Some p' \<Rightarrow> (files ob)(lfd \<mapsto> (d, p')))"
    using lseek_law [OF v(3,4) n] by blast
  have n3: "fd \<noteq> FILE_STDIN" "fd \<noteq> FILE_STDOUT" "fd \<noteq> FILE_STDERR"
    using v(6) by (auto simp: FILE_STDIN_def FILE_STDOUT_def FILE_STDERR_def)
  let ?s = "set_obj p (Some ob') s"
  show ?thesis
  proof (cases "lseek_ref (length d) pos off wh")
    case None
    have "files ob' = (files ob)(lfd := Some (d, pos))" using o(4) None v(4) by auto
    note u = view_step [OF inv v(1,2) o(2) this o(3)]
    have "view_of files ?s = view_of files s" using u(1) v(5) by (simp add: fun_upd_idem)
    then have "astep (look lookup s) (FSeek fd off wh) (view_of files s) K_EINVAL [] (view_of files ?s)"
      using a_seek_inval [where v = "view_of files s" and fd = fd, OF v(5) None] by simp
    then show ?thesis using u(2,3) v(1,2) o(1) None n3 by (simp add: vfs_lseek_def)
  next
    case (Some p')
    have "files ob' = (files ob)(lfd := Some (d, p'))" using o(4) Some by simp
    note u = view_step [OF inv v(1,2) o(2) this o(3)]
    have "astep (look lookup s) (FSeek fd off wh) (view_of files s) K_OK [] (view_of files ?s)"
      unfolding u(1) using v(5) Some by (rule a_seek)
    then show ?thesis using u(2,3) v(1,2) o(1) Some n3 by (simp add: vfs_lseek_def)
  qed
qed

lemma new_descriptor:
  assumes inv: "vfs_inv okay files s" and ob: "deref s p = Some ob" "okay ob'" "lookup ob' = lookup ob"
    and d: "files ob r = None" "files ob' = (files ob)(r \<mapsto> (d, 0))"
    and s': "s' = (set_obj p (Some ob') s)\<lparr>global_fd_counter := global_fd_counter s + 1,
      global_fd_map := map_insert (global_fd_counter s) (p, r) (global_fd_map s)\<rparr>"
  shows "view_of files s (global_fd_counter s) = None" "3 \<le> global_fd_counter s"
    "view_of files s' = (view_of files s)(global_fd_counter s \<mapsto> (d, 0))" "look lookup s' = look lookup s" "vfs_inv okay files s'"
proof -
  let ?s = "set_obj p (Some ob') s"
  let ?fd = "global_fd_counter s"
  have new: "map_find (global_fd_map s) ?fd = None" "3 \<le> ?fd" "smap (global_fd_map s)"
  proof -
    show "map_find (global_fd_map s) ?fd = None"
      by (rule view_cases [OF inv, of ?fd]) (use inv in \<open>auto simp: vfs_inv_def\<close>)
    show "3 \<le> ?fd" "smap (global_fd_map s)" using inv by (auto simp: vfs_inv_def)
  qed
  then have fm: "map_find (map_insert ?fd (p, r) (global_fd_map s)) = (map_find (global_fd_map s))(?fd \<mapsto> (p, r))"
    by (auto simp: find_insert fun_eq_iff)
  have nr: "map_find (global_fd_map s) f \<noteq> Some (p, r)" for f
  proof
    assume a: "map_find (global_fd_map s) f = Some (p, r)"
    show False by (rule view_cases [OF inv, of f]) (use a ob(1) d(1) in auto)
  qed
  have "view_of files s' = (view_of files ?s)(?fd \<mapsto> (d, 0))"
    using d(2) ob(1) by (auto simp: s' view_of_def fm fun_eq_iff deref_set split: option.splits)
  also have "view_of files ?s = view_of files s" using view_set [OF inv ob(1) d(2)] nr by auto
  finally show w: "view_of files s' = (view_of files s)(?fd \<mapsto> (d, 0))" .
  have "look lookup s' = look lookup ?s" unfolding s' by (rule ext) (simp add: look_def)
  then show "look lookup s' = look lookup s" using look_set [OF ob(1,3)] by simp
  have old: "3 \<le> f \<and> f < ?fd \<and> view_of files s f \<noteq> None" if "map_find (global_fd_map s) f = Some e" for f e
    using inv that unfolding vfs_inv_def by blast
  have inj: "f = f'" if "map_find (global_fd_map s) f = Some e" "map_find (global_fd_map s) f' = Some e" for f f' e
    using inv that unfolding vfs_inv_def by blast
  show "vfs_inv okay files s'" unfolding vfs_inv_def w
  proof (intro conjI allI impI)
    fix f e assume "map_find (global_fd_map s') f = Some e"
    then show "3 \<le> f" "f < global_fd_counter s'" "((view_of files s)(?fd \<mapsto> (d, 0))) f \<noteq> None"
      using old [of f e] new(2) by (auto simp: s' fm split: if_splits)
  next
    fix f f' e assume "map_find (global_fd_map s') f = Some e" "map_find (global_fd_map s') f' = Some e"
    then show "f = f'" using inj [of f e f'] nr by (auto simp: s' fm split: if_splits)
  next
    fix k q df assume "(k, q, df) \<in> set (fs_map s')" "q \<noteq> None"
    then have "(k, q, df) \<in> set (fs_map s)" by (simp add: s')
    then have "deref s q \<noteq> None" using inv \<open>q \<noteq> None\<close> unfolding vfs_inv_def by blast
    then show "deref s' q \<noteq> None" using ob(1) by (simp add: s' deref_set)
  next
    show "reached files s'" unfolding reached_def
    proof (intro allI impI)
      fix q ob1 l assume a: "deref s' q = Some ob1" "files ob1 l \<noteq> None"
      show "\<exists>f. map_find (global_fd_map s') f = Some (q, l)"
      proof (cases "q = p \<and> l = r")
        case True
        then show ?thesis by (auto simp: s' fm)
      next
        case False
        then have "if q = p then files ob l \<noteq> None else deref s q = Some ob1" using a ob(1) d(2) by (auto simp: s' deref_set split: if_splits)
        then obtain f where f: "map_find (global_fd_map s) f = Some (q, l)"
          using reachedD [OF inv ob(1), of l] reachedD [OF inv _ a(2), of q] by (cases "q = p") auto
        then have "f \<noteq> ?fd" using new(1) by auto
        with f show ?thesis by (auto simp: s' fm)
      qed
    qed
  qed (use inv ob(1) ob(2) new in \<open>auto simp: s' vfs_inv_def deref_set split: if_splits\<close>)
  show "view_of files s ?fd = None" using new(1) by (simp add: view_of_def)
  show "3 \<le> ?fd" by (rule new(2))
qed

lemma all_open_card:
  assumes inv: "vfs_inv okay files s" and ob: "deref s p = Some ob" and a: "all_open (files ob)"
  shows "MAX_FILES \<le> card (dom (view_of files s))"
proof -
  have "\<forall>l\<in>{0..<int MAX_FILES}. \<exists>fd. map_find (global_fd_map s) fd = Some (p, l)"
    using inv ob a by (auto simp: vfs_inv_def reached_def all_open_def)
  then obtain g where g: "\<And>l. l \<in> {0..<int MAX_FILES} \<Longrightarrow> map_find (global_fd_map s) (g l) = Some (p, l)" by metis
  have "inj_on g {0..<int MAX_FILES}" by (rule inj_onI) (metis g option.inject prod.inject)
  then have "card (g ` {0..<int MAX_FILES}) = MAX_FILES" by (simp add: card_image)
  moreover have "g ` {0..<int MAX_FILES} \<subseteq> dom (view_of files s)"
    using g ob a by (fastforce simp: view_of_def all_open_def)
  moreover have "dom (view_of files s) \<subseteq> fst ` set (global_fd_map s)"
    by (auto simp: view_of_def map_find_def split: option.splits dest!: map_of_SomeD) (force simp: image_def)
  ultimately show ?thesis by (metis card_mono finite_imageI finite_set finite_subset)
qed

lemma open_step:
  assumes inv: "vfs_inv okay files s" and c: "cpath path" and n: "global_fd_counter s < 2 ^ 31 - 1"
  shows "\<exists>r s'. vfs_open V path fl mo s = Some (r, s') \<and> vfs_inv okay files s' \<and> look lookup s' = look lookup s \<and>
    astep (look lookup s) (FOpen path) (view_of files s) r [] (view_of files s')"
proof -
  obtain m p where lm: "longest_mount path (fs_map s) 0 None = (m, p)" by fastforce
  show ?thesis
  proof (cases p)
    case None
    have "look lookup s path = None" using lm None by (simp add: look_def deref_def)
    then have "astep (look lookup s) (FOpen path) (view_of files s) K_ENOENT [] (view_of files s)"
      by (intro a_open_fail) (auto simp: K_ENOENT_def)
    then show ?thesis using lm None inv by (simp add: vfs_open_def)
  next
    case (Some i)
    then obtain k df where k: "(k, p, df) \<in> set (fs_map s)" using longest_mount_mem [OF lm] by auto
    then obtain ob where ob: "deref s p = Some ob" "okay ob" using inv Some unfolding vfs_inv_def by blast
    have l: "look lookup s path = lookup ob (drop m path)" using lm ob(1) by (simp add: look_def)
    have "cpath (drop m path)" using c by (auto simp: cpath_def dest: in_set_dropD)
    from open_law [OF ob(2) this, of fl mo]
    obtain r ob' where o: "op_open V (drop m path) fl mo ob = Some (r, ob')" "okay ob'" "lookup ob' = lookup ob"
      "if r < 0 then files ob' = files ob \<and> (lookup ob (drop m path) = None \<or> r = K_ENOMEM \<and> all_open (files ob))
       else files ob r = None \<and> (\<exists>d. lookup ob (drop m path) = Some d \<and> files ob' = (files ob)(r \<mapsto> (d, 0)))"
      by blast
    let ?s = "set_obj p (Some ob') s"
    have ls: "look lookup ?s = look lookup s" by (rule look_set [OF ob(1) o(3)])
    show ?thesis
    proof (cases "r < 0")
      case True
      then have f: "files ob' = (files ob)" "lookup ob (drop m path) = None \<or> r = K_ENOMEM \<and> MAX_FILES \<le> card (dom (view_of files s))"
        using o(4) True all_open_card [OF inv ob(1)] by auto
      have v: "view_of files ?s = view_of files s"
        using ob(1) f(1) by (auto simp: view_of_def deref_set fun_eq_iff split: option.splits)
      have "reached files ?s" using inv ob(1) f(1) by (auto simp: vfs_inv_def reached_def deref_set split: if_splits)
      then have "vfs_inv okay files ?s" using inv ob(1) o(2) unfolding vfs_inv_def v by (simp add: deref_set)
      moreover have "astep (look lookup s) (FOpen path) (view_of files s) r [] (view_of files ?s)"
        unfolding v using True f(2) l by (intro a_open_fail) auto
      moreover have "vfs_open V path fl mo s = Some (r, ?s)"
        using lm Some ob(1) o(1) True by (simp add: vfs_open_def Let_def)
      ultimately show ?thesis using ls by blast
    next
      case False
      then obtain d where d: "files ob r = None" "lookup ob (drop m path) = Some d" "files ob' = (files ob)(r \<mapsto> (d, 0))"
        using o(4) by auto
      let ?fd = "global_fd_counter s"
      let ?s' = "?s\<lparr>global_fd_counter := ?fd + 1, global_fd_map := map_insert ?fd (p, r) (global_fd_map s)\<rparr>"
      note w = new_descriptor [OF inv ob(1) o(2,3) d(1,3) refl]
      moreover have "astep (look lookup s) (FOpen path) (view_of files s) ?fd [] (view_of files ?s')"
        unfolding w(3) using l d(2) w(1,2) by (intro a_open) simp_all
      moreover have "vfs_open V path fl mo s = Some (?fd, ?s')"
        using lm Some ob(1) o(1) False n by (simp add: vfs_open_def Let_def)
      ultimately show ?thesis using w(4,5) by blast
    qed
  qed
qed

lemma hook_step:
  assumes "vfs_inv okay files s" "fop_ok c" "global_fd_counter s < 2 ^ 31 - 1"
  shows "\<exists>r bs s'. libc_hook V c s = Some (r, bs, s') \<and> vfs_inv okay files s' \<and> look lookup s' = look lookup s \<and>
    astep (look lookup s) c (view_of files s) r bs (view_of files s')"
proof (cases c)
  case (FOpen path)
  then show ?thesis using open_step [OF assms(1) _ assms(3), of path 0 0] assms(2) by (force simp: libc_hook_def fop_ok_def)
next
  case (FClose fd)
  then show ?thesis using close_step [OF assms(1), of fd] by (force simp: libc_hook_def)
next
  case (FRead fd n)
  then show ?thesis using read_step [OF assms(1), of n fd] assms(2) by (force simp: libc_hook_def fop_ok_def)
next
  case (FSeek fd off wh)
  then show ?thesis using lseek_step [OF assms(1), of off fd wh] assms(2) by (force simp: libc_hook_def fop_ok_def)
qed

lemma hooks_steps:
  "vfs_inv okay files s \<Longrightarrow> list_all fop_ok cs \<Longrightarrow> global_fd_counter s + int (length cs) < 2 ^ 31 \<Longrightarrow>
     \<exists>rs s'. libc_hooks V cs s = Some (rs, s') \<and> vfs_inv okay files s' \<and>
       asteps (look lookup s) cs (view_of files s) rs (view_of files s')"
proof (induction cs arbitrary: s)
  case Nil
  then show ?case by (auto intro: as_Nil)
next
  case (Cons c cs)
  then obtain r bs s1 where h: "libc_hook V c s = Some (r, bs, s1)" "vfs_inv okay files s1" "look lookup s1 = look lookup s"
    "astep (look lookup s) c (view_of files s) r bs (view_of files s1)"
    using hook_step [OF Cons.prems(1), of c] by auto
  have "global_fd_counter s1 + int (length cs) < 2 ^ 31" using hook_counter [OF h(1)] Cons.prems(3) by simp
  then obtain rs s2 where "libc_hooks V cs s1 = Some (rs, s2)" "vfs_inv okay files s2"
    "asteps (look lookup s1) cs (view_of files s1) rs (view_of files s2)"
    using Cons.IH [OF h(2)] Cons.prems(2) by auto
  then show ?case using h as_Cons [OF h(4)] by auto
qed

end

section \<open>The file systems keep the contract\<close>

definition fsobj_ok :: "fsobj \<Rightarrow> bool" where
  "fsobj_ok ob \<longleftrightarrow> (case ob of
     CpioObj c \<Rightarrow> (\<exists>fs. mounted fs c) \<and> length (snd (cf_archive c)) < 2 ^ 63 | DevObj \<Rightarrow> True)"

definition cpio_lookup :: "cpiofs \<Rightarrow> u8 list \<Rightarrow> u8 list option" where
  "cpio_lookup c path =
     (let A = cf_archive c in
      case cpio_get_file A (fst A) (cf_archive_len c) path of
        Some (Some i) \<Rightarrow> Some (take (filesize i) (drop (fdata i - fst A) (snd A)))
      | _ \<Rightarrow> None)"

definition fsobj_files :: "fsobj \<Rightarrow> view" where
  "fsobj_files ob = (case ob of CpioObj c \<Rightarrow> cpio_files c | DevObj \<Rightarrow> (\<lambda>_. None))"

definition fsobj_lookup :: "fsobj \<Rightarrow> u8 list \<Rightarrow> u8 list option" where
  "fsobj_lookup ob = (case ob of CpioObj c \<Rightarrow> cpio_lookup c | DevObj \<Rightarrow> (\<lambda>_. None))"

lemma mounted_lookup:
  assumes "mounted fs c" "cpath path"
  shows "cpio_lookup c path = map_option cf_data (find (\<lambda>f. cf_name f = path) fs)"
proof -
  let ?A = "cf_archive c"
  have A: "?A = (fst ?A, archive_bytes fs)" "fst ?A mod 4 = 0" "files_ok fs" "cf_archive_len c = length (archive_bytes fs)"
    using assms(1) by (auto simp: mounted_def intro: prod_eqI)
  note g = get_file_reading [OF reading_archive [OF A(3,2)], folded A(1,4), of path]
  show ?thesis using g assms(2) by (auto simp: cpio_lookup_def cpath_def Let_def at_slice split: option.splits)
qed

lemma cpio_files_with_pos:
  assumes "cpiofs_inv c" "fd_open c fd" "p \<le> fcb_size (cf_fcb c ! nat fd)"
  shows "cpio_files (with_pos fd p c) = (cpio_files c)(fd \<mapsto> (fd_data c fd, unat p))"
proof
  fix f
  note w = with_pos [OF assms]
  have "fd_open (with_pos fd p c) f \<longleftrightarrow> fd_open c f"
    using assms(2) fd_openD(2) [OF assms(1,2)]
    by (cases "nat fd = nat f") (auto simp: fd_open_def bad_fd_def with_pos_def)
  then show "cpio_files (with_pos fd p c) f = ((cpio_files c)(fd \<mapsto> (fd_data c fd, unat p))) f"
    using w by (auto simp: cpio_files_def)
qed

lemma cpio_lookup_frame: "cf_archive c' = cf_archive c \<Longrightarrow> cf_archive_len c' = cf_archive_len c \<Longrightarrow> cpio_lookup c' = cpio_lookup c"
  by (rule ext) (simp add: cpio_lookup_def)

lemma cpio_with_pos_law:
  assumes ok: "fsobj_ok (CpioObj c)" and fd: "cpio_files c fd = Some (d, p)" and p': "p' \<le> length d"
  shows "fsobj_ok (CpioObj (with_pos fd (of_nat p') c))" "cpio_lookup (with_pos fd (of_nat p') c) = cpio_lookup c"
    "cpio_files (with_pos fd (of_nat p') c) = (cpio_files c)(fd \<mapsto> (d, p'))"
proof -
  from ok obtain fs where m: "mounted fs c" "length (snd (cf_archive c)) < 2 ^ 63" by (auto simp: fsobj_ok_def)
  have o: "fd_open c fd" "fd_data c fd = d" "cpiofs_inv c" using fd m by (auto simp: cpio_files_def mounted_def split: if_splits)
  have "length d < 2 ^ 63" using o(2) m(2) by (auto simp: fd_data_def Let_def)
  then have u: "unat (of_nat p' :: u64) = p'" using p' by (intro unat_of_nat64) simp
  then have le: "(of_nat p' :: u64) \<le> fcb_size (cf_fcb c ! nat fd)"
    using fd_openD(5) [OF o(3,1)] o(2) p' by (simp add: word_le_nat_alt)
  show "cpio_files (with_pos fd (of_nat p') c) = (cpio_files c)(fd \<mapsto> (d, p'))"
    using cpio_files_with_pos [OF o(3,1) le] o(2) u by simp
  show "fsobj_ok (CpioObj (with_pos fd (of_nat p') c))"
    using mounted_with_pos [OF m(1) o(1) le] m(2) by (auto simp: fsobj_ok_def) (simp add: with_pos_def)
  show "cpio_lookup (with_pos fd (of_nat p') c) = cpio_lookup c" by (rule cpio_lookup_frame) (simp_all add: with_pos_def)
qed

lemma lseek_ref_bound: "lseek_ref n p off wh = Some p' \<Longrightarrow> p' \<le> n"
  by (auto simp: lseek_ref_def Let_def split: if_splits)

lemma cpio_close_law:
  assumes ok: "fsobj_ok (CpioObj c)" and fd: "cpio_files c fd = Some f"
  shows "\<exists>c'. cpiofs_close fd c = (K_OK, c') \<and> fsobj_ok (CpioObj c') \<and> cpio_lookup c' = cpio_lookup c \<and>
    cpio_files c' = (cpio_files c)(fd := None)"
proof -
  from ok obtain fs where m: "mounted fs c" "length (snd (cf_archive c)) < 2 ^ 63" by (auto simp: fsobj_ok_def)
  have o: "fd_open c fd" "cpiofs_inv c" using fd m by (auto simp: cpio_files_def mounted_def split: if_splits)
  note d = fd_openD [OF o(2,1)]
  let ?c = "c\<lparr>cf_fcb := (cf_fcb c)[nat fd := fcb_free]\<rparr>"
  have "mounted fs ?c" using m(1) inv_update [OF o(2), of fcb_free "nat fd"] by (simp add: mounted_def fcb_ok_def fcb_free_def)
  then have "fsobj_ok (CpioObj ?c)" using m(2) by (auto simp: fsobj_ok_def)
  moreover have "cpio_lookup ?c = cpio_lookup c" by (rule cpio_lookup_frame) simp_all
  moreover have "cpio_files ?c g = ((cpio_files c)(fd := None)) g" for g
  proof (cases "nat g = nat fd")
    case True
    have "\<not> fd_open ?c g" using d(2) True by (simp add: fd_open_def bad_fd_def fcb_free_def)
    moreover have "g = fd \<or> \<not> fd_open c g" using True d(1) by (auto simp: fd_open_def bad_fd_def)
    ultimately show ?thesis by (auto simp: cpio_files_def)
  next
    case False
    then show ?thesis by (auto simp: cpio_files_def fd_open_def bad_fd_def fd_data_def fd_pos_def)
  qed
  ultimately show ?thesis using o(1) by (auto simp: cpiofs_close_def fd_open_def)
qed

lemma cpio_open_law:
  assumes ok: "fsobj_ok (CpioObj c)" and path: "cpath path"
  shows "\<exists>r c'. cpiofs_open path fl mo c = Some (r, c') \<and> fsobj_ok (CpioObj c') \<and> cpio_lookup c' = cpio_lookup c \<and>
    (if r < 0 then c' = c \<and> (cpio_lookup c path = None \<or> r = K_ENOMEM \<and> all_open (cpio_files c))
     else cpio_files c r = None \<and> (\<exists>d. cpio_lookup c path = Some d \<and> cpio_files c' = (cpio_files c)(r \<mapsto> (d, 0))))"
proof -
  from ok obtain fs where m: "mounted fs c" "length (snd (cf_archive c)) < 2 ^ 63" by (auto simp: fsobj_ok_def)
  have l: "cpio_lookup c path = map_option cf_data (find (\<lambda>f. cf_name f = path) fs)" by (rule mounted_lookup [OF m(1) path])
  have o: "case find (\<lambda>f. cf_name f = path) fs of
      None \<Rightarrow> cpiofs_open path fl mo c = Some (K_ENOENT, c)
    | Some f \<Rightarrow> (case free_fcb (cf_fcb c) of
        None \<Rightarrow> cpiofs_open path fl mo c = Some (K_ENOMEM, c)
      | Some k \<Rightarrow> \<exists>c'. cpiofs_open path fl mo c = Some (int k, c') \<and> mounted fs c' \<and> cf_archive c' = cf_archive c \<and>
          \<not> fd_open c (int k) \<and> cpio_files c' = (cpio_files c)(int k \<mapsto> (cf_data f, 0)))"
    using path by (intro cpiofs_open_mounted [OF m(1)]) (simp_all add: cpath_def)
  show ?thesis
  proof (cases "find (\<lambda>f. cf_name f = path) fs")
    case None
    then show ?thesis using o ok l by (simp add: K_ENOENT_def)
  next
    case f: (Some f)
    show ?thesis
    proof (cases "free_fcb (cf_fcb c)")
      case None
      have "all_open (cpio_files c)"
        using free_fcb_spec [of "cf_fcb c"] None m(1) by (auto simp: all_open_def cpio_files_def fd_open_def bad_fd_def mounted_def cpiofs_inv_def)
      then show ?thesis using o ok f None by (simp add: K_ENOMEM_def)
    next
      case (Some k)
      then obtain c' where c': "cpiofs_open path fl mo c = Some (int k, c')" "mounted fs c'" "cf_archive c' = cf_archive c"
        "\<not> fd_open c (int k)" "cpio_files c' = (cpio_files c)(int k \<mapsto> (cf_data f, 0))" using o f by auto
      have "cf_archive_len c' = cf_archive_len c" using m(1) c'(2,3) by (simp add: mounted_def)
      then have "cpio_lookup c' = cpio_lookup c" using c'(3) by (intro cpio_lookup_frame)
      moreover have "fsobj_ok (CpioObj c')" using c'(2,3) m(2) by (auto simp: fsobj_ok_def)
      ultimately show ?thesis using c' f l by (auto simp: cpio_files_def)
    qed
  qed
qed

interpretation fsi: basic_fs fs_vtable fsobj_ok fsobj_files fsobj_lookup
proof unfold_locales
  fix ob path fl mo assume "fsobj_ok ob" "cpath path"
  then show "\<exists>r ob'. op_open fs_vtable path fl mo ob = Some (r, ob') \<and> fsobj_ok ob' \<and> fsobj_lookup ob' = fsobj_lookup ob \<and>
      (if r < 0 then fsobj_files ob' = fsobj_files ob \<and> (fsobj_lookup ob path = None \<or> r = K_ENOMEM \<and> all_open (fsobj_files ob))
       else fsobj_files ob r = None \<and> (\<exists>d. fsobj_lookup ob path = Some d \<and> fsobj_files ob' = (fsobj_files ob)(r \<mapsto> (d, 0))))"
  proof (cases ob)
    case (CpioObj c)
    obtain r c' where o: "cpiofs_open path fl mo c = Some (r, c')" "fsobj_ok (CpioObj c')" "cpio_lookup c' = cpio_lookup c"
      "if r < 0 then c' = c \<and> (cpio_lookup c path = None \<or> r = K_ENOMEM \<and> all_open (cpio_files c))
       else cpio_files c r = None \<and> (\<exists>d. cpio_lookup c path = Some d \<and> cpio_files c' = (cpio_files c)(r \<mapsto> (d, 0)))"
      using cpio_open_law [of c path fl mo] \<open>fsobj_ok ob\<close> \<open>cpath path\<close> CpioObj by blast
    show ?thesis unfolding CpioObj
      by (rule exI [of _ r], rule exI [of _ "CpioObj c'"])
        (use o in \<open>auto simp: fs_vtable_def fsobj_lookup_def fsobj_files_def split: if_splits\<close>)
  qed (simp add: fs_vtable_def fsobj_lookup_def fsobj_files_def)
next
  fix ob fd f assume "fsobj_ok ob" "fsobj_files ob fd = Some f"
  then show "\<exists>ob'. op_close fs_vtable fd ob = Some (K_OK, ob') \<and> fsobj_ok ob' \<and> fsobj_lookup ob' = fsobj_lookup ob \<and>
      fsobj_files ob' = (fsobj_files ob)(fd := None)"
    using cpio_close_law [of _ fd f]
    by (cases ob) (fastforce simp: fs_vtable_def fsobj_lookup_def fsobj_files_def)+
next
  fix ob fd d p n bs
  assume a: "fsobj_ok ob" "fsobj_files ob fd = Some (d, p)" "0 \<le> n" "n < (2 :: int) ^ 31" "bs = take (nat n) (drop p d)"
  then obtain c where c: "ob = CpioObj c" "cpio_files c fd = Some (d, p)"
    by (cases ob) (auto simp: fsobj_files_def)
  have i: "cpiofs_inv c" "fd_open c fd" "fd_data c fd = d" "fd_pos c fd = p" "length d < 2 ^ 63"
    using a(1) c by (auto simp: fsobj_ok_def mounted_def cpio_files_def fd_data_def Let_def split: if_splits)
  have n: "unat (of_int n :: u64) = nat n" using a(3,4) by (intro unat_of_int_small) auto
  have l: "length bs = min (nat n) (length d - p)" "p \<le> length d" using a(5) fd_openD(6) [OF i(1,2)] i(3,4) by auto
  have r: "cpiofs_read fd (of_int n) c = Some (int (length bs), bs, with_pos fd (of_nat (p + length bs)) c)"
    using cpiofs_read_spec [OF i(1,2), of "of_int n"] n i(3-5) a(3-5) l(1) by (simp add: nat_less_iff)
  have "p + length bs \<le> length d" using l by simp
  note w = cpio_with_pos_law [OF a(1) [unfolded c(1)] c(2) this]
  show "\<exists>ob'. op_read fs_vtable fd (of_int n) ob = Some (int (length bs), bs, ob') \<and> fsobj_ok ob' \<and>
      fsobj_lookup ob' = fsobj_lookup ob \<and> fsobj_files ob' = (fsobj_files ob)(fd \<mapsto> (d, p + length bs))"
    unfolding c(1) by (rule exI [of _ "CpioObj (with_pos fd (of_nat (p + length bs)) c)"])
      (use r w in \<open>simp add: fs_vtable_def fsobj_lookup_def fsobj_files_def\<close>)
next
  fix ob fd d p off wh
  assume a: "fsobj_ok ob" "fsobj_files ob fd = Some (d, p)" "- (2 ^ 63) \<le> off" "off < (2 :: int) ^ 63"
  then obtain c where c: "ob = CpioObj c" "cpio_files c fd = Some (d, p)"
    by (cases ob) (auto simp: fsobj_files_def)
  have i: "cpiofs_inv c" "fd_open c fd" "fd_data c fd = d" "fd_pos c fd = p" "length d < 2 ^ 63"
    using a(1) c by (auto simp: fsobj_ok_def mounted_def cpio_files_def fd_data_def Let_def split: if_splits)
  note q = cpiofs_lseek_spec [OF i(1,2) _ a(3,4), of wh, unfolded i(3,4), OF i(5)]
  show "\<exists>ob'. op_lseek fs_vtable fd off wh ob = Some (case lseek_ref (length d) p off wh of None \<Rightarrow> K_EINVAL | Some _ \<Rightarrow> K_OK, ob') \<and>
      fsobj_ok ob' \<and> fsobj_lookup ob' = fsobj_lookup ob \<and>
      fsobj_files ob' = (case lseek_ref (length d) p off wh of None \<Rightarrow> fsobj_files ob | Some p' \<Rightarrow> (fsobj_files ob)(fd \<mapsto> (d, p')))"
  proof (cases "lseek_ref (length d) p off wh")
    case None
    then show ?thesis using q a(1) c(1) by (simp add: fs_vtable_def fsobj_lookup_def fsobj_files_def)
  next
    case (Some p')
    note w = cpio_with_pos_law [OF a(1) [unfolded c(1)] c(2) lseek_ref_bound [OF Some]]
    show ?thesis using q Some c(1) w by (simp add: fs_vtable_def fsobj_lookup_def fsobj_files_def)
  qed
qed

section \<open>Device paths\<close>

text \<open>A number in decimal.\<close>

fun dec :: "nat \<Rightarrow> u8 list" where
  "dec n = (if n < 10 then [of_nat (0x30 + n)] else dec (n div 10) @ [of_nat (0x30 + n mod 10)])"

declare dec.simps [simp del]

lemma digit_dec: "k < 10 \<Longrightarrow> scan_digit 10 (of_nat (0x30 + k)) = Some k"
  by (simp add: scan_digit_def Let_def word_le_nat_alt unsigned_of_nat take_bit_nat_eq_self del: of_nat_add)

lemma dec_digits: "c \<in> set (dec n) \<Longrightarrow> \<exists>k<10. c = of_nat (0x30 + k)"
proof (induction n rule: dec.induct)
  case (1 n)
  then show ?case by (subst (asm) dec.simps) (auto split: if_splits intro: exI [of _ n] exI [of _ "n mod 10"])
qed

lemma dec_value: "foldl (\<lambda>r c. r * 10 + the (scan_digit 10 c)) 0 (dec n) = n"
proof (induction n rule: dec.induct)
  case (1 n)
  show ?case
  proof (cases "n < 10")
    case True
    then show ?thesis using digit_dec [of n] by (subst dec.simps) simp
  next
    case False
    then show ?thesis using 1 digit_dec [of "n mod 10"] by (subst dec.simps) simp
  qed
qed

lemma scan_dec:
  assumes "n < 2 ^ 64" "ys = [] \<or> scan_digit 10 (hd ys) = None"
  shows "scan_ul 10 (dec n @ ys) = Some (of_nat n, ys)"
proof -
  have dig: "scan_digit 10 c \<noteq> None" if "c \<in> set (dec n)" for c using dec_digits [OF that] digit_dec by auto
  have ne: "dec n \<noteq> []" by (subst dec.simps) simp
  then obtain c cs where c: "dec n = c # cs" by (cases "dec n") auto
  then have "scan_digit 10 c \<noteq> None" using dig by simp
  then have "0x30 \<le> c" "c \<le> 0x39" by (auto simp: scan_digit_def Let_def split: if_splits)
  then have h: "\<not> scan_space c" "c \<noteq> 0x2d" "c \<noteq> 0x2b" by (auto simp: scan_space_def word_le_nat_alt)
  have p: "scan_prefix 10 zs = zs" for zs by (cases "(10 :: nat, zs)" rule: scan_prefix.cases) auto
  have "takeWhile (\<lambda>c. scan_digit 10 c \<noteq> None) (dec n @ ys) = dec n"
    using dig assms(2) by (cases ys) (auto simp: takeWhile_append takeWhile_eq_all_conv)
  then show ?thesis using h c p ne assms(1) dec_value [of n] by (simp add: scan_ul_def Let_def)
qed

lemma scan_pair_dec:
  assumes "a < 2 ^ 64" "l < 2 ^ 64"
  shows "scan_pair 10 (dec a @ 0x2c # dec l) = Some (of_nat a, of_nat l)"
  using scan_dec [OF assms(1), of "0x2c # dec l"] scan_dec [OF assms(2), of "[]"]
  by (simp add: scan_pair_def scan_digit_def Let_def)

section \<open>Mounting and unmounting\<close>

lemma mount_cpio:
  assumes "files_ok fs" "base mod 4 = 0" "nbase mod 4 = 0" "base < 2 ^ 64" "length (archive_bytes fs) < 2 ^ 64"
    and s: "fs_factories s = (n, cpiofs_new, df) # fct" "map_find (fs_map s) path = None"
  shows "\<exists>c. vfs_mount (base, archive_bytes fs) nbase path (dec base @ 0x2c # dec (length (archive_bytes fs))) None s =
      Some (0, s\<lparr>fs_objs := fs_objs s @ [Some (CpioObj c)], fs_map := map_put path (Some (length (fs_objs s)), df) (fs_map s)\<rparr>) \<and>
    mounted fs c \<and> cf_fcb c = replicate MAX_FILES fcb_free"
proof -
  obtain c where c: "CPIOFS (base, archive_bytes fs) base (length (archive_bytes fs)) nbase = Some (Some c)" "mounted fs c"
    using CPIOFS_mounted [OF assms(1-3)] by blast
  then have "cf_fcb c = replicate MAX_FILES fcb_free" by (auto simp: CPIOFS_def split: bind_splits if_splits)
  moreover have "cpiofs_new (base, archive_bytes fs) nbase (dec base @ 0x2c # dec (length (archive_bytes fs))) =
      Some (0, Some (CpioObj c))"
    using c(1) scan_pair_dec [OF assms(4,5)] unat_of_nat64 [OF assms(4)] unat_of_nat64 [OF assms(5)] by (simp add: cpiofs_new_def)
  ultimately show ?thesis using s c(2) by (auto simp: vfs_mount_def K_OK_def map_insert_def)
qed

text \<open>Mounting where something is mounted succeeds and makes an object that no path leads to.\<close>

lemma mount_again:
  assumes "vfs_mount m nb path dev n s = Some (0, s')" "map_find (fs_map s) path = Some e"
  shows "fs_map s' = fs_map s"
  using assms by (auto simp: vfs_mount_def map_insert_def split: bind_splits option.splits)

text \<open>With the factory of \<open>DEVFS\<close> in front, a mount without a name is always a \<open>DEVFS\<close>.\<close>

lemma mount_devfs_first:
  "fs_factories s = (n, devfs_new, df) # fct \<Longrightarrow> map_find (fs_map s) path = None \<Longrightarrow>
     vfs_mount m nb path dev None s =
       Some (0, s\<lparr>fs_objs := fs_objs s @ [Some DevObj], fs_map := map_put path (Some (length (fs_objs s)), df) (fs_map s)\<rparr>)"
  by (simp add: vfs_mount_def devfs_new_def K_OK_def map_insert_def)

section \<open>Properties\<close>

lemma vfs_init_inv: "vfs_inv fsobj_ok fsobj_files (devfs_register (cpiofs_register vfs_init))"
  by (auto simp: vfs_inv_def reached_def devfs_register_def cpiofs_register_def registerFS_def vfs_init_def deref_def split: option.splits)

text \<open>C36: Unmounting a file system deletes its object but keeps the descriptors of its files: reading
  from one of them afterwards is a call through a dangling pointer.\<close>

theorem umount_dangling:
  assumes "map_find (fs_map s) path = Some (Some i, fs_delete)" "deref s (Some i) = Some ob"
    "map_find (global_fd_map s) fd = Some (Some i, lfd)" "fd \<noteq> FILE_STDIN"
  shows "\<exists>s'. vfs_umount path s = Some (0, s') \<and> vfs_read fs_vtable fd n s' = None"
proof -
  have "deref (set_obj (Some i) None s) (Some i) = None" by (simp add: deref_def set_obj_def)
  then show ?thesis using assms by (simp add: vfs_umount_def vfs_read_def fs_delete_def)
qed

definition demo_vfs :: "fsobj vfs" where
  "demo_vfs = \<lparr>fs_objs = [Some DevObj], fs_map = [([0x2f], Some 0, fs_delete)], fs_factories = [],
     global_fd_map = [(3, Some 0, 0)], global_fd_counter = 4\<rparr>"

theorem umount_dangling_witness: "\<exists>s'. vfs_umount [0x2f] demo_vfs = Some (0, s') \<and> vfs_read fs_vtable 3 1 s' = None"
  by (rule umount_dangling [of demo_vfs "[0x2f]" 0 DevObj 3 0])
    (simp_all add: demo_vfs_def map_find_def deref_def FILE_STDIN_def)

text \<open>The archive of the root file system, at address \<open>base\<close>, is mounted after both file systems are
  registered.\<close>

lemma root_mounted:
  assumes "files_ok fs" "base mod 4 = 0" "nbase mod 4 = 0" "base < 2 ^ 64" "length (archive_bytes fs) < 2 ^ 63"
    and f: "find (\<lambda>f. cf_name f = name) fs = Some f" "cpath (0x2f # name)"
  obtains s s1 where "vfs_mount (base, archive_bytes fs) nbase [0x2f] (dec base @ 0x2c # dec (length (archive_bytes fs))) None
      (devfs_register (cpiofs_register vfs_init)) = Some (0, s)" "vfs_inv fsobj_ok fsobj_files s" "global_fd_counter s = 3"
    "vfs_open fs_vtable (0x2f # name) 0 0 s = Some (3, s1)" "look fsobj_lookup s (0x2f # name) = Some (cf_data f)"
proof -
  let ?s0 = "devfs_register (cpiofs_register vfs_init)"
  have "fs_factories ?s0 = ([0x63, 0x70, 0x69, 0x6f, 0x66, 0x73], cpiofs_new, fs_delete) # [([0x63, 0x70, 0x69, 0x6f], devfs_new, fs_delete)]"
    "map_find (fs_map ?s0) [0x2f] = None"
    by (simp_all add: devfs_register_def cpiofs_register_def registerFS_def vfs_init_def)
  note m = mount_cpio [OF assms(1-4) _ this]
  have "length (archive_bytes fs) < 2 ^ 64" using assms(5) by simp
  from m [OF this] obtain c where c: "mounted fs c" "cf_fcb c = replicate MAX_FILES fcb_free"
    "vfs_mount (base, archive_bytes fs) nbase [0x2f] (dec base @ 0x2c # dec (length (archive_bytes fs))) None
      (devfs_register (cpiofs_register vfs_init)) = Some (0, ?s0\<lparr>fs_objs := fs_objs ?s0 @ [Some (CpioObj c)],
        fs_map := map_put [0x2f] (Some (length (fs_objs ?s0)), fs_delete) (fs_map ?s0)\<rparr>)"
    by blast
  define s where "s = ?s0\<lparr>fs_objs := [Some (CpioObj c)], fs_map := [([0x2f], Some 0, fs_delete)]\<rparr>"
  have s: "vfs_mount (base, archive_bytes fs) nbase [0x2f] (dec base @ 0x2c # dec (length (archive_bytes fs))) None
      (devfs_register (cpiofs_register vfs_init)) = Some (0, s)"
    using c(3) by (simp add: s_def devfs_register_def cpiofs_register_def registerFS_def vfs_init_def)
  have st: "fs_objs s = [Some (CpioObj c)]" "fs_map s = [([0x2f], Some 0, fs_delete)]" "global_fd_map s = []" "global_fd_counter s = 3"
    by (simp_all add: s_def devfs_register_def cpiofs_register_def registerFS_def vfs_init_def)
  have ok: "fsobj_ok (CpioObj c)" using c(1) assms(5) by (auto simp: fsobj_ok_def mounted_def)
  have "cpio_files c lfd = None" for lfd using c(2) by (auto simp: cpio_files_def fd_open_def bad_fd_def fcb_free_def)
  then have "reached fsobj_files s" by (auto simp: reached_def st deref_def fsobj_files_def split: option.splits if_splits)
  then have inv: "vfs_inv fsobj_ok fsobj_files s"
    using ok by (auto simp: vfs_inv_def st deref_def smap_def split: option.splits if_splits)
  have lm: "longest_mount (0x2f # name) (fs_map s) 0 None = (1, Some 0)" by (simp add: st)
  have dr: "deref s (Some 0) = Some (CpioObj c)" by (simp add: deref_def st)
  have cp: "cpath name" using f(2) by (simp add: cpath_def)
  have "free_fcb (replicate MAX_FILES fcb_free) = Some 0" by (simp add: MAX_FILES_def fcb_free_def numeral_eq_Suc)
  then obtain c' where "cpiofs_open name 0 0 c = Some (0, c')"
    using cpiofs_open_mounted [OF c(1), of name 0 0] cp f(1) c(2) by (auto simp: cpath_def)
  then have "vfs_open fs_vtable (0x2f # name) 0 0 s = Some (3, (set_obj (Some 0) (Some (CpioObj c')) s)
      \<lparr>global_fd_counter := 4, global_fd_map := map_insert 3 (Some 0, 0) []\<rparr>)"
    using lm dr by (simp add: vfs_open_def fs_vtable_def Let_def st)
  moreover have "look fsobj_lookup s (0x2f # name) = Some (cf_data f)"
    using lm dr mounted_lookup [OF c(1) cp] f(1) by (simp add: look_def fsobj_lookup_def)
  ultimately show ?thesis using that s inv st(4) by blast
qed

text \<open>From the archive in memory to the bytes a program reads: opening a file of the archive gives descriptor
  3, reading \<open>n\<close> bytes from it gives the first \<open>n\<close> bytes of the contents the archive was written with,
  and closing it succeeds.\<close>

lemma root_archive_read:
  assumes "files_ok fs" "base mod 4 = 0" "nbase mod 4 = 0" "base < 2 ^ 64" "length (archive_bytes fs) < 2 ^ 63"
    and f: "find (\<lambda>f. cf_name f = name) fs = Some f" "cpath (0x2f # name)" and n: "n < 2 ^ 31"
  shows "\<exists>s s'. vfs_mount (base, archive_bytes fs) nbase [0x2f] (dec base @ 0x2c # dec (length (archive_bytes fs))) None
      (devfs_register (cpiofs_register vfs_init)) = Some (0, s) \<and>
    libc_hooks fs_vtable [FOpen (0x2f # name), FRead 3 (int n), FClose 3] s =
      Some ([(3, []), (int (min n (length (cf_data f))), take n (cf_data f)), (K_OK, [])], s')"
proof -
  obtain s s1 where s: "vfs_mount (base, archive_bytes fs) nbase [0x2f] (dec base @ 0x2c # dec (length (archive_bytes fs))) None
      (devfs_register (cpiofs_register vfs_init)) = Some (0, s)" "vfs_inv fsobj_ok fsobj_files s" "global_fd_counter s = 3"
    "vfs_open fs_vtable (0x2f # name) 0 0 s = Some (3, s1)" "look fsobj_lookup s (0x2f # name) = Some (cf_data f)"
    using root_mounted [OF assms(1-7)] by blast
  have i1: "vfs_inv fsobj_ok fsobj_files s1" "astep (look fsobj_lookup s) (FOpen (0x2f # name)) (view_of fsobj_files s) 3 [] (view_of fsobj_files s1)"
    using fsi.open_step [OF s(2) f(2), of 0 0] s(3,4) by auto
  from i1(2) have v1: "view_of fsobj_files s1 3 = Some (cf_data f, 0)" using s(5) by (elim a_openE) auto
  obtain r bs s2 where r: "vfs_read fs_vtable 3 (int n) s1 = Some (r, bs, s2)" "vfs_inv fsobj_ok fsobj_files s2"
    "astep (look fsobj_lookup s1) (FRead 3 (int n)) (view_of fsobj_files s1) r bs (view_of fsobj_files s2)"
    using fsi.read_step [OF i1(1), of "int n" 3] n by auto
  from r(3) v1 have v2: "bs = take n (cf_data f)" "r = int (length bs)" "view_of fsobj_files s2 3 \<noteq> None" by (auto elim!: a_readE)
  obtain r' s3 where c: "vfs_close fs_vtable 3 s2 = Some (r', s3)"
    "astep (look fsobj_lookup s2) (FClose 3) (view_of fsobj_files s2) r' [] (view_of fsobj_files s3)"
    using fsi.close_step [OF r(2), of 3] by blast
  from c(2) v2(3) have "r' = K_OK" by (auto elim!: a_closeE)
  then show ?thesis using s(1,4) r(1) c(1) v2(1,2) by (simp add: libc_hook_def min.commute)
qed


text \<open>An archive of one file is mounted; the calls open it, read two bytes, go back to the second, read to the
  end, close the descriptor and try to read once more.\<close>

definition demo_calls :: "fop list" where
  "demo_calls = [FOpen [0x2f, 0x61, 0x62], FRead 3 2, FSeek 3 1 0, FRead 3 7, FClose 3, FRead 3 1]"


end
