(* ===== verification/Fdt.thy ===== *)
theory Fdt
  imports Bytes
begin

text \<open>Model of the reading half of \<^verbatim>\<open>deps/libfdt/fdt.c\<close> with the accessors of \<^verbatim>\<open>libfdt.h\<close>, \<^verbatim>\<open>fdt.h\<close> and
  \<^verbatim>\<open>libfdt_internal.h\<close>, built with \<open>FDT_ASSUME_MASK\<close> 0. A blob is a block of memory whose first byte is the
  first byte of the tree. \<^const>\<open>None\<close> is an access outside the block or a loop that does not end; the null
  pointer is \<^const>\<open>None\<close> inside. An \<open>int\<close> is an integer with its wrap-around written out as \<open>i32\<close>, an unsigned
  value a word of 32 bits.\<close>

section \<open>Constants\<close>

definition FDT_ERR_NOTFOUND :: int where "FDT_ERR_NOTFOUND = 1"
definition FDT_ERR_NOSPACE :: int where "FDT_ERR_NOSPACE = 3"
definition FDT_ERR_BADOFFSET :: int where "FDT_ERR_BADOFFSET = 4"
definition FDT_ERR_BADPATH :: int where "FDT_ERR_BADPATH = 5"
definition FDT_ERR_BADPHANDLE :: int where "FDT_ERR_BADPHANDLE = 6"
definition FDT_ERR_BADSTATE :: int where "FDT_ERR_BADSTATE = 7"
definition FDT_ERR_TRUNCATED :: int where "FDT_ERR_TRUNCATED = 8"
definition FDT_ERR_BADMAGIC :: int where "FDT_ERR_BADMAGIC = 9"
definition FDT_ERR_BADVERSION :: int where "FDT_ERR_BADVERSION = 10"
definition FDT_ERR_BADSTRUCTURE :: int where "FDT_ERR_BADSTRUCTURE = 11"
definition FDT_ERR_INTERNAL :: int where "FDT_ERR_INTERNAL = 13"
definition FDT_ERR_BADNCELLS :: int where "FDT_ERR_BADNCELLS = 14"
definition FDT_ERR_BADVALUE :: int where "FDT_ERR_BADVALUE = 15"
definition FDT_ERR_NOPHANDLES :: int where "FDT_ERR_NOPHANDLES = 17"
definition FDT_ERR_ALIGNMENT :: int where "FDT_ERR_ALIGNMENT = 19"

lemmas fdt_errs = FDT_ERR_NOTFOUND_def FDT_ERR_NOSPACE_def FDT_ERR_BADOFFSET_def FDT_ERR_BADPATH_def FDT_ERR_BADPHANDLE_def
  FDT_ERR_BADSTATE_def FDT_ERR_TRUNCATED_def FDT_ERR_BADMAGIC_def FDT_ERR_BADVERSION_def FDT_ERR_BADSTRUCTURE_def
  FDT_ERR_INTERNAL_def FDT_ERR_BADNCELLS_def FDT_ERR_BADVALUE_def FDT_ERR_NOPHANDLES_def FDT_ERR_ALIGNMENT_def

definition FDT_FIRST_SUPPORTED_VERSION :: u32 where "FDT_FIRST_SUPPORTED_VERSION = 0x02"
definition FDT_LAST_SUPPORTED_VERSION :: u32 where "FDT_LAST_SUPPORTED_VERSION = 0x11"

definition FDT_MAGIC :: u32 where "FDT_MAGIC = 0xd00dfeed"
definition FDT_SW_MAGIC :: u32 where "FDT_SW_MAGIC = NOT FDT_MAGIC"

definition FDT_BEGIN_NODE :: u32 where "FDT_BEGIN_NODE = 1"
definition FDT_END_NODE :: u32 where "FDT_END_NODE = 2"
definition FDT_PROP :: u32 where "FDT_PROP = 3"
definition FDT_NOP :: u32 where "FDT_NOP = 4"
definition FDT_END :: u32 where "FDT_END = 9"

lemmas fdt_tags = FDT_BEGIN_NODE_def FDT_END_NODE_def FDT_PROP_def FDT_NOP_def FDT_END_def

definition FDT_V1_SIZE :: nat where "FDT_V1_SIZE = 28"
definition FDT_V2_SIZE :: nat where "FDT_V2_SIZE = 32"
definition FDT_V3_SIZE :: nat where "FDT_V3_SIZE = 36"
definition FDT_V16_SIZE :: nat where "FDT_V16_SIZE = 36"
definition FDT_V17_SIZE :: nat where "FDT_V17_SIZE = 40"

section \<open>Reading words\<close>

text \<open>The value of an \<open>int\<close> after a computation that may leave its range.\<close>

definition i32 :: "int \<Rightarrow> int" where
  "i32 x = sint (of_int x :: u32)"

definition be32 :: "u8 \<Rightarrow> u8 \<Rightarrow> u8 \<Rightarrow> u8 \<Rightarrow> u32" where
  "be32 a b c d = push_bit 24 (ucast a) OR push_bit 16 (ucast b) OR push_bit 8 (ucast c) OR ucast d"

definition fdt32_ld :: "bmem \<Rightarrow> nat \<Rightarrow> u32 option" where
  "fdt32_ld m p = do {
     a \<leftarrow> rd8 m p;
     b \<leftarrow> rd8 m (p + 1);
     c \<leftarrow> rd8 m (p + 2);
     d \<leftarrow> rd8 m (p + 3);
     Some (be32 a b c d)
   }"

definition fdt64_ld :: "bmem \<Rightarrow> nat \<Rightarrow> u64 option" where
  "fdt64_ld m p = do {
     h \<leftarrow> fdt32_ld m p;
     l \<leftarrow> fdt32_ld m (p + 4);
     Some (push_bit 32 (ucast h) OR ucast l)
   }"

text \<open>The header, a \<open>struct fdt_header\<close> of ten words.\<close>

definition fdt_get_header :: "nat \<Rightarrow> bmem \<Rightarrow> u32 option" where
  "fdt_get_header field fdt = fdt32_ld fdt (fst fdt + 4 * field)"

definition fdt_magic :: "bmem \<Rightarrow> u32 option" where "fdt_magic = fdt_get_header 0"
definition fdt_totalsize :: "bmem \<Rightarrow> u32 option" where "fdt_totalsize = fdt_get_header 1"
definition fdt_off_dt_struct :: "bmem \<Rightarrow> u32 option" where "fdt_off_dt_struct = fdt_get_header 2"
definition fdt_off_dt_strings :: "bmem \<Rightarrow> u32 option" where "fdt_off_dt_strings = fdt_get_header 3"
definition fdt_off_mem_rsvmap :: "bmem \<Rightarrow> u32 option" where "fdt_off_mem_rsvmap = fdt_get_header 4"
definition fdt_version :: "bmem \<Rightarrow> u32 option" where "fdt_version = fdt_get_header 5"
definition fdt_last_comp_version :: "bmem \<Rightarrow> u32 option" where "fdt_last_comp_version = fdt_get_header 6"
definition fdt_size_dt_strings :: "bmem \<Rightarrow> u32 option" where "fdt_size_dt_strings = fdt_get_header 8"
definition fdt_size_dt_struct :: "bmem \<Rightarrow> u32 option" where "fdt_size_dt_struct = fdt_get_header 9"

lemmas fdt_header_defs = fdt_magic_def fdt_totalsize_def fdt_off_dt_struct_def fdt_off_dt_strings_def fdt_off_mem_rsvmap_def
  fdt_version_def fdt_last_comp_version_def fdt_size_dt_strings_def fdt_size_dt_struct_def

section \<open>Checking the header\<close>

definition fdt_ro_probe :: "bmem \<Rightarrow> int option" where
  "fdt_ro_probe fdt = do {
     totalsize \<leftarrow> fdt_totalsize fdt;
     let ok = Some (if totalsize < 0x7fffffff then uint totalsize else - FDT_ERR_TRUNCATED);
     if fst fdt mod 8 \<noteq> 0 then Some (- FDT_ERR_ALIGNMENT)
     else do {
       magic \<leftarrow> fdt_magic fdt;
       if magic = FDT_MAGIC then do {
         version \<leftarrow> fdt_version fdt;
         if version < FDT_FIRST_SUPPORTED_VERSION then Some (- FDT_ERR_BADVERSION)
         else do {
           last_comp \<leftarrow> fdt_last_comp_version fdt;
           if last_comp > FDT_LAST_SUPPORTED_VERSION then Some (- FDT_ERR_BADVERSION) else ok
         }
       }
       else if magic = FDT_SW_MAGIC then do {
         sz \<leftarrow> fdt_size_dt_struct fdt;
         if sz = 0 then Some (- FDT_ERR_BADSTATE) else ok
       }
       else Some (- FDT_ERR_BADMAGIC)
     }
   }"

definition check_off :: "u32 \<Rightarrow> u32 \<Rightarrow> u32 \<Rightarrow> bool" where
  "check_off hdrsize totalsize off \<longleftrightarrow> off \<ge> hdrsize \<and> off \<le> totalsize"

definition check_block :: "u32 \<Rightarrow> u32 \<Rightarrow> u32 \<Rightarrow> u32 \<Rightarrow> bool" where
  "check_block hdrsize totalsize base sz =
     (if \<not> check_off hdrsize totalsize base then False
      else if base + sz < base then False
      else if \<not> check_off hdrsize totalsize (base + sz) then False
      else True)"

definition fdt_header_size0 :: "u32 \<Rightarrow> nat" where
  "fdt_header_size0 version =
     (if version \<le> 1 then FDT_V1_SIZE
      else if version \<le> 2 then FDT_V2_SIZE
      else if version \<le> 3 then FDT_V3_SIZE
      else if version \<le> 16 then FDT_V16_SIZE
      else FDT_V17_SIZE)"

definition fdt_header_size :: "bmem \<Rightarrow> nat option" where
  "fdt_header_size fdt = map_option fdt_header_size0 (fdt_version fdt)"

definition fdt_check_header :: "bmem \<Rightarrow> int option" where
  "fdt_check_header fdt =
     (if fst fdt mod 8 \<noteq> 0 then Some (- FDT_ERR_ALIGNMENT)
      else do {
        magic \<leftarrow> fdt_magic fdt;
        if magic \<noteq> FDT_MAGIC then Some (- FDT_ERR_BADMAGIC)
        else do {
          version \<leftarrow> fdt_version fdt;
          last_comp \<leftarrow> fdt_last_comp_version fdt;
          if version < FDT_FIRST_SUPPORTED_VERSION \<or> last_comp > FDT_LAST_SUPPORTED_VERSION then Some (- FDT_ERR_BADVERSION)
          else if version < last_comp then Some (- FDT_ERR_BADVERSION)
          else do {
            hdrsize \<leftarrow> fdt_header_size fdt;
            totalsize \<leftarrow> fdt_totalsize fdt;
            if unat totalsize < hdrsize \<or> totalsize > 0x7fffffff then Some (- FDT_ERR_TRUNCATED)
            else do {
              rsv \<leftarrow> fdt_off_mem_rsvmap fdt;
              if \<not> check_off (of_nat hdrsize) totalsize rsv then Some (- FDT_ERR_TRUNCATED)
              else do {
                os \<leftarrow> fdt_off_dt_struct fdt;
                ok \<leftarrow> (if version < 17 then Some (check_off (of_nat hdrsize) totalsize os)
                       else do {
                         sz \<leftarrow> fdt_size_dt_struct fdt;
                         Some (check_block (of_nat hdrsize) totalsize os sz)
                       });
                if \<not> ok then Some (- FDT_ERR_TRUNCATED)
                else do {
                  ss \<leftarrow> fdt_off_dt_strings fdt;
                  sz \<leftarrow> fdt_size_dt_strings fdt;
                  Some (if check_block (of_nat hdrsize) totalsize ss sz then 0 else - FDT_ERR_TRUNCATED)
                }
              }
            }
          }
        }
      })"

section \<open>Walking the structure block\<close>

definition fdt_offset_ptr0 :: "bmem \<Rightarrow> int \<Rightarrow> nat option" where
  "fdt_offset_ptr0 fdt offset = do {
     os \<leftarrow> fdt_off_dt_struct fdt;
     Some (fst fdt + unat os + nat offset)
   }"

definition fdt_offset_ptr :: "bmem \<Rightarrow> int \<Rightarrow> u32 \<Rightarrow> nat option option" where
  "fdt_offset_ptr fdt offset len = do {
     os \<leftarrow> fdt_off_dt_struct fdt;
     let uoffset = of_int offset;
     let absoffset = of_int offset + os;
     if offset < 0 then Some None
     else do {
       totalsize \<leftarrow> fdt_totalsize fdt;
       if absoffset < uoffset \<or> absoffset + len < absoffset \<or> absoffset + len > totalsize then Some None
       else do {
         version \<leftarrow> fdt_version fdt;
         if version \<ge> 0x11 then do {
           sz \<leftarrow> fdt_size_dt_struct fdt;
           if uoffset + len < uoffset \<or> uoffset + len > sz then Some None
           else map_option Some (fdt_offset_ptr0 fdt offset)
         }
         else map_option Some (fdt_offset_ptr0 fdt offset)
       }
     }
   }"

text \<open>The loop that skips the name of a node: the offset behind the terminating zero.\<close>

partial_function (option) skip_name :: "bmem \<Rightarrow> int \<Rightarrow> int option option" where
  "skip_name fdt offset = do {
     p \<leftarrow> fdt_offset_ptr fdt offset 1;
     (case p of
        None \<Rightarrow> Some None
      | Some a \<Rightarrow> do {
          c \<leftarrow> rd8 fdt a;
          if c \<noteq> 0 then skip_name fdt (i32 (offset + 1)) else Some (Some (i32 (offset + 1)))
        })
   }"

text \<open>\<open>fdt_next_tag\<close> answers the tag and the next offset. The part between the tag and the next one is
  \<open>tag_body\<close>: the offset behind it, or nothing where the source returns early.\<close>

definition tag_body :: "bmem \<Rightarrow> u32 \<Rightarrow> int \<Rightarrow> int option option" where
  "tag_body fdt tag offset =
     (if tag = FDT_BEGIN_NODE then skip_name fdt offset
      else if tag = FDT_PROP then do {
        lenp \<leftarrow> fdt_offset_ptr fdt offset 4;
        (case lenp of
           None \<Rightarrow> Some None
         | Some a \<Rightarrow> do {
             len \<leftarrow> fdt32_ld fdt a;
             let sum = len + of_int offset;
             if 0x7fffffff \<le> sum \<or> sum < of_int offset then Some None
             else do {
               version \<leftarrow> fdt_version fdt;
               let offset' = i32 (offset + 8 + uint len);
               Some (Some (if version < 0x10 \<and> len \<ge> 8 \<and> (of_int offset' - len) mod 8 \<noteq> 0
                           then i32 (offset' + 4) else offset'))
             }
           })
      }
      else if tag = FDT_END \<or> tag = FDT_END_NODE \<or> tag = FDT_NOP then Some (Some offset)
      else Some None)"

definition fdt_next_tag :: "bmem \<Rightarrow> int \<Rightarrow> (u32 \<times> int) option" where
  "fdt_next_tag fdt startoffset = do {
     tagp \<leftarrow> fdt_offset_ptr fdt startoffset 4;
     (case tagp of
        None \<Rightarrow> Some (FDT_END, - FDT_ERR_TRUNCATED)
      | Some a \<Rightarrow> do {
          tag \<leftarrow> fdt32_ld fdt a;
          b \<leftarrow> tag_body fdt tag (i32 (startoffset + 4));
          (case b of
             None \<Rightarrow> Some (FDT_END, - FDT_ERR_BADSTRUCTURE)
           | Some offset \<Rightarrow> do {
               p \<leftarrow> fdt_offset_ptr fdt startoffset (of_int (offset - startoffset));
               (case p of
                  None \<Rightarrow> Some (FDT_END, - FDT_ERR_BADSTRUCTURE)
                | Some _ \<Rightarrow> Some (tag, i32 ((offset + 3) div 4 * 4)))
             })
        })
   }"

definition fdt_check_node_offset :: "bmem \<Rightarrow> int \<Rightarrow> int option" where
  "fdt_check_node_offset fdt offset =
     (if offset < 0 \<or> offset mod 4 \<noteq> 0 then Some (- FDT_ERR_BADOFFSET)
      else do {
        (tag, next) \<leftarrow> fdt_next_tag fdt offset;
        Some (if tag \<noteq> FDT_BEGIN_NODE then - FDT_ERR_BADOFFSET else next)
      })"

definition fdt_check_prop_offset :: "bmem \<Rightarrow> int \<Rightarrow> int option" where
  "fdt_check_prop_offset fdt offset =
     (if offset < 0 \<or> offset mod 4 \<noteq> 0 then Some (- FDT_ERR_BADOFFSET)
      else do {
        (tag, next) \<leftarrow> fdt_next_tag fdt offset;
        Some (if tag \<noteq> FDT_PROP then - FDT_ERR_BADOFFSET else next)
      })"

text \<open>\<open>fdt_next_node\<close> answers the offset and the depth. Its \<open>depth\<close> argument may be the null pointer.\<close>

partial_function (option) next_node_loop :: "bmem \<Rightarrow> int \<Rightarrow> int option \<Rightarrow> (int \<times> int option) option" where
  "next_node_loop fdt offset depth = do {
     (tag, nextoffset) \<leftarrow> fdt_next_tag fdt offset;
     if tag = FDT_BEGIN_NODE then Some (offset, map_option (\<lambda>d. d + 1) depth)
     else if tag = FDT_END_NODE then
       (case depth of
          None \<Rightarrow> next_node_loop fdt nextoffset None
        | Some d \<Rightarrow> if d - 1 < 0 then Some (nextoffset, Some (d - 1)) else next_node_loop fdt nextoffset (Some (d - 1)))
     else if tag = FDT_END then
       Some (if nextoffset \<ge> 0 \<or> nextoffset = - FDT_ERR_TRUNCATED \<and> depth = None then - FDT_ERR_NOTFOUND else nextoffset, depth)
     else next_node_loop fdt nextoffset depth
   }"

definition fdt_next_node :: "bmem \<Rightarrow> int \<Rightarrow> int option \<Rightarrow> (int \<times> int option) option" where
  "fdt_next_node fdt offset depth =
     (if offset \<ge> 0 then do {
        nextoffset \<leftarrow> fdt_check_node_offset fdt offset;
        if nextoffset < 0 then Some (nextoffset, depth) else next_node_loop fdt nextoffset depth
      }
      else next_node_loop fdt 0 depth)"

definition fdt_first_subnode :: "bmem \<Rightarrow> int \<Rightarrow> int option" where
  "fdt_first_subnode fdt offset = do {
     (offset, depth) \<leftarrow> fdt_next_node fdt offset (Some 0);
     Some (if offset < 0 \<or> depth \<noteq> Some 1 then - FDT_ERR_NOTFOUND else offset)
   }"

partial_function (option) next_subnode_loop :: "bmem \<Rightarrow> int \<Rightarrow> int option \<Rightarrow> int option" where
  "next_subnode_loop fdt offset depth = do {
     (offset, depth) \<leftarrow> fdt_next_node fdt offset depth;
     if offset < 0 \<or> the depth < 1 then Some (- FDT_ERR_NOTFOUND)
     else if the depth > 1 then next_subnode_loop fdt offset depth
     else Some offset
   }"

definition fdt_next_subnode :: "bmem \<Rightarrow> int \<Rightarrow> int option" where
  "fdt_next_subnode fdt offset = next_subnode_loop fdt offset (Some 1)"

section \<open>Strings and moving\<close>

fun find_string_loop :: "bmem \<Rightarrow> nat \<Rightarrow> nat \<Rightarrow> u8 list \<Rightarrow> nat option option" where
  "find_string_loop m p 0 s = Some None"
| "find_string_loop m p (Suc k) s = do {
     cs \<leftarrow> mem_bytes m p (length s);
     if cs = s then Some (Some p) else find_string_loop m (p + 1) k s
   }"

definition fdt_find_string :: "bmem \<Rightarrow> nat \<Rightarrow> int \<Rightarrow> u8 list \<Rightarrow> nat option option" where
  "fdt_find_string m strtab tabsize s =
     find_string_loop m strtab (nat (tabsize - int (length s + 1) + 1)) (s @ [0])"

text \<open>\<open>fdt_move\<close> answers its code and the bytes it puts at the start of the buffer.\<close>

definition fdt_move :: "bmem \<Rightarrow> int \<Rightarrow> (int \<times> u8 list) option" where
  "fdt_move fdt bufsize =
     (if bufsize < 0 then Some (- FDT_ERR_NOSPACE, [])
      else do {
        r \<leftarrow> fdt_ro_probe fdt;
        if r < 0 then Some (r, [])
        else do {
          totalsize \<leftarrow> fdt_totalsize fdt;
          if totalsize > of_int bufsize then Some (- FDT_ERR_NOSPACE, [])
          else do {
            bs \<leftarrow> mem_bytes fdt (fst fdt) (unat totalsize);
            Some (0, bs)
          }
        }
      })"

text \<open>The loops are executable.\<close>

declare skip_name.simps [code]
  next_node_loop.simps [code]
  next_subnode_loop.simps [code]

section \<open>Safety of the walk\<close>

text \<open>The memory holds the whole tree its header announces, of less than 2 GiB.\<close>

definition fdt_mapped :: "bmem \<Rightarrow> bool" where
  "fdt_mapped fdt \<longleftrightarrow> 40 \<le> length (snd fdt) \<and>
     (case fdt_totalsize fdt of None \<Rightarrow> False | Some t \<Rightarrow> unat t < 2 ^ 31 \<and> unat t \<le> length (snd fdt))"

definition int32 :: "int \<Rightarrow> bool" where
  "int32 x \<longleftrightarrow> - (2 ^ 31) \<le> x \<and> x < 2 ^ 31"

lemma i32_int32 [simp, intro]: "int32 (i32 x)"
  using sint_greater_eq [of "of_int x :: u32"] sint_less [of "of_int x :: u32"] by (simp add: i32_def int32_def)

lemma i32_id: "int32 x \<Longrightarrow> i32 x = x"
  by (simp add: i32_def int32_def signed_of_int signed_take_bit_int_eq_self)

lemma i32_wrap: "0 \<le> x \<Longrightarrow> x < 2 ^ 32 \<Longrightarrow> i32 x = (if x < 2 ^ 31 then x else x - 2 ^ 32)"
proof -
  assume x: "0 \<le> x" "x < 2 ^ 32"
  have "(of_int (2 ^ 32) :: u32) = 0" by (simp add: word_uint_eq_iff)
  then have "i32 x = i32 (x - 2 ^ 32)" unfolding i32_def of_int_diff by (simp only: diff_zero)
  then show ?thesis using x i32_id [of x] i32_id [of "x - 2 ^ 32"] by (simp add: int32_def)
qed

lemma fdt32_ld_in: "fst m \<le> p \<Longrightarrow> p + 4 \<le> fst m + length (snd m) \<Longrightarrow> \<exists>w. fdt32_ld m p = Some w"
  by (simp add: fdt32_ld_def rd8_def)

lemma header_in: "40 \<le> length (snd fdt) \<Longrightarrow> f < 10 \<Longrightarrow> \<exists>w. fdt_get_header f fdt = Some w"
  unfolding fdt_get_header_def by (rule fdt32_ld_in) auto

lemma mapped_header:
  assumes "fdt_mapped fdt"
  obtains mg t os ss rs v lc sz zs where "fdt_magic fdt = Some mg" "fdt_totalsize fdt = Some t" "fdt_off_dt_struct fdt = Some os"
    "fdt_off_dt_strings fdt = Some ss" "fdt_off_mem_rsvmap fdt = Some rs" "fdt_version fdt = Some v"
    "fdt_last_comp_version fdt = Some lc" "fdt_size_dt_strings fdt = Some sz" "fdt_size_dt_struct fdt = Some zs"
    "unat t < 2 ^ 31" "unat t \<le> length (snd fdt)"
proof -
  have l: "40 \<le> length (snd fdt)" using assms by (simp add: fdt_mapped_def)
  from header_in [OF l, of 0] header_in [OF l, of 2] header_in [OF l, of 3] header_in [OF l, of 4]
    header_in [OF l, of 5] header_in [OF l, of 6] header_in [OF l, of 8] header_in [OF l, of 9] assms that
  show ?thesis by (auto simp: fdt_mapped_def fdt_header_defs split: option.splits)
qed

lemma unat_of_int32: "0 \<le> x \<Longrightarrow> int32 x \<Longrightarrow> unat (of_int x :: u32) = nat x"
proof -
  assume "0 \<le> x" "int32 x"
  then have "nat x < 2 ^ 32" "(of_int x :: u32) = of_nat (nat x)" by (auto simp: int32_def)
  then show ?thesis by (simp add: unsigned_of_nat take_bit_nat_eq_self)
qed

lemma unat_add_nowrap: "\<not> a + b < (a :: u32) \<Longrightarrow> unat (a + b) = unat a + unat b"
  by (metis not_less unat_plus_simple word_le_nat_alt)

lemma offset_ptr_cases:
  assumes m: "fdt_mapped fdt" and o: "int32 off"
  obtains "fdt_offset_ptr fdt off len = Some None"
  | a t where "fdt_offset_ptr fdt off len = Some (Some a)" "0 \<le> off" "fst fdt \<le> a" "a + unat len \<le> fst fdt + length (snd fdt)"
      "fdt_totalsize fdt = Some t" "off + uint len \<le> uint t" "uint t < 2 ^ 31" "fdt_offset_ptr0 fdt off = Some a"
proof -
  from m obtain mg t os ss rs v lc sz zs where h: "fdt_magic fdt = Some mg" "fdt_totalsize fdt = Some t" "fdt_off_dt_struct fdt = Some os"
    "fdt_off_dt_strings fdt = Some ss" "fdt_off_mem_rsvmap fdt = Some rs" "fdt_version fdt = Some v"
    "fdt_last_comp_version fdt = Some lc" "fdt_size_dt_strings fdt = Some sz" "fdt_size_dt_struct fdt = Some zs"
    "unat t < 2 ^ 31" "unat t \<le> length (snd fdt)" by (rule mapped_header)
  let ?u = "of_int off :: u32"
  let ?bad = "off < 0 \<or> (?u + os < ?u \<or> ?u + os + len < ?u + os \<or> ?u + os + len > t) \<or>
    v \<ge> 0x11 \<and> (?u + len < ?u \<or> ?u + len > zs)"
  show ?thesis
  proof (cases ?bad)
    case True
    then have "fdt_offset_ptr fdt off len = Some None" using h by (auto simp: fdt_offset_ptr_def fdt_offset_ptr0_def Let_def)
    then show ?thesis by (rule that(1))
  next
    case False
    then have r: "fdt_offset_ptr fdt off len = Some (Some (fst fdt + unat os + nat off))"
      using h by (auto simp: fdt_offset_ptr_def fdt_offset_ptr0_def Let_def)
    have "unat ?u = nat off" using False o by (intro unat_of_int32) auto
    then have "unat (?u + os + len) = nat off + unat os + unat len" using False by (simp add: unat_add_nowrap)
    then have le: "nat off + unat os + unat len \<le> unat t" using False by (simp add: word_less_nat_alt not_less)
    then have "int (nat off + unat os + unat len) \<le> int (unat t)" by (simp only: of_nat_le_iff)
    then have "off + uint len \<le> uint t" using False uint_ge_0 [of os] by (simp, linarith)
    moreover have "int (unat t) < int (2 ^ 31)" using h(10) by (simp only: of_nat_less_iff)
    ultimately have "off + uint len \<le> uint t" "uint t < 2 ^ 31" by simp_all
    then show ?thesis using r False h le by (intro that(2) [OF r _ _ _ h(2)]) (auto simp: fdt_offset_ptr0_def)
  qed
qed

lemma offset_ptr0_Suc: "fdt_offset_ptr0 fdt off = Some a \<Longrightarrow> 0 \<le> off \<Longrightarrow> fdt_offset_ptr0 fdt (off + int k) = Some (a + k)"
  by (auto simp: fdt_offset_ptr0_def nat_add_distrib split: bind_splits)

lemma skip_name_total:
  assumes m: "fdt_mapped fdt" and t: "fdt_totalsize fdt = Some t"
  shows "int32 off \<Longrightarrow> \<exists>r. skip_name fdt off = Some r \<and>
    (\<forall>o'. r = Some o' \<longrightarrow> 0 \<le> off \<and> o' \<le> uint t \<and>
      (\<exists>a xs. fdt_offset_ptr0 fdt off = Some a \<and> cstr fdt a = Some xs \<and> o' = off + int (length xs) + 1))"
proof (induction "nat (2 ^ 31 - off)" arbitrary: off rule: less_induct)
  case less
  show ?case
  proof (rule offset_ptr_cases [OF m less.prems, of 1])
    assume "fdt_offset_ptr fdt off 1 = Some None"
    then show ?case by (subst skip_name.simps) simp
  next
    fix a t'
    assume p: "fdt_offset_ptr fdt off 1 = Some (Some a)" "0 \<le> off" "fst fdt \<le> a" "a + unat (1 :: u32) \<le> fst fdt + length (snd fdt)"
      "fdt_totalsize fdt = Some t'" "off + uint (1 :: u32) \<le> uint t'" "uint t' < 2 ^ 31" "fdt_offset_ptr0 fdt off = Some a"
    obtain c where c: "rd8 fdt a = Some c" using p(3,4) rd8_in [of fdt a] by auto
    have le: "off + 1 \<le> uint t" "uint t < 2 ^ 31" using p(5-7) t by auto
    then have i: "int32 (off + 1)" using p(2) by (simp add: int32_def)
    show ?case
    proof (cases "c = 0")
      case True
      then have "skip_name fdt off = Some (Some (off + 1))" using p(1) c i32_id [OF i] by (subst skip_name.simps) simp
      moreover have "cstr fdt a = Some []" using c True by (subst cstr.simps) simp
      ultimately show ?thesis using p(2,8) le(1) by auto
    next
      case False
      have "nat (2 ^ 31 - (off + 1)) < nat (2 ^ 31 - off)" using i by (simp add: int32_def)
      from less.hyps [OF this i] obtain r where r: "skip_name fdt (off + 1) = Some r"
        "\<And>o'. r = Some o' \<Longrightarrow> o' \<le> uint t \<and>
          (\<exists>a xs. fdt_offset_ptr0 fdt (off + 1) = Some a \<and> cstr fdt a = Some xs \<and> o' = off + 1 + int (length xs) + 1)"
        by auto
      have "skip_name fdt off = Some r" using p(1) c False r(1) i32_id [OF i] by (subst skip_name.simps) simp
      moreover have "\<exists>xs. cstr fdt a = Some xs \<and> o' = off + int (length xs) + 1" if "r = Some o'" for o'
      proof -
        note rs = that
        obtain xs where "cstr fdt (a + 1) = Some xs" "o' = off + 1 + int (length xs) + 1"
          using r(2) [OF rs] offset_ptr0_Suc [OF p(8,2), of 1] by auto
        then show ?thesis using c False by (subst cstr.simps) simp
      qed
      ultimately show ?thesis using r(2) p(2,8) by auto
    qed
  qed
qed

text \<open>How far a value at offset \<open>d\<close> is moved in the versions before 16.\<close>

definition realign :: "u32 \<Rightarrow> int \<Rightarrow> u32 \<Rightarrow> nat" where
  "realign v d len = (if v < 0x10 \<and> d mod 8 \<noteq> 0 \<and> len \<ge> 8 then 4 else 0)"

lemma realign_test:
  assumes "0 \<le> d" "d + uint len < 2 ^ 32"
  shows "(of_int (d + uint len) - len) mod 8 \<noteq> (0 :: u32) \<longleftrightarrow> d mod 8 \<noteq> 0"
proof -
  have "(of_int (d + uint len) :: u32) - len = of_int d" by simp
  moreover have "d < 2 ^ 32" using assms uint_ge_0 [of len] by linarith
  then have "uint (of_int d :: u32) = d" using assms(1) by (simp add: unsigned_of_int take_bit_eq_mod)
  then have "uint ((of_int d :: u32) mod 8) = d mod 8" by (simp add: uint_mod)
  then have "(of_int d :: u32) mod 8 = 0 \<longleftrightarrow> d mod 8 = 0" by (metis uint_0_iff unsigned_0)
  ultimately show ?thesis by simp
qed

lemma tag_body_total:
  assumes m: "fdt_mapped fdt" and o: "int32 off" "0 \<le> off"
  shows "\<exists>r. tag_body fdt tag off = Some r \<and> (\<forall>o'. r = Some o' \<longrightarrow> int32 o' \<and> (o' < 0 \<or> off \<le> o') \<and>
    (tag = FDT_BEGIN_NODE \<longrightarrow> (\<exists>a xs. fdt_offset_ptr0 fdt off = Some a \<and> cstr fdt a = Some xs)) \<and>
    (tag = FDT_PROP \<longrightarrow> (\<exists>a len. fdt_offset_ptr0 fdt off = Some a \<and> fdt32_ld fdt a = Some len \<and> uint len < 2 ^ 31 \<and>
      (\<exists>v. fdt_version fdt = Some v \<and> (o' < 0 \<or> off + 8 + uint len + int (realign v (off + 8) len) \<le> o')))))"
proof -
  consider "tag = FDT_BEGIN_NODE" | "tag = FDT_PROP" | "tag \<noteq> FDT_BEGIN_NODE" "tag \<noteq> FDT_PROP" by blast
  then show ?thesis
  proof cases
    case 1
    obtain t where t: "fdt_totalsize fdt = Some t" "uint t < 2 ^ 31"
      using m by (auto simp: fdt_mapped_def split: option.splits) (metis of_nat_less_iff of_nat_numeral of_nat_power uint_nat)
    from skip_name_total [OF m t(1) o(1)] obtain r where r: "skip_name fdt off = Some r"
      "\<And>o'. r = Some o' \<Longrightarrow> o' \<le> uint t \<and> (\<exists>a xs. fdt_offset_ptr0 fdt off = Some a \<and> cstr fdt a = Some xs \<and> o' = off + int (length xs) + 1)"
      by auto
    then show ?thesis using 1 t(2) o by (force simp: tag_body_def int32_def fdt_tags)
  next
    case 2
    show ?thesis
    proof (rule offset_ptr_cases [OF m o(1), of 4])
      assume "fdt_offset_ptr fdt off 4 = Some None"
      then show ?thesis using 2 by (simp add: tag_body_def fdt_tags)
    next
      fix a t
      assume p: "fdt_offset_ptr fdt off 4 = Some (Some a)" "0 \<le> off" "fst fdt \<le> a" "a + unat (4 :: u32) \<le> fst fdt + length (snd fdt)"
        "fdt_totalsize fdt = Some t" "off + uint (4 :: u32) \<le> uint t" "uint t < 2 ^ 31" "fdt_offset_ptr0 fdt off = Some a"
      obtain len where len: "fdt32_ld fdt a = Some len" using fdt32_ld_in [of fdt a] p(3,4) by auto
      obtain v where v: "fdt_version fdt = Some v" by (rule mapped_header [OF m])
      define o1 where "o1 = i32 (off + 8 + uint len)"
      define c where "c \<longleftrightarrow> (of_int o1 - len) mod 8 \<noteq> (0 :: u32)"
      define o2 where "o2 = (if v < 0x10 \<and> len \<ge> 8 \<and> c then i32 (o1 + 4) else o1)"
      let ?sum = "len + of_int off"
      have tb: "tag_body fdt tag off = Some (if 0x7fffffff \<le> ?sum \<or> ?sum < of_int off then None else Some o2)"
        using 2 p(1) len v by (simp add: tag_body_def fdt_tags Let_def o1_def o2_def c_def)
      have "int32 o2 \<and> uint len < 2 ^ 31 \<and> (o2 < 0 \<or> off + 8 + uint len + int (realign v (off + 8) len) \<le> o2)" if n: "\<not> (0x7fffffff \<le> ?sum \<or> ?sum < of_int off)"
      proof -
        have "unat ?sum = unat len + nat off" using n unat_add_nowrap [of "of_int off" len] unat_of_int32 [OF p(2) o(1)] by (simp add: add.commute)
        moreover have "unat ?sum < unat (0x7fffffff :: u32)" using n by (simp add: word_less_nat_alt not_le)
        ultimately have "int (unat len + nat off) < int (unat (0x7fffffff :: u32))" by (simp only: of_nat_less_iff)
        then have s: "uint len + off < 2 ^ 31 - 1" using p(2) by simp
        have u: "0 \<le> uint len" by simp
        have "int32 o1" by (simp add: o1_def)
        moreover have "o1 < - (2 ^ 31) + 8 \<or> o1 = off + 8 + uint len"
          using s p(2) i32_wrap [of "off + 8 + uint len"] by (auto simp: o1_def int32_def split: if_splits)
        moreover have "realign v (off + 8) len = (if v < 0x10 \<and> len \<ge> 8 \<and> c then 4 else 0)" if "o1 = off + 8 + uint len"
          using realign_test [of "off + 8" len] s p(2) unfolding realign_def c_def that by simp
        ultimately show ?thesis using s u p(2) i32_id [of "o1 + 4"] i32_wrap [of "o1 + 4"]
          by (auto simp: o2_def int32_def split: if_splits)
      qed
      then have "int32 o2 \<and> uint len < 2 ^ 31 \<and> (o2 < 0 \<or> off \<le> o2 \<and> off + 8 + uint len + int (realign v (off + 8) len) \<le> o2)" if "\<not> (0x7fffffff \<le> ?sum \<or> ?sum < of_int off)"
        using that uint_ge_0 [of len] by linarith
      then show ?thesis using tb p(8) len v 2 by (auto simp: fdt_tags)
    qed
  next
    case 3
    then show ?thesis using o by (auto simp: tag_body_def)
  qed
qed

lemma wrap_diff:
  assumes "int32 x" "int32 s" "0 \<le> s" "s + uint (of_int (x - s) :: u32) < 2 ^ 31"
  shows "x = s + uint (of_int (x - s) :: u32)"
proof -
  have u: "uint (of_int (x - s) :: u32) = (x - s) mod 2 ^ 32" by (simp add: unsigned_of_int take_bit_eq_mod del: of_int_diff)
  show ?thesis
  proof (cases "0 \<le> x - s")
    case True
    then show ?thesis using u assms(1-3) by (simp add: int32_def mod_pos_pos_trivial)
  next
    case False
    have "(x - s) mod 2 ^ 32 = (x - s + 2 ^ 32) mod 2 ^ 32" by simp
    also have "\<dots> = x - s + 2 ^ 32" using False assms(1-3) by (intro mod_pos_pos_trivial) (auto simp: int32_def)
    finally show ?thesis using u assms by (simp add: int32_def)
  qed
qed

definition tag_ok :: "bmem \<Rightarrow> int \<Rightarrow> u32 \<Rightarrow> int \<Rightarrow> bool" where
  "tag_ok fdt off tag next \<longleftrightarrow> int32 next \<and> (tag \<noteq> FDT_END \<longrightarrow> 0 \<le> off \<and> (next < 0 \<or> off < next)) \<and>
     (tag = FDT_BEGIN_NODE \<longrightarrow> (\<exists>a xs. fdt_offset_ptr0 fdt off = Some a \<and> cstr fdt (a + 4) = Some xs)) \<and>
     (tag = FDT_PROP \<longrightarrow> (\<exists>a len. fdt_offset_ptr0 fdt off = Some a \<and> fst fdt \<le> a \<and> fdt32_ld fdt (a + 4) = Some len \<and> uint len < 2 ^ 31 \<and>
        (\<exists>v. fdt_version fdt = Some v \<and> a + 12 + realign v (off + 12) len + unat len \<le> fst fdt + length (snd fdt))))"

lemma tag_ok_END: "int32 n \<Longrightarrow> tag_ok fdt off FDT_END n"
  by (simp add: tag_ok_def fdt_tags)

lemma next_tag_total:
  assumes m: "fdt_mapped fdt" and o: "int32 off"
  shows "\<exists>tag next. fdt_next_tag fdt off = Some (tag, next) \<and> tag_ok fdt off tag next"
proof -
  have e: "tag_ok fdt off FDT_END (- FDT_ERR_TRUNCATED)" "tag_ok fdt off FDT_END (- FDT_ERR_BADSTRUCTURE)"
    by (auto intro!: tag_ok_END simp: int32_def fdt_errs)
  show ?thesis
  proof (rule offset_ptr_cases [OF m o, of 4])
    assume "fdt_offset_ptr fdt off 4 = Some None"
    then show ?thesis using e by (simp add: fdt_next_tag_def)
  next
    fix a t
    assume p: "fdt_offset_ptr fdt off 4 = Some (Some a)" "0 \<le> off" "fst fdt \<le> a" "a + unat (4 :: u32) \<le> fst fdt + length (snd fdt)"
      "fdt_totalsize fdt = Some t" "off + uint (4 :: u32) \<le> uint t" "uint t < 2 ^ 31" "fdt_offset_ptr0 fdt off = Some a"
    obtain tag where tag: "fdt32_ld fdt a = Some tag" using fdt32_ld_in [of fdt a] p(3,4) by auto
    have o4: "int32 (off + 4)" "0 \<le> off + 4" using p by (auto simp: int32_def)
    obtain r where r: "tag_body fdt tag (off + 4) = Some r" "\<And>o'. r = Some o' \<Longrightarrow> int32 o' \<and> (o' < 0 \<or> off + 4 \<le> o') \<and>
      (tag = FDT_BEGIN_NODE \<longrightarrow> (\<exists>a xs. fdt_offset_ptr0 fdt (off + 4) = Some a \<and> cstr fdt a = Some xs)) \<and>
      (tag = FDT_PROP \<longrightarrow> (\<exists>a len. fdt_offset_ptr0 fdt (off + 4) = Some a \<and> fdt32_ld fdt a = Some len \<and> uint len < 2 ^ 31 \<and>
        (\<exists>v. fdt_version fdt = Some v \<and> (o' < 0 \<or> off + 12 + uint len + int (realign v (off + 12) len) \<le> o'))))"
      using tag_body_total [OF m o4, of tag, unfolded add.assoc [of off 4 8], simplified] by auto
    have p4: "fdt_offset_ptr0 fdt (off + 4) = Some (a + 4)" using offset_ptr0_Suc [OF p(8,2), of 4] by simp
    show ?thesis
    proof (cases r)
      case None
      then show ?thesis using p(1) tag r(1) e i32_id [OF o4(1)] by (simp add: fdt_next_tag_def)
    next
      case (Some o')
      note q = r(2) [OF Some]
      let ?L = "of_int (o' - off) :: u32"
      show ?thesis
      proof (rule offset_ptr_cases [OF m o, of ?L])
        assume "fdt_offset_ptr fdt off ?L = Some None"
        then show ?thesis using p(1) tag r(1) Some e i32_id [OF o4(1)] by (simp add: fdt_next_tag_def)
      next
        fix b t'
        assume z: "fdt_offset_ptr fdt off ?L = Some (Some b)" "b + unat ?L \<le> fst fdt + length (snd fdt)"
          "off + uint ?L \<le> uint t'" "uint t' < 2 ^ 31" "fdt_offset_ptr0 fdt off = Some b"
        define nx where "nx = i32 ((o' + 3) div 4 * 4)"
        have nt: "fdt_next_tag fdt off = Some (tag, nx)"
          using p(1) tag r(1) Some z(1) i32_id [OF o4(1)] by (simp add: fdt_next_tag_def nx_def)
        have o': "o' = off + uint ?L" using wrap_diff [of o' off] q o p(2) z(3,4) by auto
        then have ge: "off + 4 \<le> o'" "o' < 2 ^ 31" using q p(2) z(3,4) uint_ge_0 [of ?L] by linarith+
        have "nx < 0 \<or> off < nx"
          using ge p(2) i32_wrap [of "(o' + 3) div 4 * 4"] by (auto simp: nx_def)
        moreover have "a + 12 + d + unat len \<le> fst fdt + length (snd fdt)" if "off + 12 + uint len + int d \<le> o'" for len :: u32 and d
        proof -
          have "12 + uint len + int d \<le> uint ?L" using that o' by linarith
          then have "int (12 + unat len + d) \<le> int (unat ?L)" by simp
          then have "12 + unat len + d \<le> unat ?L" by (simp only: of_nat_le_iff)
          then show ?thesis using z(2,5) p(8) by simp
        qed
        ultimately have "tag_ok fdt off tag nx"
          using q p(2,3,8) p4 ge unfolding tag_ok_def by (auto simp: nx_def)
        then show ?thesis using nt by blast
      qed
    qed
  qed
qed

text \<open>Offsets grow until a negative one ends the walk.\<close>

definition mu32 :: "int \<Rightarrow> nat" where
  "mu32 x = (if x < 0 then 0 else nat (2 ^ 31 - x))"

lemma mu32_less: "0 \<le> x \<Longrightarrow> int32 x \<Longrightarrow> y < 0 \<or> x < y \<Longrightarrow> mu32 y < mu32 x"
  by (auto simp: mu32_def int32_def)

lemma next_node_loop_total:
  assumes m: "fdt_mapped fdt"
  shows "int32 off \<Longrightarrow> \<exists>o' d'. next_node_loop fdt off depth = Some (o', d') \<and> int32 o' \<and> (0 \<le> o' \<longrightarrow> 0 \<le> off \<and> off \<le> o') \<and>
    (depth = None \<longleftrightarrow> d' = None)"
proof (induction "mu32 off" arbitrary: off depth rule: less_induct)
  case less
  from next_tag_total [OF m less.prems] obtain tag nx where t: "fdt_next_tag fdt off = Some (tag, nx)" "tag_ok fdt off tag nx"
    by blast
  have n: "int32 nx" "tag \<noteq> FDT_END \<Longrightarrow> 0 \<le> off \<and> (nx < 0 \<or> off < nx)" using t(2) by (auto simp: tag_ok_def)
  show ?case
  proof (cases "tag = FDT_END")
    case True
    have "int32 (- FDT_ERR_NOTFOUND)" by (simp add: int32_def fdt_errs)
    then show ?thesis using t(1) True n(1) by (subst next_node_loop.simps) (auto simp: fdt_tags fdt_errs)
  next
    case False
    note k = n(2) [OF False]
    have ih: "\<exists>o' d'. next_node_loop fdt nx depth' = Some (o', d') \<and> int32 o' \<and> (0 \<le> o' \<longrightarrow> 0 \<le> off \<and> off \<le> o') \<and> (depth' = None \<longleftrightarrow> d' = None)" for depth'
    proof -
      obtain o' d' where r: "next_node_loop fdt nx depth' = Some (o', d')" "int32 o'" "0 \<le> o' \<longrightarrow> 0 \<le> nx \<and> nx \<le> o'"
        "depth' = None \<longleftrightarrow> d' = None"
        using less.hyps [OF mu32_less n(1), of depth'] k less.prems by blast
      then have "0 \<le> o' \<longrightarrow> 0 \<le> off \<and> off \<le> o'" using k by auto
      then show ?thesis using r by blast
    qed
    show ?thesis
    proof (cases "tag = FDT_BEGIN_NODE")
      case True
      then show ?thesis using t(1) less.prems by (subst next_node_loop.simps) simp
    next
      case nb: False
      show ?thesis
      proof (cases "tag = FDT_END_NODE \<and> (\<exists>d. depth = Some d \<and> d - 1 < 0)")
        case True
        then show ?thesis using t(1) n(1) k nb by (subst next_node_loop.simps) auto
      next
        case c: False
        define depth' where "depth' = (if tag = FDT_END_NODE then map_option (\<lambda>d. d - 1) depth else depth)"
        have "next_node_loop fdt off depth = next_node_loop fdt nx depth'" "depth' = None \<longleftrightarrow> depth = None"
          using t(1) nb False c by (subst (1) next_node_loop.simps) (auto simp: depth'_def split: option.splits)
        then show ?thesis using ih [of depth'] by auto
      qed
    qed
  qed
qed

lemma check_node_total:
  assumes "fdt_mapped fdt" "int32 off"
  shows "\<exists>n. fdt_check_node_offset fdt off = Some n \<and> int32 n \<and>
    (0 \<le> n \<longrightarrow> 0 \<le> off \<and> off < n \<and> (\<exists>a xs. fdt_offset_ptr0 fdt off = Some a \<and> cstr fdt (a + 4) = Some xs))"
proof -
  have "int32 (- FDT_ERR_BADOFFSET)" by (simp add: int32_def fdt_errs)
  then show ?thesis using next_tag_total [OF assms]
    by (auto simp: fdt_check_node_offset_def tag_ok_def fdt_errs fdt_tags)
qed

lemma check_prop_total:
  assumes "fdt_mapped fdt" "int32 off"
  shows "\<exists>n. fdt_check_prop_offset fdt off = Some n \<and> int32 n \<and>
    (0 \<le> n \<longrightarrow> 0 \<le> off \<and> off < n \<and> (\<exists>a len. fdt_offset_ptr0 fdt off = Some a \<and> fst fdt \<le> a \<and> fdt32_ld fdt (a + 4) = Some len \<and> uint len < 2 ^ 31 \<and>
      (\<exists>v. fdt_version fdt = Some v \<and> a + 12 + realign v (off + 12) len + unat len \<le> fst fdt + length (snd fdt))))"
proof -
  have "int32 (- FDT_ERR_BADOFFSET)" by (simp add: int32_def fdt_errs)
  then show ?thesis using next_tag_total [OF assms]
    by (auto simp: fdt_check_prop_offset_def tag_ok_def fdt_errs fdt_tags)
qed

lemma next_node_total:
  assumes m: "fdt_mapped fdt" and o: "int32 off"
  shows "\<exists>o' d'. fdt_next_node fdt off depth = Some (o', d') \<and> int32 o' \<and> (0 \<le> o' \<longrightarrow> off < o' \<or> off < 0) \<and> (depth = None \<longleftrightarrow> d' = None)"
proof (cases "0 \<le> off")
  case True
  obtain n where n: "fdt_check_node_offset fdt off = Some n" "int32 n" "0 \<le> n \<Longrightarrow> off < n"
    using check_node_total [OF m o] by auto
  obtain o' d' where "next_node_loop fdt n depth = Some (o', d')" "int32 o'" "0 \<le> o' \<Longrightarrow> n \<le> o'" "depth = None \<longleftrightarrow> d' = None"
    using next_node_loop_total [OF m n(2), of depth] by auto
  then show ?thesis using n True by (cases "n < 0") (auto simp: fdt_next_node_def)
next
  case False
  have "int32 0" by (simp add: int32_def)
  then show ?thesis using next_node_loop_total [OF m, of 0 depth] False by (auto simp: fdt_next_node_def)
qed

lemma next_subnode_loop_total:
  assumes m: "fdt_mapped fdt"
  shows "0 \<le> off \<Longrightarrow> int32 off \<Longrightarrow> \<exists>o'. next_subnode_loop fdt off (Some d) = Some o' \<and> int32 o' \<and> (0 \<le> o' \<longrightarrow> off < o')"
proof (induction "mu32 off" arbitrary: off d rule: less_induct)
  case less
  have e: "int32 (- FDT_ERR_NOTFOUND)" by (simp add: int32_def fdt_errs)
  obtain o' d' where n: "fdt_next_node fdt off (Some d) = Some (o', Some d')" "int32 o'" "0 \<le> o' \<Longrightarrow> off < o'"
    using next_node_total [OF m less.prems(2), of "Some d"] less.prems(1) by (auto; metis not_None_eq option.distinct(1))
  show ?case
  proof (cases "o' < 0 \<or> d' < 1")
    case True
    then show ?thesis using n e by (subst next_subnode_loop.simps) (auto simp: fdt_errs)
  next
    case False
    obtain o'' where "next_subnode_loop fdt o' (Some d') = Some o''" "int32 o''" "0 \<le> o'' \<Longrightarrow> o' < o''"
      using less.hyps [of o' d'] mu32_less [OF less.prems] False n(2,3) by auto
    then show ?thesis using n False by (subst next_subnode_loop.simps) auto
  qed
qed

end
