(* ===== verification/Fdt_Ro.thy ===== *)
theory Fdt_Ro
  imports Fdt
begin

text \<open>Model of \<^verbatim>\<open>deps/libfdt/fdt_ro.c\<close>, the reading functions of libfdt. A name or path that a caller passes
  is the list of its characters without the terminating zero. A function that answers a pointer and sets
  \<open>*lenp\<close> answers the pair of both, with \<^const>\<open>None\<close> for the null pointer.\<close>

section \<open>Functions of the C library\<close>

fun memchr :: "bmem \<Rightarrow> nat \<Rightarrow> u8 \<Rightarrow> nat \<Rightarrow> nat option option" where
  "memchr m a c 0 = Some None"
| "memchr m a c (Suc n) = do {
     x \<leftarrow> rd8 m a;
     if x = c then Some (Some a) else memchr m (a + 1) c n
   }"

definition strnlen :: "bmem \<Rightarrow> nat \<Rightarrow> nat \<Rightarrow> nat option" where
  "strnlen m a n = map_option (\<lambda>r. case r of None \<Rightarrow> n | Some p \<Rightarrow> p - a) (memchr m a 0 n)"

definition memeq :: "bmem \<Rightarrow> nat \<Rightarrow> u8 list \<Rightarrow> bool option" where
  "memeq m a s = map_option (\<lambda>cs. cs = s) (mem_bytes m a (length s))"

section \<open>Names and strings\<close>

text \<open>The string behind the last \<open>/\<close>, which old versions of the format need.\<close>

definition leaf_name :: "u8 list \<Rightarrow> nat option" where
  "leaf_name xs = (if 0x2f \<in> set xs then Some (length xs - length (takeWhile (\<lambda>c. c \<noteq> 0x2f) (rev xs))) else None)"

definition fdt_get_name :: "bmem \<Rightarrow> int \<Rightarrow> (nat option \<times> int) option" where
  "fdt_get_name fdt nodeoffset = do {
     err \<leftarrow> fdt_ro_probe fdt;
     if err < 0 then Some (None, err)
     else do {
       err \<leftarrow> fdt_check_node_offset fdt nodeoffset;
       if err < 0 then Some (None, err)
       else do {
         nh \<leftarrow> fdt_offset_ptr0 fdt nodeoffset;
         name \<leftarrow> cstr fdt (nh + 4);
         version \<leftarrow> fdt_version fdt;
         if version < 0x10 then
           (case leaf_name name of
              None \<Rightarrow> Some (None, - FDT_ERR_BADSTRUCTURE)
            | Some k \<Rightarrow> Some (Some (nh + 4 + k), int (length name - k)))
         else Some (Some (nh + 4), int (length name))
       }
     }
   }"

definition fdt_nodename_eq :: "bmem \<Rightarrow> int \<Rightarrow> u8 list \<Rightarrow> bool option" where
  "fdt_nodename_eq fdt offset s = do {
     (p, olen) \<leftarrow> fdt_get_name fdt offset;
     (case p of
        None \<Rightarrow> Some False
      | Some a \<Rightarrow>
          if olen < int (length s) then Some False
          else do {
            eq \<leftarrow> memeq fdt a s;
            if \<not> eq then Some False
            else do {
              c \<leftarrow> rd8 fdt (a + length s);
              Some (c = 0 \<or> 0x40 \<notin> set s \<and> c = 0x40)
            }
          })
   }"

definition fdt_get_string :: "bmem \<Rightarrow> int \<Rightarrow> (nat option \<times> int) option" where
  "fdt_get_string fdt stroffset = do {
     totalsize \<leftarrow> fdt_ro_probe fdt;
     if totalsize < 0 then Some (None, totalsize)
     else do {
       ss \<leftarrow> fdt_off_dt_strings fdt;
       let absoffset = of_int stroffset + ss;
       if absoffset \<ge> of_int totalsize then Some (None, - FDT_ERR_BADOFFSET)
       else do {
         let len = unat (of_int totalsize - absoffset);
         magic \<leftarrow> fdt_magic fdt;
         sz \<leftarrow> fdt_size_dt_strings fdt;
         version \<leftarrow> fdt_version fdt;
         r \<leftarrow> Some
           (if magic = FDT_MAGIC then
              (if stroffset < 0 then Inl (- FDT_ERR_BADOFFSET)
               else if version \<ge> 17 then
                 (if of_int stroffset \<ge> sz then Inl (- FDT_ERR_BADOFFSET) else Inr (min len (unat (sz - of_int stroffset))))
               else Inr len)
            else if magic = FDT_SW_MAGIC then
              (if stroffset \<ge> 0 \<or> of_int (- stroffset) > sz then Inl (- FDT_ERR_BADOFFSET)
               else Inr (min len (unat (of_int (- stroffset) :: u32))))
            else Inl (- FDT_ERR_INTERNAL));
         (case r of
            Inl err \<Rightarrow> Some (None, err)
          | Inr len \<Rightarrow> do {
              let s = fst fdt + unat absoffset;
              n \<leftarrow> memchr fdt s 0 len;
              (case n of None \<Rightarrow> Some (None, - FDT_ERR_TRUNCATED) | Some e \<Rightarrow> Some (Some s, int (e - s)))
            })
       }
     }
   }"

definition fdt_string :: "bmem \<Rightarrow> int \<Rightarrow> nat option option" where
  "fdt_string fdt stroffset = map_option fst (fdt_get_string fdt stroffset)"

definition fdt_string_eq :: "bmem \<Rightarrow> int \<Rightarrow> u8 list \<Rightarrow> bool option" where
  "fdt_string_eq fdt stroffset s = do {
     (p, slen) \<leftarrow> fdt_get_string fdt stroffset;
     (case p of
        None \<Rightarrow> Some False
      | Some a \<Rightarrow> if slen = int (length s) then memeq fdt a s else Some False)
   }"

section \<open>The reservation map\<close>

definition fdt_mem_rsv :: "bmem \<Rightarrow> int \<Rightarrow> nat option option" where
  "fdt_mem_rsv fdt n = do {
     rs \<leftarrow> fdt_off_mem_rsvmap fdt;
     totalsize \<leftarrow> fdt_totalsize fdt;
     let absoffset = rs + of_int (n * 16);
     Some (if absoffset < rs then None
           else if (ucast absoffset :: u64) > ucast totalsize - 16 then None
           else Some (nat (int (fst fdt) + uint rs + n * 16)))
   }"

definition fdt_get_mem_rsv :: "bmem \<Rightarrow> int \<Rightarrow> (int \<times> u64 \<times> u64) option" where
  "fdt_get_mem_rsv fdt n = do {
     r \<leftarrow> fdt_ro_probe fdt;
     if r < 0 then Some (r, 0, 0)
     else do {
       re \<leftarrow> fdt_mem_rsv fdt n;
       (case re of
          None \<Rightarrow> Some (- FDT_ERR_BADOFFSET, 0, 0)
        | Some a \<Rightarrow> do {
            address \<leftarrow> fdt64_ld fdt a;
            sz \<leftarrow> fdt64_ld fdt (a + 8);
            Some (0, address, sz)
          })
     }
   }"

partial_function (option) num_mem_rsv_loop :: "bmem \<Rightarrow> int \<Rightarrow> int option" where
  "num_mem_rsv_loop fdt i = do {
     re \<leftarrow> fdt_mem_rsv fdt i;
     (case re of
        None \<Rightarrow> Some (- FDT_ERR_TRUNCATED)
      | Some a \<Rightarrow> do {
          sz \<leftarrow> fdt64_ld fdt (a + 8);
          if sz = 0 then Some i else num_mem_rsv_loop fdt (i32 (i + 1))
        })
   }"

definition fdt_num_mem_rsv :: "bmem \<Rightarrow> int option" where
  "fdt_num_mem_rsv fdt = num_mem_rsv_loop fdt 0"

section \<open>Properties\<close>

partial_function (option) nextprop :: "bmem \<Rightarrow> int \<Rightarrow> int option" where
  "nextprop fdt offset = do {
     (tag, nextoffset) \<leftarrow> fdt_next_tag fdt offset;
     if tag = FDT_END then Some (if nextoffset \<ge> 0 then - FDT_ERR_BADSTRUCTURE else nextoffset)
     else if tag = FDT_PROP then Some offset
     else if tag = FDT_NOP then nextprop fdt nextoffset
     else Some (- FDT_ERR_NOTFOUND)
   }"

definition fdt_first_property_offset :: "bmem \<Rightarrow> int \<Rightarrow> int option" where
  "fdt_first_property_offset fdt nodeoffset = do {
     offset \<leftarrow> fdt_check_node_offset fdt nodeoffset;
     if offset < 0 then Some offset else nextprop fdt offset
   }"

definition fdt_next_property_offset :: "bmem \<Rightarrow> int \<Rightarrow> int option" where
  "fdt_next_property_offset fdt offset = do {
     offset \<leftarrow> fdt_check_prop_offset fdt offset;
     if offset < 0 then Some offset else nextprop fdt offset
   }"

text \<open>The two functions whose C names differ in a trailing underscore are \<open>fdt_get_property_by_offset0\<close> and
  \<open>fdt_get_property_namelen0\<close>; the latter also answers the offset of the property.\<close>

definition fdt_get_property_by_offset0 :: "bmem \<Rightarrow> int \<Rightarrow> (nat option \<times> int) option" where
  "fdt_get_property_by_offset0 fdt offset = do {
     err \<leftarrow> fdt_check_prop_offset fdt offset;
     if err < 0 then Some (None, err)
     else do {
       prop \<leftarrow> fdt_offset_ptr0 fdt offset;
       len \<leftarrow> fdt32_ld fdt (prop + 4);
       Some (Some prop, sint len)
     }
   }"

definition fdt_get_property_by_offset :: "bmem \<Rightarrow> int \<Rightarrow> (nat option \<times> int) option" where
  "fdt_get_property_by_offset fdt offset = do {
     version \<leftarrow> fdt_version fdt;
     if version < 0x10 then Some (None, - FDT_ERR_BADVERSION) else fdt_get_property_by_offset0 fdt offset
   }"

partial_function (option) get_property_loop :: "bmem \<Rightarrow> int \<Rightarrow> u8 list \<Rightarrow> (nat option \<times> int \<times> int) option" where
  "get_property_loop fdt offset name =
     (if offset < 0 then Some (None, offset, offset)
      else do {
        (prop, len) \<leftarrow> fdt_get_property_by_offset0 fdt offset;
        (case prop of
           None \<Rightarrow> Some (None, - FDT_ERR_INTERNAL, - FDT_ERR_INTERNAL)
         | Some a \<Rightarrow> do {
             nameoff \<leftarrow> fdt32_ld fdt (a + 8);
             eq \<leftarrow> fdt_string_eq fdt (sint nameoff) name;
             if eq then Some (Some a, len, offset)
             else do {
               offset' \<leftarrow> fdt_next_property_offset fdt offset;
               get_property_loop fdt offset' name
             }
           })
      })"

definition fdt_get_property_namelen0 :: "bmem \<Rightarrow> int \<Rightarrow> u8 list \<Rightarrow> (nat option \<times> int \<times> int) option" where
  "fdt_get_property_namelen0 fdt offset name = do {
     offset \<leftarrow> fdt_first_property_offset fdt offset;
     get_property_loop fdt offset name
   }"

definition fdt_get_property_namelen :: "bmem \<Rightarrow> int \<Rightarrow> u8 list \<Rightarrow> (nat option \<times> int) option" where
  "fdt_get_property_namelen fdt offset name = do {
     version \<leftarrow> fdt_version fdt;
     if version < 0x10 then Some (None, - FDT_ERR_BADVERSION)
     else map_option (\<lambda>(p, len, _). (p, len)) (fdt_get_property_namelen0 fdt offset name)
   }"

definition fdt_get_property :: "bmem \<Rightarrow> int \<Rightarrow> u8 list \<Rightarrow> (nat option \<times> int) option" where
  "fdt_get_property fdt nodeoffset name = fdt_get_property_namelen fdt nodeoffset name"

text \<open>Old versions align the value of a property of eight bytes or more to eight bytes.\<close>

definition prop_data :: "bmem \<Rightarrow> int \<Rightarrow> nat \<Rightarrow> nat option" where
  "prop_data fdt poffset prop = do {
     version \<leftarrow> fdt_version fdt;
     len \<leftarrow> fdt32_ld fdt (prop + 4);
     Some (if version < 0x10 \<and> (poffset + 12) mod 8 \<noteq> 0 \<and> len \<ge> 8 then prop + 12 + 4 else prop + 12)
   }"

definition fdt_getprop_namelen :: "bmem \<Rightarrow> int \<Rightarrow> u8 list \<Rightarrow> (nat option \<times> int) option" where
  "fdt_getprop_namelen fdt nodeoffset name = do {
     (prop, len, poffset) \<leftarrow> fdt_get_property_namelen0 fdt nodeoffset name;
     (case prop of
        None \<Rightarrow> Some (None, len)
      | Some a \<Rightarrow> do {
          d \<leftarrow> prop_data fdt poffset a;
          Some (Some d, len)
        })
   }"

definition fdt_getprop :: "bmem \<Rightarrow> int \<Rightarrow> u8 list \<Rightarrow> (nat option \<times> int) option" where
  "fdt_getprop fdt nodeoffset name = fdt_getprop_namelen fdt nodeoffset name"

definition fdt_getprop_by_offset :: "bmem \<Rightarrow> int \<Rightarrow> (nat option \<times> nat option \<times> int) option" where
  "fdt_getprop_by_offset fdt offset = do {
     (prop, len) \<leftarrow> fdt_get_property_by_offset0 fdt offset;
     (case prop of
        None \<Rightarrow> Some (None, None, len)
      | Some a \<Rightarrow> do {
          nameoff \<leftarrow> fdt32_ld fdt (a + 8);
          (name, namelen) \<leftarrow> fdt_get_string fdt (sint nameoff);
          (case name of
             None \<Rightarrow> Some (None, None, namelen)
           | Some n \<Rightarrow> do {
               d \<leftarrow> prop_data fdt offset a;
               Some (Some d, Some n, len)
             })
        })
   }"

definition fdt_get_phandle :: "bmem \<Rightarrow> int \<Rightarrow> u32 option" where
  "fdt_get_phandle fdt nodeoffset = do {
     (php, len) \<leftarrow> fdt_getprop fdt nodeoffset (lit ''phandle'');
     if php = None \<or> len \<noteq> 4 then do {
       (php, len) \<leftarrow> fdt_getprop fdt nodeoffset (lit ''linux,phandle'');
       if php = None \<or> len \<noteq> 4 then Some 0 else fdt32_ld fdt (the php)
     }
     else fdt32_ld fdt (the php)
   }"

partial_function (option) max_phandle_loop :: "bmem \<Rightarrow> int \<Rightarrow> u32 \<Rightarrow> (int \<times> u32) option" where
  "max_phandle_loop fdt offset mx = do {
     (offset, _) \<leftarrow> fdt_next_node fdt offset None;
     if offset < 0 then Some (if offset = - FDT_ERR_NOTFOUND then 0 else offset, mx)
     else do {
       value \<leftarrow> fdt_get_phandle fdt offset;
       max_phandle_loop fdt offset (if value > mx then value else mx)
     }
   }"

definition fdt_find_max_phandle :: "bmem \<Rightarrow> (int \<times> u32) option" where
  "fdt_find_max_phandle fdt = max_phandle_loop fdt (-1) 0"

definition FDT_MAX_PHANDLE :: u32 where "FDT_MAX_PHANDLE = 0xfffffffe"

definition fdt_generate_phandle :: "bmem \<Rightarrow> (int \<times> u32) option" where
  "fdt_generate_phandle fdt = do {
     (err, mx) \<leftarrow> fdt_find_max_phandle fdt;
     Some (if err < 0 then (err, 0)
           else if mx = FDT_MAX_PHANDLE then (- FDT_ERR_NOPHANDLES, 0)
           else (0, mx + 1))
   }"

section \<open>Nodes\<close>

partial_function (option) subnode_loop :: "bmem \<Rightarrow> int \<Rightarrow> int \<Rightarrow> u8 list \<Rightarrow> int option" where
  "subnode_loop fdt offset depth name =
     (if offset \<ge> 0 \<and> depth \<ge> 0 then do {
        eq \<leftarrow> (if depth = 1 then fdt_nodename_eq fdt offset name else Some False);
        if eq then Some offset
        else do {
          (offset', depth') \<leftarrow> fdt_next_node fdt offset (Some depth);
          subnode_loop fdt offset' (the depth') name
        }
      }
      else Some (if depth < 0 then - FDT_ERR_NOTFOUND else offset))"

definition fdt_subnode_offset_namelen :: "bmem \<Rightarrow> int \<Rightarrow> u8 list \<Rightarrow> int option" where
  "fdt_subnode_offset_namelen fdt offset name = do {
     r \<leftarrow> fdt_ro_probe fdt;
     if r < 0 then Some r else subnode_loop fdt offset 0 name
   }"

definition fdt_subnode_offset :: "bmem \<Rightarrow> int \<Rightarrow> u8 list \<Rightarrow> int option" where
  "fdt_subnode_offset fdt parentoffset name = fdt_subnode_offset_namelen fdt parentoffset name"

lemma path_rest_shorter:
  assumes "dropWhile (\<lambda>c. c = z) p \<noteq> []"
  shows "length (dropWhile (\<lambda>c. c \<noteq> z) (dropWhile (\<lambda>c. c = z) p)) < length p"
proof -
  have "length (dropWhile (\<lambda>c. c \<noteq> z) xs) < length xs" if "xs \<noteq> []" "hd xs \<noteq> z" for xs
    using that by (cases xs) (auto intro: le_imp_less_Suc length_dropWhile_le)
  from this [OF assms hd_dropWhile [OF assms]] show ?thesis using length_dropWhile_le [of _ p] by (rule less_le_trans)
qed

text \<open>The loop over the components of a path.\<close>

function path_walk :: "bmem \<Rightarrow> int \<Rightarrow> u8 list \<Rightarrow> int option" where
  "path_walk fdt offset p =
     (let p' = dropWhile (\<lambda>c. c = 0x2f) p in
      if p' = [] then Some offset
      else do {
        offset' \<leftarrow> fdt_subnode_offset_namelen fdt offset (takeWhile (\<lambda>c. c \<noteq> 0x2f) p');
        if offset' < 0 then Some offset' else path_walk fdt offset' (dropWhile (\<lambda>c. c \<noteq> 0x2f) p')
      })"
  by pat_completeness auto
termination
  by (relation "measure (\<lambda>(fdt, offset, p). length p)") (auto intro: path_rest_shorter)

declare path_walk.simps [simp del]

text \<open>A path that does not begin with \<open>/\<close> begins with an alias, whose value is a path again: the recursion
  goes through \<open>fdt_get_alias_namelen\<close> and \<open>fdt_path_offset\<close> and need not end.\<close>

partial_function (option) fdt_path_offset_namelen :: "bmem \<Rightarrow> u8 list \<Rightarrow> int option" where
  "fdt_path_offset_namelen fdt path = do {
     r \<leftarrow> fdt_ro_probe fdt;
     if r < 0 then Some r
     else if path \<noteq> [] \<and> hd path = 0x2f then path_walk fdt 0 path
     else do {
       aliasoffset \<leftarrow> fdt_path_offset_namelen fdt (lit ''/aliases'');
       p \<leftarrow> (if aliasoffset < 0 then Some None
             else map_option fst (fdt_getprop_namelen fdt aliasoffset (takeWhile (\<lambda>c. c \<noteq> 0x2f) path)));
       (case p of
          None \<Rightarrow> Some (- FDT_ERR_BADPATH)
        | Some a \<Rightarrow> do {
            s \<leftarrow> cstr fdt a;
            offset \<leftarrow> fdt_path_offset_namelen fdt s;
            path_walk fdt offset (dropWhile (\<lambda>c. c \<noteq> 0x2f) path)
          })
     }
   }"

definition fdt_path_offset :: "bmem \<Rightarrow> u8 list \<Rightarrow> int option" where
  "fdt_path_offset fdt path = fdt_path_offset_namelen fdt path"

definition fdt_get_alias_namelen :: "bmem \<Rightarrow> u8 list \<Rightarrow> nat option option" where
  "fdt_get_alias_namelen fdt name = do {
     aliasoffset \<leftarrow> fdt_path_offset fdt (lit ''/aliases'');
     if aliasoffset < 0 then Some None else map_option fst (fdt_getprop_namelen fdt aliasoffset name)
   }"

definition fdt_get_alias :: "bmem \<Rightarrow> u8 list \<Rightarrow> nat option option" where
  "fdt_get_alias fdt name = fdt_get_alias_namelen fdt name"

text \<open>\<open>fdt_get_path\<close> builds the path in a buffer. The model keeps the part of the buffer that is written;
  removing a component reads the character before it.\<close>

function pop_name :: "u8 list \<Rightarrow> u8 list option" where
  "pop_name buf =
     (if length buf \<le> 1 then None
      else if last (butlast buf) \<noteq> 0x2f then pop_name (butlast buf) else Some (butlast buf))"
  by pat_completeness auto
termination by (relation "measure length") auto

declare pop_name.simps [simp del]

fun pop_names :: "nat \<Rightarrow> u8 list \<Rightarrow> u8 list option" where
  "pop_names 0 buf = Some buf"
| "pop_names (Suc k) buf = do { b \<leftarrow> pop_name buf; pop_names k b }"

partial_function (option) get_path_loop ::
  "bmem \<Rightarrow> int \<Rightarrow> int \<Rightarrow> int \<Rightarrow> int \<Rightarrow> int \<Rightarrow> u8 list \<Rightarrow> (int \<times> u8 list) option" where
  "get_path_loop fdt nodeoffset buflen offset depth pdepth buf =
     (if offset \<ge> 0 \<and> offset \<le> nodeoffset then do {
        buf \<leftarrow> pop_names (nat (pdepth - depth)) buf;
        let pdepth = min pdepth depth;
        nm \<leftarrow> (if pdepth \<ge> depth then do {
                  (name, namelen) \<leftarrow> fdt_get_name fdt offset;
                  (case name of
                     None \<Rightarrow> Some (Inl namelen)
                   | Some a \<Rightarrow>
                       if int (length buf) + namelen + 1 \<le> buflen then do {
                         cs \<leftarrow> mem_bytes fdt a (nat namelen);
                         Some (Inr (pdepth + 1, buf @ cs @ [0x2f]))
                       }
                       else Some (Inr (pdepth, buf)))
                } else Some (Inr (pdepth, buf)));
        (case nm of
           Inl err \<Rightarrow> Some (err, buf)
         | Inr (pdepth, buf) \<Rightarrow>
             if offset = nodeoffset then
               Some (if pdepth < depth + 1 then (- FDT_ERR_NOSPACE, buf)
                     else (0, if length buf > 1 then butlast buf else buf))
             else do {
               (offset, depth) \<leftarrow> fdt_next_node fdt offset (Some depth);
               get_path_loop fdt nodeoffset buflen offset (the depth) pdepth buf
             })
      }
      else Some (if offset = - FDT_ERR_NOTFOUND \<or> offset \<ge> 0 then - FDT_ERR_BADOFFSET
                 else if offset = - FDT_ERR_BADOFFSET then - FDT_ERR_BADSTRUCTURE
                 else offset, buf))"

definition fdt_get_path :: "bmem \<Rightarrow> int \<Rightarrow> int \<Rightarrow> (int \<times> u8 list) option" where
  "fdt_get_path fdt nodeoffset buflen = do {
     r \<leftarrow> fdt_ro_probe fdt;
     if r < 0 then Some (r, [])
     else if buflen < 2 then Some (- FDT_ERR_NOSPACE, [])
     else get_path_loop fdt nodeoffset buflen 0 0 0 []
   }"

text \<open>\<open>fdt_supernode_atdepth_offset\<close> answers the offset and sets \<open>*nodedepth\<close> when it finds the node.\<close>

partial_function (option) supernode_loop :: "bmem \<Rightarrow> int \<Rightarrow> int \<Rightarrow> int \<Rightarrow> int \<Rightarrow> int \<Rightarrow> (int \<times> int option) option" where
  "supernode_loop fdt nodeoffset supernodedepth offset depth supernodeoffset =
     (if offset \<ge> 0 \<and> offset \<le> nodeoffset then
        (let supernodeoffset = (if depth = supernodedepth then offset else supernodeoffset) in
         if offset = nodeoffset then
           Some (if supernodedepth > depth then - FDT_ERR_NOTFOUND else supernodeoffset, Some depth)
         else do {
           (offset', depth') \<leftarrow> fdt_next_node fdt offset (Some depth);
           supernode_loop fdt nodeoffset supernodedepth offset' (the depth') supernodeoffset
         })
      else Some (if offset = - FDT_ERR_NOTFOUND \<or> offset \<ge> 0 then - FDT_ERR_BADOFFSET
                 else if offset = - FDT_ERR_BADOFFSET then - FDT_ERR_BADSTRUCTURE
                 else offset, None))"

definition fdt_supernode_atdepth_offset :: "bmem \<Rightarrow> int \<Rightarrow> int \<Rightarrow> (int \<times> int option) option" where
  "fdt_supernode_atdepth_offset fdt nodeoffset supernodedepth = do {
     r \<leftarrow> fdt_ro_probe fdt;
     if r < 0 then Some (r, None)
     else if supernodedepth < 0 then Some (- FDT_ERR_NOTFOUND, None)
     else supernode_loop fdt nodeoffset supernodedepth 0 0 (- FDT_ERR_INTERNAL)
   }"

definition fdt_node_depth :: "bmem \<Rightarrow> int \<Rightarrow> int option" where
  "fdt_node_depth fdt nodeoffset = do {
     (err, nodedepth) \<leftarrow> fdt_supernode_atdepth_offset fdt nodeoffset 0;
     if err \<noteq> 0 then Some (if err < 0 then err else - FDT_ERR_INTERNAL) else nodedepth
   }"

definition fdt_parent_offset :: "bmem \<Rightarrow> int \<Rightarrow> int option" where
  "fdt_parent_offset fdt nodeoffset = do {
     nodedepth \<leftarrow> fdt_node_depth fdt nodeoffset;
     if nodedepth < 0 then Some nodedepth
     else map_option fst (fdt_supernode_atdepth_offset fdt nodeoffset (nodedepth - 1))
   }"

section \<open>Searching\<close>

partial_function (option) by_prop_loop :: "bmem \<Rightarrow> int \<Rightarrow> u8 list \<Rightarrow> u8 list \<Rightarrow> int option" where
  "by_prop_loop fdt offset propname propval =
     (if offset \<ge> 0 then do {
        (val, len) \<leftarrow> fdt_getprop fdt offset propname;
        eq \<leftarrow> (if val \<noteq> None \<and> len = int (length propval) then memeq fdt (the val) propval else Some False);
        if eq then Some offset
        else do {
          (offset', _) \<leftarrow> fdt_next_node fdt offset None;
          by_prop_loop fdt offset' propname propval
        }
      }
      else Some offset)"

definition fdt_node_offset_by_prop_value :: "bmem \<Rightarrow> int \<Rightarrow> u8 list \<Rightarrow> u8 list \<Rightarrow> int option" where
  "fdt_node_offset_by_prop_value fdt startoffset propname propval = do {
     r \<leftarrow> fdt_ro_probe fdt;
     if r < 0 then Some r
     else do {
       (offset, _) \<leftarrow> fdt_next_node fdt startoffset None;
       by_prop_loop fdt offset propname propval
     }
   }"

partial_function (option) by_phandle_loop :: "bmem \<Rightarrow> int \<Rightarrow> u32 \<Rightarrow> int option" where
  "by_phandle_loop fdt offset phandle =
     (if offset \<ge> 0 then do {
        p \<leftarrow> fdt_get_phandle fdt offset;
        if p = phandle then Some offset
        else do {
          (offset', _) \<leftarrow> fdt_next_node fdt offset None;
          by_phandle_loop fdt offset' phandle
        }
      }
      else Some offset)"

definition fdt_node_offset_by_phandle :: "bmem \<Rightarrow> u32 \<Rightarrow> int option" where
  "fdt_node_offset_by_phandle fdt phandle =
     (if phandle = 0 \<or> phandle = NOT 0 then Some (- FDT_ERR_BADPHANDLE)
      else do {
        r \<leftarrow> fdt_ro_probe fdt;
        if r < 0 then Some r
        else do {
          (offset, _) \<leftarrow> fdt_next_node fdt (-1) None;
          by_phandle_loop fdt offset phandle
        }
      })"

section \<open>Lists of strings\<close>

text \<open>The comparison reads one byte more than the string has characters.\<close>

partial_function (option) fdt_stringlist_contains :: "bmem \<Rightarrow> nat \<Rightarrow> int \<Rightarrow> u8 list \<Rightarrow> bool option" where
  "fdt_stringlist_contains m strlist listlen str =
     (if listlen \<ge> int (length str) then do {
        eq \<leftarrow> memeq m strlist (str @ [0]);
        if eq then Some True
        else do {
          p \<leftarrow> memchr m strlist 0 (nat listlen);
          (case p of
             None \<Rightarrow> Some False
           | Some e \<Rightarrow> fdt_stringlist_contains m (e + 1) (listlen - int (e - strlist) - 1) str)
        }
      }
      else Some False)"

partial_function (option) stringlist_count_loop :: "bmem \<Rightarrow> nat \<Rightarrow> nat \<Rightarrow> int \<Rightarrow> int option" where
  "stringlist_count_loop m list end count =
     (if list < end then do {
        n \<leftarrow> strnlen m list (end - list);
        if list + n + 1 > end then Some (- FDT_ERR_BADVALUE)
        else stringlist_count_loop m (list + n + 1) end (count + 1)
      }
      else Some count)"

definition fdt_stringlist_count :: "bmem \<Rightarrow> int \<Rightarrow> u8 list \<Rightarrow> int option" where
  "fdt_stringlist_count fdt nodeoffset property = do {
     (list, length) \<leftarrow> fdt_getprop fdt nodeoffset property;
     (case list of None \<Rightarrow> Some length | Some a \<Rightarrow> stringlist_count_loop fdt a (a + nat length) 0)
   }"

partial_function (option) stringlist_search_loop :: "bmem \<Rightarrow> nat \<Rightarrow> nat \<Rightarrow> u8 list \<Rightarrow> int \<Rightarrow> int option" where
  "stringlist_search_loop m list end string idx =
     (if list < end then do {
        n \<leftarrow> strnlen m list (end - list);
        if list + n + 1 > end then Some (- FDT_ERR_BADVALUE)
        else do {
          eq \<leftarrow> (if n = length string then memeq m list (string @ [0]) else Some False);
          if eq then Some idx else stringlist_search_loop m (list + n + 1) end string (idx + 1)
        }
      }
      else Some (- FDT_ERR_NOTFOUND))"

definition fdt_stringlist_search :: "bmem \<Rightarrow> int \<Rightarrow> u8 list \<Rightarrow> u8 list \<Rightarrow> int option" where
  "fdt_stringlist_search fdt nodeoffset property string = do {
     (list, length) \<leftarrow> fdt_getprop fdt nodeoffset property;
     (case list of None \<Rightarrow> Some length | Some a \<Rightarrow> stringlist_search_loop fdt a (a + nat length) string 0)
   }"

partial_function (option) stringlist_get_loop :: "bmem \<Rightarrow> nat \<Rightarrow> nat \<Rightarrow> int \<Rightarrow> (nat option \<times> int) option" where
  "stringlist_get_loop m list end idx =
     (if list < end then do {
        n \<leftarrow> strnlen m list (end - list);
        if list + n + 1 > end then Some (None, - FDT_ERR_BADVALUE)
        else if idx = 0 then Some (Some list, int n)
        else stringlist_get_loop m (list + n + 1) end (idx - 1)
      }
      else Some (None, - FDT_ERR_NOTFOUND))"

definition fdt_stringlist_get :: "bmem \<Rightarrow> int \<Rightarrow> u8 list \<Rightarrow> int \<Rightarrow> (nat option \<times> int) option" where
  "fdt_stringlist_get fdt nodeoffset property idx = do {
     (list, length) \<leftarrow> fdt_getprop fdt nodeoffset property;
     (case list of None \<Rightarrow> Some (None, length) | Some a \<Rightarrow> stringlist_get_loop fdt a (a + nat length) idx)
   }"

definition fdt_node_check_compatible :: "bmem \<Rightarrow> int \<Rightarrow> u8 list \<Rightarrow> int option" where
  "fdt_node_check_compatible fdt nodeoffset compatible = do {
     (prop, len) \<leftarrow> fdt_getprop fdt nodeoffset (lit ''compatible'');
     (case prop of
        None \<Rightarrow> Some len
      | Some a \<Rightarrow> map_option (\<lambda>c. if c then 0 else 1) (fdt_stringlist_contains fdt a len compatible))
   }"

partial_function (option) by_compatible_loop :: "bmem \<Rightarrow> int \<Rightarrow> u8 list \<Rightarrow> int option" where
  "by_compatible_loop fdt offset compatible =
     (if offset \<ge> 0 then do {
        err \<leftarrow> fdt_node_check_compatible fdt offset compatible;
        if err < 0 \<and> err \<noteq> - FDT_ERR_NOTFOUND then Some err
        else if err = 0 then Some offset
        else do {
          (offset', _) \<leftarrow> fdt_next_node fdt offset None;
          by_compatible_loop fdt offset' compatible
        }
      }
      else Some offset)"

definition fdt_node_offset_by_compatible :: "bmem \<Rightarrow> int \<Rightarrow> u8 list \<Rightarrow> int option" where
  "fdt_node_offset_by_compatible fdt startoffset compatible = do {
     r \<leftarrow> fdt_ro_probe fdt;
     if r < 0 then Some r
     else do {
       (offset, _) \<leftarrow> fdt_next_node fdt startoffset None;
       by_compatible_loop fdt offset compatible
     }
   }"

text \<open>The loops are executable.\<close>

declare num_mem_rsv_loop.simps [code]
  nextprop.simps [code]
  get_property_loop.simps [code]
  max_phandle_loop.simps [code]
  subnode_loop.simps [code]
  fdt_path_offset_namelen.simps [code]
  get_path_loop.simps [code]
  supernode_loop.simps [code]
  by_prop_loop.simps [code]
  by_phandle_loop.simps [code]
  fdt_stringlist_contains.simps [code]
  stringlist_count_loop.simps [code]
  stringlist_search_loop.simps [code]
  stringlist_get_loop.simps [code]
  by_compatible_loop.simps [code]

end
