(* ===== verification/Fdt_Safe.thy ===== *)
theory Fdt_Safe
  imports Fdt_Ro
begin

text \<open>The reading functions of libfdt on arbitrary bytes: none of them leaves the memory of the tree, and
  all of them end, with one exception.\<close>

section \<open>No read leaves the tree\<close>

lemma memchr_in:
  "fst m \<le> a \<Longrightarrow> a + n \<le> fst m + length (snd m) \<Longrightarrow>
     \<exists>r. memchr m a c n = Some r \<and> (\<forall>e. r = Some e \<longrightarrow> a \<le> e \<and> e < a + n)"
proof (induction n arbitrary: a)
  case (Suc n)
  obtain x where x: "rd8 m a = Some x" using rd8_in [of m a] Suc.prems by auto
  obtain r where "memchr m (a + 1) c n = Some r" "\<And>e. r = Some e \<Longrightarrow> a + 1 \<le> e \<and> e < a + 1 + n"
    using Suc.IH [of "a + 1"] Suc.prems by auto
  then show ?case using x by fastforce
qed simp

lemma memeq_in: "fst m \<le> a \<Longrightarrow> a + length s \<le> fst m + length (snd m) \<Longrightarrow> \<exists>b. memeq m a s = Some b"
  by (simp add: memeq_def mem_bytes_in)

lemma cstr_at_iff: "cstr m a = Some xs \<Longrightarrow> at m a (xs @ [0])"
proof (induction m a arbitrary: xs rule: cstr.induct)
  case (1 m a)
  from 1(2) obtain c where c: "rd8 m a = Some c" "c = 0 \<Longrightarrow> xs = []" "c \<noteq> 0 \<Longrightarrow> \<exists>ys. cstr m (Suc a) = Some ys \<and> xs = c # ys"
    by (subst (asm) cstr.simps) (auto split: bind_splits if_splits)
  show ?case
  proof (cases "c = 0")
    case True
    then show ?thesis using c by (simp add: at_simps)
  next
    case False
    then obtain ys where "cstr m (Suc a) = Some ys" "xs = c # ys" using c(3) by blast
    then show ?thesis using 1(1) [OF c(1) False] c(1) by (simp add: at_simps)
  qed
qed

lemma cstr_in: "cstr m a = Some xs \<Longrightarrow> fst m \<le> a \<and> a + length xs + 1 \<le> fst m + length (snd m)"
  using at_bounds [OF cstr_at_iff] by fastforce

lemma ro_probe_total:
  assumes "fdt_mapped fdt"
  shows "\<exists>r. fdt_ro_probe fdt = Some r \<and> int32 r \<and>
    (0 \<le> r \<longrightarrow> (\<exists>t. fdt_totalsize fdt = Some t \<and> r = uint t \<and> unat t \<le> length (snd fdt)))"
  by (rule mapped_header [OF assms])
    (auto simp: fdt_ro_probe_def Let_def fdt_errs int32_def word_less_def intro: order_trans [OF _ uint_ge_0])

lemma get_string_total:
  assumes m: "fdt_mapped fdt"
  shows "\<exists>p len. fdt_get_string fdt so = Some (p, len) \<and>
    (\<forall>a. p = Some a \<longrightarrow> fst fdt \<le> a \<and> 0 \<le> len \<and> a + nat len < fst fdt + length (snd fdt))"
proof -
  obtain r where r: "fdt_ro_probe fdt = Some r"
    "0 \<le> r \<Longrightarrow> \<exists>t. fdt_totalsize fdt = Some t \<and> r = uint t \<and> unat t \<le> length (snd fdt)"
    using ro_probe_total [OF m] by auto
  obtain mg t os ss rs v lc sz zs where h: "fdt_magic fdt = Some mg" "fdt_totalsize fdt = Some t" "fdt_off_dt_struct fdt = Some os"
    "fdt_off_dt_strings fdt = Some ss" "fdt_off_mem_rsvmap fdt = Some rs" "fdt_version fdt = Some v"
    "fdt_last_comp_version fdt = Some lc" "fdt_size_dt_strings fdt = Some sz" "fdt_size_dt_struct fdt = Some zs"
    by (rule mapped_header [OF m])
  show ?thesis
  proof (cases "r < 0")
    case True
    then show ?thesis using r by (simp add: fdt_get_string_def)
  next
    case False
    then have t: "r = uint t" "unat t \<le> length (snd fdt)" using r(2) h(2) by auto
    let ?abs = "of_int so + ss"
    show ?thesis
    proof (cases "?abs \<ge> t")
      case True
      then show ?thesis using r(1) False h t by (simp add: fdt_get_string_def Let_def)
    next
      case lt: False
      have mc: "\<exists>e. memchr fdt (fst fdt + unat ?abs) 0 n = Some e \<and>
          (\<forall>x. e = Some x \<longrightarrow> fst fdt + unat ?abs \<le> x \<and> x < fst fdt + length (snd fdt))" if "n \<le> unat (t - ?abs)" for n
      proof -
        have "unat (t - ?abs) = unat t - unat ?abs" using lt by (intro unat_sub) simp
        moreover have "unat ?abs \<le> unat t" using lt by (simp add: word_le_nat_alt [symmetric])
        ultimately have "unat ?abs + n \<le> length (snd fdt)" using that t(2) by simp
        then show ?thesis using memchr_in [of fdt "fst fdt + unat ?abs" n 0] by force
      qed
      define e where "e =
           (if mg = FDT_MAGIC then
              (if so < 0 then Inl (- FDT_ERR_BADOFFSET)
               else if v \<ge> 17 then
                 (if of_int so \<ge> sz then Inl (- FDT_ERR_BADOFFSET) else Inr (min (unat (t - ?abs)) (unat (sz - of_int so))))
               else Inr (unat (t - ?abs)))
            else if mg = FDT_SW_MAGIC then
              (if so \<ge> 0 \<or> of_int (- so) > sz then Inl (- FDT_ERR_BADOFFSET)
               else Inr (min (unat (t - ?abs)) (unat (of_int (- so) :: u32))))
            else Inl (- FDT_ERR_INTERNAL))"
      have g: "fdt_get_string fdt so = (case e of Inl err \<Rightarrow> Some (None, err)
            | Inr len \<Rightarrow> memchr fdt (fst fdt + unat ?abs) 0 len \<bind> (\<lambda>n. case n of None \<Rightarrow> Some (None, - FDT_ERR_TRUNCATED)
                | Some x \<Rightarrow> Some (Some (fst fdt + unat ?abs), int (x - (fst fdt + unat ?abs)))))"
        unfolding fdt_get_string_def Let_def e_def using r(1) False h t(1) lt by (simp only: bind.bind_lunit of_int_uint if_False) simp
      show ?thesis
      proof (cases e)
        case (Inl err)
        then show ?thesis using g by simp
      next
        case (Inr n)
        then have "n \<le> unat (t - ?abs)" by (auto simp: e_def split: if_splits)
        define A where "A = fst fdt + unat ?abs"
        have "fst fdt \<le> A" by (simp add: A_def)
        with mc [OF \<open>n \<le> unat (t - ?abs)\<close>] g Inr show ?thesis unfolding A_def [symmetric] by (auto split: option.splits)
      qed
    qed
  qed
qed

lemma string_eq_total: "fdt_mapped fdt \<Longrightarrow> \<exists>b. fdt_string_eq fdt so name = Some b"
proof -
  assume m: "fdt_mapped fdt"
  obtain p len where g: "fdt_get_string fdt so = Some (p, len)"
    "\<And>a. p = Some a \<Longrightarrow> fst fdt \<le> a \<and> 0 \<le> len \<and> a + nat len < fst fdt + length (snd fdt)"
    using get_string_total [OF m] by blast
  show ?thesis
  proof (cases p)
    case None
    then show ?thesis using g(1) by (force simp: fdt_string_eq_def)
  next
    case (Some a)
    then show ?thesis using g(1) g(2) [OF Some] memeq_in [of fdt a name] by (auto simp: fdt_string_eq_def)
  qed
qed

lemma get_name_total:
  assumes m: "fdt_mapped fdt" and o: "int32 off"
  shows "\<exists>p len. fdt_get_name fdt off = Some (p, len) \<and>
    (\<forall>a. p = Some a \<longrightarrow> 0 \<le> off \<and> fst fdt \<le> a \<and> 0 \<le> len \<and> a + nat len + 1 \<le> fst fdt + length (snd fdt))"
proof -
  obtain r where r: "fdt_ro_probe fdt = Some r" using ro_probe_total [OF m] by blast
  obtain n where n: "fdt_check_node_offset fdt off = Some n"
    "0 \<le> n \<Longrightarrow> 0 \<le> off \<and> (\<exists>a xs. fdt_offset_ptr0 fdt off = Some a \<and> cstr fdt (a + 4) = Some xs)"
    using check_node_total [OF m o] by blast
  obtain v where v: "fdt_version fdt = Some v" by (rule mapped_header [OF m])
  show ?thesis
  proof (cases "r < 0 \<or> n < 0")
    case True
    then show ?thesis using r n(1) by (auto simp: fdt_get_name_def)
  next
    case False
    then obtain a xs where a: "fdt_offset_ptr0 fdt off = Some a" "cstr fdt (a + 4) = Some xs" "0 \<le> off" using n(2) by auto
    have b: "fst fdt \<le> a + 4" "a + 4 + length xs + 1 \<le> fst fdt + length (snd fdt)" using cstr_in [OF a(2)] by auto
    have "k \<le> length xs" if "leaf_name xs = Some k" for k using that by (auto simp: leaf_name_def split: if_splits)
    then show ?thesis using r n(1) a b v False by (auto simp: fdt_get_name_def split: option.splits)
  qed
qed

lemma nodename_eq_total:
  assumes m: "fdt_mapped fdt" and o: "int32 off"
  shows "\<exists>b. fdt_nodename_eq fdt off s = Some b"
proof -
  obtain p len where g: "fdt_get_name fdt off = Some (p, len)"
    "\<And>a. p = Some a \<Longrightarrow> fst fdt \<le> a \<and> 0 \<le> len \<and> a + nat len + 1 \<le> fst fdt + length (snd fdt)"
    using get_name_total [OF m o] by blast
  show ?thesis
  proof (cases "\<exists>a. p = Some a \<and> int (length s) \<le> len")
    case True
    then obtain a where a: "p = Some a" "int (length s) \<le> len" by blast
    then have l: "length s \<le> nat len" by simp
    obtain b where "memeq fdt a s = Some b" using memeq_in [of fdt a s] g(2) [OF a(1)] l by auto
    moreover obtain c where "rd8 fdt (a + length s) = Some c" using rd8_in [of fdt "a + length s"] g(2) [OF a(1)] l by auto
    ultimately show ?thesis using g(1) a by (force simp: fdt_nodename_eq_def)
  next
    case False
    then show ?thesis using g(1) by (cases p) (auto simp: fdt_nodename_eq_def)
  qed
qed

lemma nextprop_total:
  assumes m: "fdt_mapped fdt"
  shows "int32 off \<Longrightarrow> \<exists>o'. nextprop fdt off = Some o' \<and> int32 o' \<and> (0 \<le> o' \<longrightarrow> 0 \<le> off \<and> off \<le> o')"
proof (induction "mu32 off" arbitrary: off rule: less_induct)
  case less
  from next_tag_total [OF m less.prems] obtain tag nx where t: "fdt_next_tag fdt off = Some (tag, nx)" "tag_ok fdt off tag nx" by blast
  have n: "int32 nx" "tag \<noteq> FDT_END \<Longrightarrow> 0 \<le> off \<and> (nx < 0 \<or> off < nx)" using t(2) by (auto simp: tag_ok_def)
  have e: "int32 (- FDT_ERR_BADSTRUCTURE)" "int32 (- FDT_ERR_NOTFOUND)" by (simp_all add: int32_def fdt_errs)
  show ?case
  proof (cases "tag = FDT_NOP")
    case True
    then have k: "0 \<le> off" "nx < 0 \<or> off < nx" using n(2) by (auto simp: fdt_tags)
    obtain o' where "nextprop fdt nx = Some o'" "int32 o'" "0 \<le> o' \<Longrightarrow> 0 \<le> nx \<and> nx \<le> o'"
      using less.hyps [OF mu32_less [OF k(1) less.prems k(2)] n(1)] by blast
    then show ?thesis using t(1) True k by (subst nextprop.simps) (auto simp: fdt_tags)
  next
    case False
    then show ?thesis using t(1) e n less.prems by (subst nextprop.simps) (auto simp: fdt_errs fdt_tags)
  qed
qed

lemma first_property_total:
  assumes m: "fdt_mapped fdt" and o: "int32 off"
  shows "\<exists>o'. fdt_first_property_offset fdt off = Some o' \<and> int32 o'"
  using check_node_total [OF m o] nextprop_total [OF m] by (fastforce simp: fdt_first_property_offset_def)

lemma next_property_total:
  assumes m: "fdt_mapped fdt" and o: "int32 off"
  shows "\<exists>o'. fdt_next_property_offset fdt off = Some o' \<and> int32 o' \<and> (0 \<le> o' \<longrightarrow> off < o')"
proof -
  obtain n where n: "fdt_check_prop_offset fdt off = Some n" "int32 n" "0 \<le> n \<Longrightarrow> 0 \<le> off \<and> off < n"
    using check_prop_total [OF m o] by blast
  then show ?thesis using nextprop_total [OF m n(2)] by (cases "n < 0") (fastforce simp: fdt_next_property_offset_def)+
qed

text \<open>The property at offset \<open>off\<close> is at address \<open>a\<close>, and its value, realigned in the versions before 16, is in the
  memory of the tree.\<close>

definition prop_in :: "bmem \<Rightarrow> int \<Rightarrow> nat \<Rightarrow> int \<Rightarrow> bool" where
  "prop_in fdt off a len \<longleftrightarrow> fst fdt \<le> a \<and> 0 \<le> len \<and>
     (\<exists>l v. fdt32_ld fdt (a + 4) = Some l \<and> fdt_version fdt = Some v \<and>
       a + 12 + realign v (off + 12) l + nat len \<le> fst fdt + length (snd fdt))"

lemma sint_small: "uint (w :: u32) < 2 ^ 31 \<Longrightarrow> sint w = uint w"
  using i32_id [of "uint w"] uint_ge_0 [of w] by (simp add: i32_def int32_def)

lemma property_by_offset_total:
  assumes m: "fdt_mapped fdt" and o: "int32 off"
  shows "\<exists>p len. fdt_get_property_by_offset0 fdt off = Some (p, len) \<and>
    (\<forall>a. p = Some a \<longrightarrow> prop_in fdt off a len)"
proof -
  obtain n where n: "fdt_check_prop_offset fdt off = Some n"
    "0 \<le> n \<Longrightarrow> \<exists>a len. fdt_offset_ptr0 fdt off = Some a \<and> fst fdt \<le> a \<and> fdt32_ld fdt (a + 4) = Some len \<and> uint len < 2 ^ 31 \<and>
      (\<exists>v. fdt_version fdt = Some v \<and> a + 12 + realign v (off + 12) len + unat len \<le> fst fdt + length (snd fdt))"
    using check_prop_total [OF m o] by blast
  show ?thesis
  proof (cases "n < 0")
    case True
    then show ?thesis using n(1) by (simp add: fdt_get_property_by_offset0_def)
  next
    case False
    then obtain a l v where "fdt_offset_ptr0 fdt off = Some a" "fst fdt \<le> a" "fdt32_ld fdt (a + 4) = Some l" "uint l < 2 ^ 31"
      "fdt_version fdt = Some v" "a + 12 + realign v (off + 12) l + unat l \<le> fst fdt + length (snd fdt)" using n(2) by auto
    then show ?thesis using n(1) False sint_small [of l] by (simp add: fdt_get_property_by_offset0_def prop_in_def)
  qed
qed

lemma get_property_loop_total:
  assumes m: "fdt_mapped fdt"
  shows "int32 off \<Longrightarrow> \<exists>p len po. get_property_loop fdt off name = Some (p, len, po) \<and>
    (\<forall>a. p = Some a \<longrightarrow> prop_in fdt po a len)"
proof (induction "mu32 off" arbitrary: off rule: less_induct)
  case less
  obtain p len where p: "fdt_get_property_by_offset0 fdt off = Some (p, len)"
    "\<And>a. p = Some a \<Longrightarrow> prop_in fdt off a len"
    using property_by_offset_total [OF m less.prems] by blast
  show ?case
  proof (cases "off < 0 \<or> p = None")
    case True
    then show ?thesis using p(1) by (subst get_property_loop.simps) auto
  next
    case False
    then obtain a where a: "p = Some a" "0 \<le> off" by auto
    obtain nameoff where no: "fdt32_ld fdt (a + 8) = Some nameoff"
      using fdt32_ld_in [of fdt "a + 8"] p(2) [OF a(1)] by (auto simp: prop_in_def)
    obtain b where b: "fdt_string_eq fdt (sint nameoff) name = Some b" using string_eq_total [OF m] by blast
    obtain o' where o: "fdt_next_property_offset fdt off = Some o'" "int32 o'" "0 \<le> o' \<Longrightarrow> off < o'"
      using next_property_total [OF m less.prems] by blast
    have "mu32 o' < mu32 off" using mu32_less [OF a(2) less.prems, of o'] o(3) by linarith
    from less.hyps [OF this o(2)] show ?thesis
      using p a no b o(1) by (subst get_property_loop.simps) (cases b; simp)
  qed
qed

lemma getprop_total:
  assumes m: "fdt_mapped fdt" and o: "int32 off"
  shows "\<exists>p len. fdt_getprop fdt off name = Some (p, len) \<and>
    (\<forall>a. p = Some a \<longrightarrow> fst fdt \<le> a \<and> 0 \<le> len \<and> a + nat len \<le> fst fdt + length (snd fdt))"
proof -
  obtain o' where o': "fdt_first_property_offset fdt off = Some o'" "int32 o'" using first_property_total [OF m o] by blast
  obtain p len po where p: "get_property_loop fdt o' name = Some (p, len, po)"
    "\<And>a. p = Some a \<Longrightarrow> prop_in fdt po a len"
    using get_property_loop_total [OF m o'(2)] by blast
  show ?thesis
  proof (cases p)
    case None
    then show ?thesis using o'(1) p(1) by (simp add: fdt_getprop_def fdt_getprop_namelen_def fdt_get_property_namelen0_def)
  next
    case (Some a)
    then show ?thesis using o'(1) p(1) p(2) [OF Some]
      by (auto simp: fdt_getprop_def fdt_getprop_namelen_def fdt_get_property_namelen0_def prop_data_def prop_in_def realign_def)
  qed
qed

lemma get_phandle_total:
  assumes "fdt_mapped fdt" "int32 off"
  shows "\<exists>w. fdt_get_phandle fdt off = Some w"
proof -
  obtain p len where p: "fdt_getprop fdt off (lit ''phandle'') = Some (p, len)"
    "\<And>a. p = Some a \<Longrightarrow> fst fdt \<le> a \<and> 0 \<le> len \<and> a + nat len \<le> fst fdt + length (snd fdt)"
    using getprop_total [OF assms] by blast
  obtain q len' where q: "fdt_getprop fdt off (lit ''linux,phandle'') = Some (q, len')"
    "\<And>a. q = Some a \<Longrightarrow> fst fdt \<le> a \<and> 0 \<le> len' \<and> a + nat len' \<le> fst fdt + length (snd fdt)"
    using getprop_total [OF assms] by blast
  have "\<exists>w. fdt32_ld fdt a = Some w" if "p = Some a \<and> len = 4 \<or> q = Some a \<and> len' = 4" for a
    using that p(2) q(2) by (intro fdt32_ld_in) auto
  then show ?thesis using p(1) q(1) by (auto simp: fdt_get_phandle_def)
qed

lemma by_phandle_total:
  assumes m: "fdt_mapped fdt"
  shows "int32 off \<Longrightarrow> \<exists>o'. by_phandle_loop fdt off ph = Some o' \<and> int32 o'"
proof (induction "mu32 off" arbitrary: off rule: less_induct)
  case less
  show ?case
  proof (cases "off < 0")
    case True
    then show ?thesis using less.prems by (subst by_phandle_loop.simps) simp
  next
    case False
    obtain w where w: "fdt_get_phandle fdt off = Some w" using get_phandle_total [OF m less.prems] by blast
    obtain o' d where n: "fdt_next_node fdt off None = Some (o', d)" "int32 o'" "0 \<le> o' \<Longrightarrow> off < o'"
      using next_node_total [OF m less.prems, of None] False by auto
    have "mu32 o' < mu32 off" using mu32_less [of off o'] False n(3) less.prems by linarith
    from less.hyps [OF this n(2)] show ?thesis using w n(1) False less.prems by (subst by_phandle_loop.simps) auto
  qed
qed

lemma node_by_phandle_total:
  assumes m: "fdt_mapped fdt"
  shows "\<exists>o'. fdt_node_offset_by_phandle fdt ph = Some o' \<and> int32 o'"
proof -
  obtain r where r: "fdt_ro_probe fdt = Some r" "int32 r" using ro_probe_total [OF m] by blast
  have "int32 (-1)" "int32 (- FDT_ERR_BADPHANDLE)" by (simp_all add: int32_def fdt_errs)
  then obtain o' d where "fdt_next_node fdt (-1) None = Some (o', d)" "int32 o'"
    using next_node_total [OF m, of "-1" None] by blast
  then show ?thesis using by_phandle_total [OF m, of o' ph] r \<open>int32 (- FDT_ERR_BADPHANDLE)\<close>
    by (auto simp: fdt_node_offset_by_phandle_def)
qed

lemma subnode_loop_total:
  assumes m: "fdt_mapped fdt"
  shows "int32 off \<Longrightarrow> \<exists>o'. subnode_loop fdt off depth name = Some o' \<and> int32 o'"
proof (induction "mu32 off" arbitrary: off depth rule: less_induct)
  case less
  show ?case
  proof (cases "0 \<le> off \<and> 0 \<le> depth")
    case False
    have "int32 (- FDT_ERR_NOTFOUND)" by (simp add: int32_def fdt_errs)
    then show ?thesis using False less.prems by (subst subnode_loop.simps) auto
  next
    case True
    obtain b where b: "fdt_nodename_eq fdt off name = Some b" using nodename_eq_total [OF m less.prems] by blast
    obtain o' d where n: "fdt_next_node fdt off (Some depth) = Some (o', d)" "int32 o'" "0 \<le> o' \<Longrightarrow> off < o'"
      using next_node_total [OF m less.prems, of "Some depth"] True by auto
    have "mu32 o' < mu32 off" using mu32_less [of off o'] True n(3) less.prems by linarith
    from less.hyps [OF this n(2)] show ?thesis using b n(1) True less.prems by (subst subnode_loop.simps) auto
  qed
qed

lemma subnode_offset_total:
  assumes m: "fdt_mapped fdt" and o: "int32 off"
  shows "\<exists>o'. fdt_subnode_offset_namelen fdt off name = Some o' \<and> int32 o'"
  using ro_probe_total [OF m] subnode_loop_total [OF m o, of 0 name] by (auto simp: fdt_subnode_offset_namelen_def)

lemma path_walk_total:
  assumes m: "fdt_mapped fdt"
  shows "int32 off \<Longrightarrow> \<exists>o'. path_walk fdt off p = Some o' \<and> int32 o'"
proof (induction "length p" arbitrary: off p rule: less_induct)
  case less
  let ?p = "dropWhile (\<lambda>c. c = 0x2f) p"
  obtain o' where o': "fdt_subnode_offset_namelen fdt off (takeWhile (\<lambda>c. c \<noteq> 0x2f) ?p) = Some o'" "int32 o'"
    using subnode_offset_total [OF m less.prems] by blast
  show ?case
  proof (cases "?p = []")
    case True
    then show ?thesis using less.prems by (subst path_walk.simps) simp
  next
    case False
    from less.hyps [OF path_rest_shorter [OF False] o'(2)] show ?thesis
      using False o' by (subst path_walk.simps) (auto simp: Let_def)
  qed
qed

lemma supernode_loop_total:
  assumes m: "fdt_mapped fdt"
  shows "int32 off \<Longrightarrow> int32 sn \<Longrightarrow> \<exists>o' d'. supernode_loop fdt node sd off depth sn = Some (o', d') \<and> int32 o' \<and> (o' = 0 \<longrightarrow> d' \<noteq> None)"
proof (induction "mu32 off" arbitrary: off depth sn rule: less_induct)
  case less
  have e: "int32 (- FDT_ERR_BADOFFSET)" "int32 (- FDT_ERR_BADSTRUCTURE)" "int32 (- FDT_ERR_NOTFOUND)" by (simp_all add: int32_def fdt_errs)
  show ?case
  proof (cases "0 \<le> off \<and> off \<le> node")
    case False
    then show ?thesis using e less.prems by (subst supernode_loop.simps) (auto simp: fdt_errs)
  next
    case True
    let ?sn = "if depth = sd then off else sn"
    obtain o' d where n: "fdt_next_node fdt off (Some depth) = Some (o', d)" "int32 o'" "0 \<le> o' \<Longrightarrow> off < o'"
      using next_node_total [OF m less.prems(1), of "Some depth"] True by auto
    have "mu32 o' < mu32 off" using mu32_less [of off o'] True n(3) less.prems by linarith
    from less.hyps [OF this n(2), of ?sn "the d"] less.prems
    show ?thesis using n(1) True e less.prems by (subst supernode_loop.simps) (auto simp: Let_def)
  qed
qed

lemma supernode_total:
  assumes m: "fdt_mapped fdt"
  shows "\<exists>o' d'. fdt_supernode_atdepth_offset fdt node sd = Some (o', d') \<and> int32 o' \<and> (o' = 0 \<longrightarrow> d' \<noteq> None)"
proof -
  have "int32 0" "int32 (- FDT_ERR_INTERNAL)" "int32 (- FDT_ERR_NOTFOUND)" by (simp_all add: int32_def fdt_errs)
  then show ?thesis using ro_probe_total [OF m] supernode_loop_total [OF m, of 0 "- FDT_ERR_INTERNAL" node sd 0]
    by (auto simp: fdt_supernode_atdepth_offset_def fdt_errs)
qed

lemma parent_offset_total:
  assumes m: "fdt_mapped fdt"
  shows "\<exists>o'. fdt_parent_offset fdt node = Some o' \<and> (o' < 0 \<or> int32 o')"
proof -
  obtain e d where e: "fdt_supernode_atdepth_offset fdt node 0 = Some (e, d)" "e = 0 \<Longrightarrow> d \<noteq> None"
    using supernode_total [OF m, of node 0] by auto
  then obtain dep where "fdt_node_depth fdt node = Some dep"
    by (cases "e = 0") (auto simp: fdt_node_depth_def)
  then show ?thesis using supernode_total [OF m, of node "dep - 1"]
    by (cases "dep < 0") (auto simp: fdt_parent_offset_def)
qed

section \<open>Properties of the reader\<close>

text \<open>C10: Whatever bytes a device tree has, of whatever version, if the memory holds the size its header announces
  and that size is below 2 GiB, then walking it, getting a name or a property of any offset and finding a
  subnode, a parent, a node by its phandle or by an absolute path all end and never read outside of it, and
  the value of a property that is found lies in it, also where the versions before 16 move it by four bytes.\<close>

theorem fdt_reads_safe:
  assumes "fdt_mapped fdt" "int32 off"
  shows "fdt_next_node fdt off depth \<noteq> None \<and> fdt_get_name fdt off \<noteq> None \<and>
    fdt_subnode_offset fdt off name \<noteq> None \<and> fdt_parent_offset fdt off \<noteq> None \<and>
    fdt_node_offset_by_phandle fdt ph \<noteq> None \<and> fdt_path_offset fdt (0x2f # path) \<noteq> None \<and>
    (\<exists>p len. fdt_getprop fdt off name = Some (p, len) \<and>
      (\<forall>a. p = Some a \<longrightarrow> fst fdt \<le> a \<and> 0 \<le> len \<and> a + nat len \<le> fst fdt + length (snd fdt)))"
proof -
  note m = assms(1)
  have "int32 0" by (simp add: int32_def)
  then have "fdt_path_offset fdt (0x2f # path) \<noteq> None"
    using ro_probe_total [OF m] path_walk_total [OF m, of 0 "0x2f # path"]
    by (auto simp: fdt_path_offset_def fdt_path_offset_namelen.simps)
  then show ?thesis
    using next_node_total [OF m assms(2), of depth] get_name_total [OF m assms(2)] subnode_offset_total [OF m assms(2), of name]
      parent_offset_total [OF m, of off] node_by_phandle_total [OF m, of ph] getprop_total [OF assms, of name]
    by (auto simp: fdt_subnode_offset_def)
qed

text \<open>A tree of version 3 whose root has the property \<open>a\<close> of eight bytes, moved from offset 20 of the structure
  block to offset 24.\<close>

definition old_fdt :: bmem where
  "old_fdt = (8, [0xd0, 0x0d, 0xfe, 0xed, 0, 0, 0, 82, 0, 0, 0, 40, 0, 0, 0, 80, 0, 0, 0, 80, 0, 0, 0, 3, 0, 0, 0, 2,
     0, 0, 0, 0, 0, 0, 0, 2, 0, 0, 0, 0,
     0, 0, 0, 1, 0x2f, 0, 0, 0, 0, 0, 0, 3, 0, 0, 0, 8, 0, 0, 0, 0, 0, 0, 0, 0, 1, 2, 3, 4, 5, 6, 7, 8, 0, 0, 0, 2, 0, 0, 0, 9,
     0x61, 0])"

lemma old_fdt_mapped: "fdt_mapped old_fdt"
  by (simp add: fdt_mapped_def old_fdt_def fdt_header_defs fdt_get_header_def fdt32_ld_def rd8_def be32_def)

lemma old_getprop: "fdt_getprop old_fdt 0 [0x61] = Some (Some 72, 8)"
proof -
  have t: "fdt_next_tag old_fdt 0 = Some (FDT_BEGIN_NODE, 8)" "fdt_next_tag old_fdt 8 = Some (FDT_PROP, 32)" by code_simp+
  have "fdt_get_property_by_offset0 old_fdt 8 = Some (Some 56, 8)" "fdt32_ld old_fdt 64 = Some 0"
    "fdt_string_eq old_fdt 0 [0x61] = Some True" "prop_data old_fdt 8 56 = Some 72"
    by code_simp+
  then show ?thesis
    by (simp add: fdt_getprop_def fdt_getprop_namelen_def fdt_get_property_namelen0_def fdt_first_property_offset_def
        fdt_check_node_offset_def t nextprop.simps get_property_loop.simps fdt_tags)
qed

theorem fdt_reads_safe_witness:
  "fdt_getprop old_fdt 0 [0x61] = Some (Some 72, 8) \<and> 72 + 8 \<le> fst old_fdt + length (snd old_fdt) \<and>
   fdt_get_name old_fdt 0 \<noteq> None \<and> fdt_node_offset_by_phandle old_fdt 5 \<noteq> None \<and> fdt_path_offset old_fdt [0x2f, 0x62] \<noteq> None"
  using fdt_reads_safe [OF old_fdt_mapped, of 0 None "[0x61]" 5 "[0x62]"] old_getprop by (simp add: int32_def)

text \<open>C37: An alias whose value is its own name sends \<open>fdt_path_offset\<close> into a recursion that never ends.\<close>

theorem alias_loop_diverges:
  assumes "fdt_ro_probe fdt = Some r" "0 \<le> r" "path_walk fdt 0 (lit ''/aliases'') = Some off" "0 \<le> off"
    "fdt_getprop_namelen fdt off name = Some (Some a, len)" "cstr fdt a = Some name" "0x2f \<notin> set name"
  shows "fdt_path_offset fdt name = None"
proof -
  have tw: "takeWhile (\<lambda>c. c \<noteq> 0x2f) name = name" using assms(7) by (auto simp: takeWhile_eq_all_conv)
  have nh: "\<not> (name \<noteq> [] \<and> hd name = 0x2f)" using assms(7) by (cases name) auto
  have "fdt' = fdt \<longrightarrow> (path = lit ''/aliases'' \<longrightarrow> y = off) \<and> path \<noteq> name"
    if "fdt_path_offset_namelen fdt' path = Some y" for fdt' path y
  proof (induction rule: fdt_path_offset_namelen.raw_induct [OF _ that])
    case (1 F fdt' path y)
    show ?case
    proof (intro impI conjI)
      assume "fdt' = fdt" "path = lit ''/aliases''"
      then show "y = off" using 1(2) assms(1-3) by (simp add: lit_def)
    next
      assume f: "fdt' = fdt"
      show "path \<noteq> name"
      proof
        assume "path = name"
        then obtain o' where "F fdt (lit ''/aliases'') = Some o'" using 1(2) f assms(1,2) nh by (auto split: bind_splits)
        moreover from this have "o' = off" using 1(1) by blast
        ultimately have "F fdt name \<noteq> None"
          using 1(2) f \<open>path = name\<close> assms(1,2,4-6) nh tw by (auto split: bind_splits)
        then show False using 1(1) by blast
      qed
    qed
  qed
  then show ?thesis unfolding fdt_path_offset_def by (metis option.exhaust)
qed

definition loop_fdt :: bmem where
  "loop_fdt = (8, [0xd0, 0x0d, 0xfe, 0xed, 0, 0, 0, 106, 0, 0, 0, 56, 0, 0, 0, 104, 0, 0, 0, 40, 0, 0, 0, 17, 0, 0, 0, 16,
     0, 0, 0, 0, 0, 0, 0, 2, 0, 0, 0, 48, 0, 0, 0, 0, 0, 0, 0, 0, 0, 0, 0, 0, 0, 0, 0, 0,
     0, 0, 0, 1, 0, 0, 0, 0, 0, 0, 0, 1, 0x61, 0x6c, 0x69, 0x61, 0x73, 0x65, 0x73, 0,
     0, 0, 0, 3, 0, 0, 0, 2, 0, 0, 0, 0, 0x61, 0, 0, 0, 0, 0, 0, 2, 0, 0, 0, 2, 0, 0, 0, 9, 0x61, 0])"

lemma loop_tags:
  "fdt_next_tag loop_fdt 0 = Some (FDT_BEGIN_NODE, 8)" "fdt_next_tag loop_fdt 8 = Some (FDT_BEGIN_NODE, 20)"
  "fdt_next_tag loop_fdt 20 = Some (FDT_PROP, 36)"
  by code_simp+

lemma loop_fdt:
  "fdt_ro_probe loop_fdt = Some 106" "path_walk loop_fdt 0 (lit ''/aliases'') = Some 8"
  "fdt_getprop_namelen loop_fdt 8 [0x61] = Some (Some 96, 2)" "cstr loop_fdt 96 = Some [0x61]"
proof -
  show p: "fdt_ro_probe loop_fdt = Some 106" "cstr loop_fdt 96 = Some [0x61]" by code_simp+
  have nn: "fdt_next_node loop_fdt 0 (Some 0) = Some (8, Some 1)"
    by (simp add: fdt_next_node_def fdt_check_node_offset_def loop_tags next_node_loop.simps)
  have eq: "fdt_nodename_eq loop_fdt 8 (tl (lit ''/aliases'')) = Some True"
    by (simp add: fdt_nodename_eq_def fdt_get_name_def p) code_simp
  show "path_walk loop_fdt 0 (lit ''/aliases'') = Some 8"
    using nn eq p(1)
    by (subst path_walk.simps) (simp add: lit_def fdt_subnode_offset_namelen_def subnode_loop.simps path_walk.simps [of _ _ "[]"])
  have "fdt_get_property_by_offset0 loop_fdt 20 = Some (Some 84, 2)" "fdt32_ld loop_fdt 92 = Some 0"
    "fdt_string_eq loop_fdt 0 [0x61] = Some True" "prop_data loop_fdt 20 84 = Some 96"
    by code_simp+
  then show "fdt_getprop_namelen loop_fdt 8 [0x61] = Some (Some 96, 2)"
    by (simp add: fdt_getprop_namelen_def fdt_get_property_namelen0_def fdt_first_property_offset_def fdt_check_node_offset_def
        loop_tags nextprop.simps get_property_loop.simps fdt_tags)
qed

theorem alias_loop_diverges_witness: "fdt_path_offset loop_fdt [0x61] = None"
  by (rule alias_loop_diverges [OF loop_fdt(1) _ loop_fdt(2) _ loop_fdt(3,4)]) auto

end
