(* ===== verification/Fdt_Tree.thy ===== *)
theory Fdt_Tree
  imports Fdt_Safe
begin

text \<open>The reading functions of libfdt on a well-formed tree: the bytes a tree flattens to, and that the
  functions find in them the properties and subnodes the tree has.\<close>

section \<open>Flattened trees\<close>

datatype dtree = DNode (dt_name: "u8 list") (dt_props: "(u8 list \<times> u8 list) list") (dt_kids: "dtree list")

definition be4 :: "u32 \<Rightarrow> u8 list" where
  "be4 w = [ucast (drop_bit 24 w), ucast (drop_bit 16 w), ucast (drop_bit 8 w), ucast w]"

definition al4 :: "nat \<Rightarrow> nat" where
  "al4 n = (n + 3) div 4 * 4"

definition padded :: "u8 list \<Rightarrow> u8 list" where
  "padded xs = xs @ replicate (al4 (length xs) - length xs) 0"

definition name_bytes :: "u8 list \<Rightarrow> u8 list" where
  "name_bytes n = be4 FDT_BEGIN_NODE @ padded (n @ [0])"

text \<open>\<open>no\<close> is the offset of the name of a property in the strings block.\<close>

definition prop_bytes :: "(u8 list \<Rightarrow> nat) \<Rightarrow> u8 list \<times> u8 list \<Rightarrow> u8 list" where
  "prop_bytes no p = be4 FDT_PROP @ be4 (of_nat (length (snd p))) @ be4 (of_nat (no (fst p))) @ padded (snd p)"

fun node_bytes :: "(u8 list \<Rightarrow> nat) \<Rightarrow> dtree \<Rightarrow> u8 list" where
  "node_bytes no (DNode n ps ks) =
     name_bytes n @ concat (map (prop_bytes no) ps) @ concat (map (node_bytes no) ks) @ be4 FDT_END_NODE"

definition struct_bytes :: "(u8 list \<Rightarrow> nat) \<Rightarrow> dtree \<Rightarrow> u8 list" where
  "struct_bytes no t = node_bytes no t @ be4 FDT_END"

text \<open>The structure block of \<open>fdt\<close>, of version 17, lies at address \<open>S\<close> and has \<open>Z\<close> bytes.\<close>

definition struct_block :: "bmem \<Rightarrow> nat \<Rightarrow> nat \<Rightarrow> bool" where
  "struct_block fdt S Z \<longleftrightarrow> fdt_mapped fdt \<and> fdt_magic fdt = Some FDT_MAGIC \<and> (\<exists>r. fdt_ro_probe fdt = Some r \<and> 0 \<le> r) \<and>
     (case (fdt_version fdt, fdt_totalsize fdt, fdt_off_dt_struct fdt, fdt_size_dt_struct fdt) of
        (Some v, Some t, Some os, Some sz) \<Rightarrow> 0x11 \<le> v \<and> unat t < 2 ^ 31 \<and> S = fst fdt + unat os \<and> Z = unat sz \<and> unat os + Z \<le> unat t
      | _ \<Rightarrow> False)"

lemma be4_length [simp]: "length (be4 w) = 4"
  by (simp add: be4_def)

lemma be32_be4: "be32 (ucast (drop_bit 24 w)) (ucast (drop_bit 16 w)) (ucast (drop_bit 8 w)) (ucast w) = w"
proof (rule bit_word_eqI)
  fix n :: nat assume "n < LENGTH(32)"
  then consider "n < 8" | "8 \<le> n" "n < 16" | "16 \<le> n" "n < 24" | "24 \<le> n" "n < 32" by fastforce
  then show "bit (be32 (ucast (drop_bit 24 w)) (ucast (drop_bit 16 w)) (ucast (drop_bit 8 w)) (ucast w)) n = bit w n"
    by cases (auto simp: be32_def bit_simps)
qed

lemma ld_be4: "at m a (be4 w @ xs) \<Longrightarrow> fdt32_ld m a = Some w"
  by (simp add: be4_def at_simps fdt32_ld_def be32_be4 numeral_2_eq_2 numeral_3_eq_3)

lemma al4: "n \<le> al4 n" "al4 n \<le> n + 3" "al4 n mod 4 = 0"
  by (auto simp: al4_def)

lemma al4_add: "k mod 4 = 0 \<Longrightarrow> al4 (k + n) = k + al4 n"
  unfolding al4_def by presburger

lemma padded_length [simp]: "length (padded xs) = al4 (length xs)"
  using al4(1) [of "length xs"] by (simp add: padded_def)

lemma at_padded: "at m a (padded xs @ ys) \<Longrightarrow> at m a xs \<and> at m (a + al4 (length xs)) ys"
  using al4(1) [of "length xs"] by (simp add: padded_def at_append)

section \<open>Reading one tag\<close>

lemma offset_ptr_block:
  assumes b: "struct_block fdt S Z" and l: "k + unat len \<le> Z"
  shows "fdt_offset_ptr fdt (int k) len = Some (Some (S + k))" "fdt_offset_ptr0 fdt (int k) = Some (S + k)"
proof -
  from b obtain v t os sz where h: "fdt_version fdt = Some v" "fdt_totalsize fdt = Some t" "fdt_off_dt_struct fdt = Some os"
    "fdt_size_dt_struct fdt = Some sz" "0x11 \<le> v" "unat t < 2 ^ 31" "S = fst fdt + unat os" "Z = unat sz" "unat os + Z \<le> unat t"
    by (auto simp: struct_block_def split: option.splits)
  have k: "unat (of_nat k :: u32) = k" using l h by (simp add: unsigned_of_nat take_bit_nat_eq_self)
  have a: "unat (of_nat k + os) = k + unat os" using k l h by (simp add: unat_word_ariths)
  have al: "unat (of_nat k + os + len) = k + unat os + unat len" using a l h by (subst unat_word_ariths) simp
  have kl: "unat (of_nat k + len) = k + unat len" using k l h by (simp add: unat_word_ariths)
  show p: "fdt_offset_ptr0 fdt (int k) = Some (S + k)" using h by (simp add: fdt_offset_ptr0_def)
  show "fdt_offset_ptr fdt (int k) len = Some (Some (S + k))"
    using h p l k a al kl by (simp add: fdt_offset_ptr_def Let_def word_less_nat_alt)
qed

lemma block_small: "struct_block fdt S Z \<Longrightarrow> Z < 2 ^ 31"
  by (auto simp: struct_block_def split: option.splits)

lemma block_int32: "struct_block fdt S Z \<Longrightarrow> j \<le> Z \<Longrightarrow> i32 (int j) = int j"
  using block_small [of fdt S Z] by (intro i32_id) (simp add: int32_def)

lemma skip_name_at:
  "struct_block fdt S Z \<Longrightarrow> at fdt (S + k) (n @ [0]) \<Longrightarrow> 0 \<notin> set n \<Longrightarrow> k + length n + 1 \<le> Z \<Longrightarrow>
     skip_name fdt (int k) = Some (Some (int (k + length n + 1)))"
proof (induction n arbitrary: k)
  case Nil
  then have "fdt_offset_ptr fdt (int k) 1 = Some (Some (S + k))" by (intro offset_ptr_block) auto
  moreover have "i32 (int k + 1) = int k + 1" using block_int32 [OF Nil(1), of "k + 1"] Nil(4) by (simp add: ac_simps)
  ultimately show ?case using Nil(2) by (subst skip_name.simps) (simp add: at_simps)
next
  case (Cons c n)
  then have "fdt_offset_ptr fdt (int k) 1 = Some (Some (S + k))" by (intro offset_ptr_block) auto
  moreover have i: "i32 (int k + 1) = int (k + 1)" using block_int32 [OF Cons(2), of "k + 1"] Cons(5) by (simp add: ac_simps)
  moreover have "skip_name fdt (int (k + 1)) = Some (Some (int (k + 1 + length n + 1)))"
    using Cons.prems by (intro Cons.IH) (auto simp: at_simps)
  ultimately show ?case using Cons.prems(2,3) by (subst skip_name.simps) (simp add: at_simps)
qed

lemma next_tag_block:
  assumes b: "struct_block fdt S Z" and t: "fdt32_ld fdt (S + k) = Some tag" "k + 4 \<le> Z"
    and body: "tag_body fdt tag (int (k + 4)) = Some (Some (int (k + m)))" and m: "k + al4 m \<le> Z" "k mod 4 = 0"
  shows "fdt_next_tag fdt (int k) = Some (tag, int (k + al4 m))"
proof -
  have mz: "k + m \<le> Z" using al4(1) [of m] m(1) by simp
  have "unat (of_nat m :: u32) = m" using mz block_small [OF b] by (simp add: unsigned_of_nat take_bit_nat_eq_self)
  then have p: "fdt_offset_ptr fdt (int k) (of_nat m) = Some (Some (S + k))" using mz by (intro offset_ptr_block [OF b]) simp
  have p4: "fdt_offset_ptr fdt (int k) 4 = Some (Some (S + k))" using t(2) by (intro offset_ptr_block [OF b]) simp
  have "(int (k + m) + 3) div 4 * 4 = int (al4 (k + m))" by (simp add: al4_def zdiv_int)
  also have "al4 (k + m) = k + al4 m" by (rule al4_add [OF m(2)])
  finally have "i32 ((int (k + m) + 3) div 4 * 4) = int (k + al4 m)" using block_int32 [OF b m(1)] by simp
  moreover have "i32 (int k + 4) = int (k + 4)" using block_int32 [OF b t(2)] by simp
  ultimately show ?thesis using p4 t(1) body p by (simp add: fdt_next_tag_def)
qed

lemma tag_begin:
  assumes b: "struct_block fdt S Z" and a: "at fdt (S + k) (name_bytes n)" and n: "0 \<notin> set n"
    and k: "k mod 4 = 0" "k + length (name_bytes n) \<le> Z"
  shows "fdt_next_tag fdt (int k) = Some (FDT_BEGIN_NODE, int (k + length (name_bytes n)))"
    "fdt_offset_ptr0 fdt (int k) = Some (S + k)" "cstr fdt (S + k + 4) = Some n"
proof -
  have l: "length (name_bytes n) = 4 + al4 (length n + 1)" by (simp add: name_bytes_def)
  have nm: "at fdt (S + (k + 4)) (n @ [0])"
    using at_padded [of fdt "S + k + 4" "n @ [0]" "[]"] a by (simp add: name_bytes_def at_append add.assoc)
  then show "cstr fdt (S + k + 4) = Some n" using n by (intro cstr_at) (simp_all add: add.assoc)
  have "k + 4 + length n + 1 \<le> Z" using al4(1) [of "length n + 1"] k(2) l by simp
  then have "skip_name fdt (int (k + 4)) = Some (Some (int (k + 4 + length n + 1)))"
    by (intro skip_name_at [OF b nm n]) simp
  then have "tag_body fdt FDT_BEGIN_NODE (int (k + 4)) = Some (Some (int (k + (4 + length n + 1))))" by (simp add: tag_body_def)
  moreover have "al4 (4 + length n + 1) = 4 + al4 (length n + 1)" using al4_add [of 4 "length n + 1"] by simp
  moreover have "fdt32_ld fdt (S + k) = Some FDT_BEGIN_NODE" using a unfolding name_bytes_def by (rule ld_be4)
  ultimately show "fdt_next_tag fdt (int k) = Some (FDT_BEGIN_NODE, int (k + length (name_bytes n)))"
    using next_tag_block [OF b, of k FDT_BEGIN_NODE "4 + length n + 1"] k l by simp
  show "fdt_offset_ptr0 fdt (int k) = Some (S + k)" using k(2) by (intro offset_ptr_block(2) [OF b, of k 0]) simp
qed

lemma tag_prop:
  assumes b: "struct_block fdt S Z" and a: "at fdt (S + k) (prop_bytes no (n, v))"
    and k: "k mod 4 = 0" "k + length (prop_bytes no (n, v)) \<le> Z"
  shows "fdt_next_tag fdt (int k) = Some (FDT_PROP, int (k + length (prop_bytes no (n, v))))"
    "fdt_offset_ptr0 fdt (int k) = Some (S + k)" "fdt32_ld fdt (S + k + 4) = Some (of_nat (length v))"
    "fdt32_ld fdt (S + k + 8) = Some (of_nat (no n))" "at fdt (S + k + 12) v"
proof -
  have l: "length (prop_bytes no (n, v)) = 12 + al4 (length v)" by (simp add: prop_bytes_def)
  have a1: "at fdt (S + k) (be4 FDT_PROP)" "at fdt (S + k + 4) (be4 (of_nat (length v)))" "at fdt (S + k + 8) (be4 (of_nat (no n)))"
    "at fdt (S + k + 12) (padded v)"
    using a by (simp_all add: prop_bytes_def at_append add.assoc)
  show "at fdt (S + k + 12) v" using at_padded [of fdt "S + k + 12" v "[]"] a1(4) by simp
  show len: "fdt32_ld fdt (S + k + 4) = Some (of_nat (length v))" using ld_be4 [of _ _ _ "[]"] a1(2) by simp
  show "fdt32_ld fdt (S + k + 8) = Some (of_nat (no n))" using ld_be4 [of _ _ _ "[]"] a1(3) by simp
  show "fdt_offset_ptr0 fdt (int k) = Some (S + k)" using k(2) by (intro offset_ptr_block(2) [OF b, of k 0]) simp
  have z: "k + 12 + length v \<le> Z" "Z < 2 ^ 31" using al4(1) [of "length v"] k(2) l block_small [OF b] by auto
  have u: "unat (of_nat (length v) :: u32) = length v" using z by (simp add: unsigned_of_nat take_bit_nat_eq_self)
  have u4: "unat (of_nat (length v) + of_nat (k + 4) :: u32) = length v + (k + 4)"
    using z by (simp add: unsigned_of_nat take_bit_nat_eq_self flip: of_nat_add)
  have uk: "unat (of_nat (k + 4) :: u32) = k + 4" using z by (simp add: unsigned_of_nat take_bit_nat_eq_self del: of_nat_add)
  have op: "fdt_offset_ptr fdt (int (k + 4)) 4 = Some (Some (S + (k + 4)))" using z by (intro offset_ptr_block [OF b]) simp
  obtain ver where ver: "fdt_version fdt = Some ver" "0x11 \<le> ver" using b by (auto simp: struct_block_def split: option.splits)
  have "tag_body fdt FDT_PROP (int (k + 4)) = Some (Some (i32 (int (k + 4) + 8 + int (length v))))"
  proof -
    define L where "L = (of_nat (length v) :: u32)"
    have "uint L = int (unat L)" by simp
    then have ul: "uint L = int (length v)" using u by (simp only: L_def)
    have s: "\<not> 0x7fffffff \<le> L + of_nat (k + 4)" "\<not> L + of_nat (k + 4) < of_nat (k + 4)"
      using u4 uk z by (simp_all add: word_le_nat_alt word_less_nat_alt L_def del: of_nat_add)
    have "\<not> ver < 0x10" using ver(2) by (simp add: word_less_nat_alt word_le_nat_alt)
    then show ?thesis using op len [folded L_def] s ver(1) ul
      by (simp add: tag_body_def fdt_tags Let_def add.assoc del: of_nat_add)
  qed
  then have "tag_body fdt FDT_PROP (int (k + 4)) = Some (Some (int (k + (12 + length v))))"
    using block_int32 [OF b z(1)] by (simp add: ac_simps)
  moreover have "al4 (12 + length v) = 12 + al4 (length v)" using al4_add [of 12 "length v"] by simp
  moreover have "fdt32_ld fdt (S + k) = Some FDT_PROP" using ld_be4 [of _ _ _ "[]"] a1(1) by simp
  ultimately show "fdt_next_tag fdt (int k) = Some (FDT_PROP, int (k + length (prop_bytes no (n, v))))"
    using next_tag_block [OF b, of k FDT_PROP "12 + length v"] k l by simp
qed

lemma tag_plain:
  assumes b: "struct_block fdt S Z" and a: "at fdt (S + k) (be4 tag)" and k: "k mod 4 = 0" "k + 4 \<le> Z"
    and t: "tag = FDT_END_NODE \<or> tag = FDT_END"
  shows "fdt_next_tag fdt (int k) = Some (tag, int (k + 4))"
  using next_tag_block [OF b, of k tag 4] ld_be4 [of fdt "S + k" tag "[]"] a k t
  by (auto simp: tag_body_def fdt_tags al4_def)

section \<open>Properties of a node\<close>

text \<open>The strings block has each of the names \<open>N\<close> at the offset \<open>no\<close> says.\<close>

definition strings_block :: "bmem \<Rightarrow> (u8 list \<Rightarrow> nat) \<Rightarrow> u8 list set \<Rightarrow> bool" where
  "strings_block fdt no N \<longleftrightarrow>
     (case (fdt_off_dt_strings fdt, fdt_size_dt_strings fdt, fdt_totalsize fdt) of
        (Some ss, Some sz, Some t) \<Rightarrow> unat ss + unat sz \<le> unat t \<and>
          (\<forall>n\<in>N. 0 \<notin> set n \<and> at fdt (fst fdt + unat ss + no n) (n @ [0]) \<and> no n + length n + 1 \<le> unat sz)
      | _ \<Rightarrow> False)"

lemma memchr_at: "at m a (n @ [0]) \<Longrightarrow> 0 \<notin> set n \<Longrightarrow> length n < len \<Longrightarrow> memchr m a 0 len = Some (Some (a + length n))"
proof (induction n arbitrary: a len)
  case Nil
  then show ?case by (cases len) (auto simp: at_simps)
next
  case (Cons c n)
  then obtain l where "len = Suc l" by (cases len) auto
  then show ?case using Cons.prems Cons.IH [of "Suc a" l] by (auto simp: at_simps)
qed

lemma memeq_at: "at m a xs \<Longrightarrow> length xs = length s \<Longrightarrow> memeq m a s = Some (xs = s)"
  using mem_bytes_at [of m a xs] by (simp add: memeq_def)

lemma get_string_at:
  assumes b: "struct_block fdt S Z" and st: "strings_block fdt no N" "n \<in> N"
  shows "\<exists>a. fdt_get_string fdt (int (no n)) = Some (Some a, int (length n)) \<and> at fdt a n"
    "sint (of_nat (no n) :: u32) = int (no n)"
proof -
  from b obtain v t r where h: "fdt_version fdt = Some v" "fdt_totalsize fdt = Some t" "0x11 \<le> v" "unat t < 2 ^ 31"
    "fdt_magic fdt = Some FDT_MAGIC" "fdt_ro_probe fdt = Some r" "0 \<le> r" "fdt_mapped fdt"
    by (auto simp: struct_block_def split: option.splits)
  then have r: "of_int r = t" using ro_probe_total [OF h(8)] by auto
  from st h(2) obtain ss sz where q: "fdt_off_dt_strings fdt = Some ss" "fdt_size_dt_strings fdt = Some sz" "unat ss + unat sz \<le> unat t"
    "0 \<notin> set n" "at fdt (fst fdt + unat ss + no n) (n @ [0])" "no n + length n + 1 \<le> unat sz"
    by (auto simp: strings_block_def split: option.splits)
  have k: "unat (of_nat (no n) :: u32) = no n" using q h by (simp add: unsigned_of_nat take_bit_nat_eq_self)
  have a: "unat (of_nat (no n) + ss) = no n + unat ss" using k q h by (simp add: unat_word_ariths)
  have lt: "\<not> t \<le> of_nat (no n) + ss" using a q by (simp add: word_le_nat_alt)
  have l1: "unat (t - (of_nat (no n) + ss)) = unat t - (no n + unat ss)" using a lt by (subst unat_sub) (auto simp: word_le_nat_alt)
  have nz: "\<not> sz \<le> of_nat (no n)" using k q by (simp add: word_le_nat_alt)
  then have l2: "unat (sz - of_nat (no n)) = unat sz - no n" using k by (subst unat_sub) (auto simp: word_le_nat_alt)
  have "memchr fdt (fst fdt + unat (of_nat (no n) + ss)) 0 (min (unat (t - (of_nat (no n) + ss))) (unat (sz - of_nat (no n)))) =
      Some (Some (fst fdt + unat (of_nat (no n) + ss) + length n))"
    using q(3-6) a l1 l2 by (intro memchr_at) (simp_all add: add.commute add.left_commute)
  then have "fdt_get_string fdt (int (no n)) = Some (Some (fst fdt + unat (of_nat (no n) + ss)), int (length n))"
    using h r lt q(1,2) nz by (simp add: fdt_get_string_def Let_def)
  moreover have "at fdt (fst fdt + unat (of_nat (no n) + ss)) n" using q(5) a by (simp add: at_append ac_simps)
  ultimately show "\<exists>a. fdt_get_string fdt (int (no n)) = Some (Some a, int (length n)) \<and> at fdt a n" by blast
  have "int (no n) < 2 ^ 31" using q(3,6) h(4) by simp
  then show "sint (of_nat (no n) :: u32) = int (no n)" using i32_id [of "int (no n)"] by (simp add: i32_def int32_def)
qed

lemma string_eq_at:
  assumes b: "struct_block fdt S Z" and st: "strings_block fdt no N" "n \<in> N"
  shows "fdt_string_eq fdt (sint (of_nat (no n) :: u32)) name = Some (n = name)"
proof -
  from get_string_at [OF assms] obtain a where "fdt_get_string fdt (sint (of_nat (no n) :: u32)) = Some (Some a, int (length n))" "at fdt a n"
    by auto
  then show ?thesis using memeq_at [of fdt a n name] by (auto simp: fdt_string_eq_def)
qed

lemma prop_bytes_length: "length (prop_bytes no p) mod 4 = 0" "12 \<le> length (prop_bytes no p)"
  using al4(3) [of "length (snd p)"] by (simp_all add: prop_bytes_def) presburger

lemma name_bytes_length: "length (name_bytes n) mod 4 = 0" "8 \<le> length (name_bytes n)"
  using al4(3,1) [of "length n + 1"] by (simp_all add: name_bytes_def; presburger)+

definition props_end :: "bmem \<Rightarrow> nat \<Rightarrow> bool" where
  "props_end fdt k \<longleftrightarrow> (\<exists>tag nx. fdt_next_tag fdt (int k) = Some (tag, nx) \<and> (tag = FDT_BEGIN_NODE \<or> tag = FDT_END_NODE))"

lemma props_search:
  assumes b: "struct_block fdt S Z" and st: "strings_block fdt no N"
  shows "at fdt (S + k) (concat (map (prop_bytes no) ps)) \<Longrightarrow> k mod 4 = 0 \<Longrightarrow> k + length (concat (map (prop_bytes no) ps)) \<le> Z \<Longrightarrow>
    fst ` set ps \<subseteq> N \<Longrightarrow> props_end fdt (k + length (concat (map (prop_bytes no) ps))) \<Longrightarrow>
    (case map_of ps name of
       None \<Rightarrow> nextprop fdt (int k) \<bind> (\<lambda>off. get_property_loop fdt off name) = Some (None, - FDT_ERR_NOTFOUND, - FDT_ERR_NOTFOUND)
     | Some v \<Rightarrow> \<exists>j. nextprop fdt (int k) \<bind> (\<lambda>off. get_property_loop fdt off name) = Some (Some (S + j), int (length v), int j) \<and>
         fdt32_ld fdt (S + j + 4) = Some (of_nat (length v)) \<and> at fdt (S + j + 12) v)"
proof (induction ps arbitrary: k)
  case Nil
  then obtain tag nx where "fdt_next_tag fdt (int k) = Some (tag, nx)" "tag = FDT_BEGIN_NODE \<or> tag = FDT_END_NODE"
    by (auto simp: props_end_def)
  then have "nextprop fdt (int k) = Some (- FDT_ERR_NOTFOUND)" by (subst nextprop.simps) (auto simp: fdt_tags)
  then show ?case by (simp add: get_property_loop.simps fdt_errs)
next
  case (Cons p ps)
  obtain n v where p: "p = (n, v)" by fastforce
  let ?l = "length (prop_bytes no (n, v))"
  have a: "at fdt (S + k) (prop_bytes no (n, v))" "at fdt (S + (k + ?l)) (concat (map (prop_bytes no) ps))"
    using Cons.prems(1) p by (auto simp: at_append add.assoc)
  have z: "k + ?l \<le> Z" "k + ?l + length (concat (map (prop_bytes no) ps)) \<le> Z" using Cons.prems(3) p by auto
  note t = tag_prop [OF b a(1) Cons.prems(2) z(1)]
  have k0: "int k mod 4 = 0" "(k + ?l) mod 4 = 0" using Cons.prems(2) prop_bytes_length(1) [of no "(n, v)"] by presburger+
  have cp: "fdt_check_prop_offset fdt (int k) = Some (int (k + ?l))" using t(1) k0(1) by (simp add: fdt_check_prop_offset_def)
  have "length v \<le> Z" using z(1) al4(1) [of "length v"] by (simp add: prop_bytes_def)
  then have si: "sint (of_nat (length v) :: u32) = int (length v)"
    using block_int32 [OF b, of "length v"] by (simp add: i32_def)
  have bo: "fdt_get_property_by_offset0 fdt (int k) = Some (Some (S + k), int (length v))"
    using cp t(2,3) si by (simp add: fdt_get_property_by_offset0_def)
  have np: "nextprop fdt (int k) = Some (int k)" using t(1) by (subst nextprop.simps) (simp add: fdt_tags)
  have eq: "fdt_string_eq fdt (sint (of_nat (no n) :: u32)) name = Some (n = name)"
    using Cons.prems(4) p by (intro string_eq_at [OF b st]) auto
  show ?case
  proof (cases "n = name")
    case True
    then have "get_property_loop fdt (int k) name = Some (Some (S + k), int (length v), int k)"
      using bo t(4) eq by (subst get_property_loop.simps) simp
    then show ?thesis using True p np t(3,5) by auto
  next
    case False
    have "fdt_next_property_offset fdt (int k) = nextprop fdt (int (k + ?l))" using cp by (simp add: fdt_next_property_offset_def)
    then have e: "nextprop fdt (int k) \<bind> (\<lambda>off. get_property_loop fdt off name) =
        nextprop fdt (int (k + ?l)) \<bind> (\<lambda>off. get_property_loop fdt off name)"
      using bo t(4) eq False np by (simp, subst get_property_loop.simps) simp
    have mo: "map_of (p # ps) name = map_of ps name" using False p by simp
    show ?thesis unfolding e mo
      using Cons.prems(4,5) p by (intro Cons.IH [OF a(2) k0(2) z(2)]) (simp_all add: add.assoc)
  qed
qed

section \<open>Nodes\<close>

fun dt_ok :: "u8 list set \<Rightarrow> dtree \<Rightarrow> bool" where
  "dt_ok N (DNode n ps ks) \<longleftrightarrow> 0 \<notin> set n \<and> fst ` set ps \<subseteq> N \<and> (\<forall>k\<in>set ks. dt_ok N k)"

definition node_at :: "bmem \<Rightarrow> (u8 list \<Rightarrow> nat) \<Rightarrow> nat \<Rightarrow> nat \<Rightarrow> nat \<Rightarrow> dtree \<Rightarrow> bool" where
  "node_at fdt no S Z k t \<longleftrightarrow> k mod 4 = 0 \<and> at fdt (S + k) (node_bytes no t) \<and> k + length (node_bytes no t) \<le> Z"

text \<open>Offsets of the properties, the subnodes and the end tag of a node.\<close>

definition props_off :: "nat \<Rightarrow> dtree \<Rightarrow> nat" where
  "props_off k t = k + length (name_bytes (dt_name t))"

definition kids_off :: "(u8 list \<Rightarrow> nat) \<Rightarrow> nat \<Rightarrow> dtree \<Rightarrow> nat" where
  "kids_off no k t = props_off k t + length (concat (map (prop_bytes no) (dt_props t)))"

fun kids_from :: "(u8 list \<Rightarrow> nat) \<Rightarrow> nat \<Rightarrow> dtree list \<Rightarrow> (nat \<times> dtree) list" where
  "kids_from no k [] = []"
| "kids_from no k (t # ts) = (k, t) # kids_from no (k + length (node_bytes no t)) ts"

lemma concat_mod: "(\<And>x. x \<in> set xs \<Longrightarrow> length (f x) mod 4 = 0) \<Longrightarrow> length (concat (map f xs)) mod 4 = 0"
proof (induction xs)
  case (Cons x xs)
  then have "length (f x) mod 4 = 0" "length (concat (map f xs)) mod 4 = 0" by auto
  then show ?case by (simp only: concat.simps list.map length_append) presburger
qed simp

lemma node_bytes_mod: "length (node_bytes no t) mod 4 = 0"
proof (induction t)
  case (DNode n ps ks)
  have "length (concat (map (prop_bytes no) ps)) mod 4 = 0" by (rule concat_mod) (rule prop_bytes_length)
  moreover have "length (concat (map (node_bytes no) ks)) mod 4 = 0" by (rule concat_mod) (rule DNode)
  ultimately show ?case using name_bytes_length(1) [of n] by (simp only: node_bytes.simps length_append be4_length) presburger
qed

lemma node_at_parts:
  assumes "node_at fdt no S Z k (DNode n ps ks)"
  defines "kp \<equiv> k + length (name_bytes n)"
  defines "kk \<equiv> kp + length (concat (map (prop_bytes no) ps))"
  defines "ke \<equiv> kk + length (concat (map (node_bytes no) ks))"
  shows "at fdt (S + k) (name_bytes n)" "at fdt (S + kp) (concat (map (prop_bytes no) ps))"
    "at fdt (S + kk) (concat (map (node_bytes no) ks))" "at fdt (S + ke) (be4 FDT_END_NODE)"
    "k mod 4 = 0" "kp mod 4 = 0" "kk mod 4 = 0" "ke mod 4 = 0" "kp \<le> Z" "kk \<le> Z" "ke + 4 \<le> Z"
    "k + length (node_bytes no (DNode n ps ks)) = ke + 4"
proof -
  have "length (concat (map (prop_bytes no) ps)) mod 4 = 0" by (rule concat_mod) (rule prop_bytes_length)
  moreover have "length (concat (map (node_bytes no) ks)) mod 4 = 0" by (rule concat_mod) (rule node_bytes_mod)
  moreover show k: "k mod 4 = 0" using assms(1) by (simp add: node_at_def)
  ultimately show "kp mod 4 = 0" "kk mod 4 = 0" "ke mod 4 = 0"
    using name_bytes_length(1) [of n] unfolding kp_def kk_def ke_def by presburger+
  show "k + length (node_bytes no (DNode n ps ks)) = ke + 4" by (simp add: kp_def kk_def ke_def)
  then show "kp \<le> Z" "kk \<le> Z" "ke + 4 \<le> Z" using assms(1) by (auto simp: node_at_def kp_def kk_def ke_def)
  show "at fdt (S + k) (name_bytes n)" "at fdt (S + kp) (concat (map (prop_bytes no) ps))"
    "at fdt (S + kk) (concat (map (node_bytes no) ks))" "at fdt (S + ke) (be4 FDT_END_NODE)"
    using assms(1) by (simp_all add: node_at_def kp_def kk_def ke_def at_append add.assoc)
qed

lemma node_begin:
  assumes b: "struct_block fdt S Z" and t: "node_at fdt no S Z k t" "dt_ok N t"
  shows "fdt_check_node_offset fdt (int k) = Some (int (props_off k t))" "cstr fdt (S + k + 4) = Some (dt_name t)"
    "fdt_next_tag fdt (int k) = Some (FDT_BEGIN_NODE, int (props_off k t))" "fdt_offset_ptr0 fdt (int k) = Some (S + k)"
proof -
  obtain n ps ks where e: "t = DNode n ps ks" by (cases t)
  note p = node_at_parts [OF t(1) [unfolded e]]
  have n: "0 \<notin> set n" using t(2) e by simp
  note tb = tag_begin [OF b p(1) n p(5,9)]
  show "cstr fdt (S + k + 4) = Some (dt_name t)" "fdt_next_tag fdt (int k) = Some (FDT_BEGIN_NODE, int (props_off k t))"
    "fdt_offset_ptr0 fdt (int k) = Some (S + k)"
    using tb e by (simp_all add: props_off_def)
  moreover have "int k mod 4 = 0" using p(5) by presburger
  ultimately show "fdt_check_node_offset fdt (int k) = Some (int (props_off k t))"
    by (simp add: fdt_check_node_offset_def)
qed

lemma kids_begin:
  assumes b: "struct_block fdt S Z" and t: "node_at fdt no S Z k (DNode n ps ks)" "dt_ok N (DNode n ps ks)"
  shows "props_end fdt (k + length (name_bytes n) + length (concat (map (prop_bytes no) ps)))"
proof (cases ks)
  case Nil
  note p = node_at_parts [OF t(1)]
  show ?thesis using tag_plain [OF b p(4,8,11)] Nil by (auto simp: props_end_def)
next
  case (Cons c cs)
  note p = node_at_parts [OF t(1)]
  have "node_at fdt no S Z (k + length (name_bytes n) + length (concat (map (prop_bytes no) ps))) c"
    using p(3,7,11) Cons by (simp add: node_at_def at_append)
  then show ?thesis using node_begin(3) [OF b _, of no _ c N] t(2) Cons by (fastforce simp: props_end_def)
qed

lemma property0_at:
  assumes b: "struct_block fdt S Z" and st: "strings_block fdt no N" and t: "node_at fdt no S Z k t" "dt_ok N t"
  shows "case map_of (dt_props t) name of
      None \<Rightarrow> fdt_get_property_namelen0 fdt (int k) name = Some (None, - FDT_ERR_NOTFOUND, - FDT_ERR_NOTFOUND)
    | Some v \<Rightarrow> \<exists>j. fdt_get_property_namelen0 fdt (int k) name = Some (Some (S + j), int (length v), int j) \<and>
        fdt32_ld fdt (S + j + 4) = Some (of_nat (length v)) \<and> at fdt (S + j + 12) v"
proof -
  obtain n ps ks where e: "t = DNode n ps ks" by (cases t)
  note p = node_at_parts [OF t(1) [unfolded e]]
  have "fst ` set ps \<subseteq> N" using t(2) e by simp
  from props_search [OF b st p(2,6,10) this kids_begin [OF b t(1) [unfolded e] t(2) [unfolded e]], of name]
  have s: "case map_of ps name of
       None \<Rightarrow> nextprop fdt (int (props_off k t)) \<bind> (\<lambda>off. get_property_loop fdt off name) = Some (None, - FDT_ERR_NOTFOUND, - FDT_ERR_NOTFOUND)
     | Some v \<Rightarrow> \<exists>j. nextprop fdt (int (props_off k t)) \<bind> (\<lambda>off. get_property_loop fdt off name) = Some (Some (S + j), int (length v), int j) \<and>
         fdt32_ld fdt (S + j + 4) = Some (of_nat (length v)) \<and> at fdt (S + j + 12) v"
    unfolding e by (simp only: props_off_def dtree.sel)
  have g: "fdt_get_property_namelen0 fdt (int k) name = nextprop fdt (int (props_off k t)) \<bind> (\<lambda>off. get_property_loop fdt off name)"
    using node_begin(1) [OF b t] by (simp add: fdt_get_property_namelen0_def fdt_first_property_offset_def)
  from s show ?thesis unfolding g [symmetric] using e by simp
qed

lemma getprop_at:
  assumes b: "struct_block fdt S Z" and st: "strings_block fdt no N" and t: "node_at fdt no S Z k t" "dt_ok N t"
  shows "case map_of (dt_props t) name of
      None \<Rightarrow> fdt_getprop fdt (int k) name = Some (None, - FDT_ERR_NOTFOUND)
    | Some v \<Rightarrow> \<exists>a. fdt_getprop fdt (int k) name = Some (Some a, int (length v)) \<and> at fdt a v"
proof -
  obtain ver where "fdt_version fdt = Some ver" "0x11 \<le> ver" using b by (auto simp: struct_block_def split: option.splits)
  then have pd: "prop_data fdt po a = Some (a + 12)" if "fdt32_ld fdt (a + 4) = Some l" for po a l
    using that by (simp add: prop_data_def word_less_nat_alt word_le_nat_alt)
  from property0_at [OF assms, of name] show ?thesis using pd
    by (auto simp: fdt_getprop_def fdt_getprop_namelen_def split: option.splits)
qed

lemma property_at:
  assumes b: "struct_block fdt S Z" and st: "strings_block fdt no N" and t: "node_at fdt no S Z k t" "dt_ok N t"
  shows "case map_of (dt_props t) name of
      None \<Rightarrow> fdt_get_property fdt (int k) name = Some (None, - FDT_ERR_NOTFOUND)
    | Some v \<Rightarrow> \<exists>a. fdt_get_property fdt (int k) name = Some (Some a, int (length v)) \<and> at fdt (a + 12) v"
proof -
  obtain ver where "fdt_version fdt = Some ver" "0x11 \<le> ver" using b by (auto simp: struct_block_def split: option.splits)
  then have "\<not> ver < 0x10" "fdt_version fdt = Some ver" by (simp_all add: word_less_nat_alt word_le_nat_alt)
  with property0_at [OF assms, of name] show ?thesis
    by (auto simp: fdt_get_property_def fdt_get_property_namelen_def split: option.splits)
qed

section \<open>Subnodes\<close>

text \<open>A name without unit address also matches a node with one.\<close>

definition name_match :: "u8 list \<Rightarrow> u8 list \<Rightarrow> bool" where
  "name_match nm n \<longleftrightarrow> n = nm \<or> 0x40 \<notin> set nm \<and> take (length nm + 1) n = nm @ [0x40]"

lemma name_match_iff:
  assumes "0 \<notin> set n" "length nm \<le> length n"
  shows "take (length nm) n = nm \<and> ((n @ [0]) ! length nm = 0 \<or> 0x40 \<notin> set nm \<and> (n @ [0]) ! length nm = 0x40) \<longleftrightarrow> name_match nm n"
proof (cases "length nm = length n")
  case True
  have "take (length nm + 1) n \<noteq> nm @ [0x40]" using True by (metis le_add1 length_append_singleton n_not_Suc_n take_all)
  then show ?thesis using True by (auto simp: name_match_def)
next
  case False
  then have l: "length nm < length n" using assms(2) by simp
  then have "n ! length nm \<noteq> 0" using assms(1) by (metis nth_mem)
  moreover have "take (length nm + 1) n = take (length nm) n @ [n ! length nm]" using l by (simp add: take_Suc_conv_app_nth)
  moreover have "n \<noteq> nm" using l by auto
  ultimately show ?thesis using l by (auto simp: name_match_def nth_append)
qed

lemma nodename_eq_at:
  assumes b: "struct_block fdt S Z" and t: "node_at fdt no S Z k t" "dt_ok N t"
  shows "fdt_nodename_eq fdt (int k) nm = Some (name_match nm (dt_name t))"
proof -
  let ?n = "dt_name t"
  note nb = node_begin [OF b t]
  obtain r ver where h: "fdt_ro_probe fdt = Some r" "0 \<le> r" "fdt_version fdt = Some ver" "0x11 \<le> ver"
    using b by (auto simp: struct_block_def split: option.splits)
  then have "fdt_get_name fdt (int k) = Some (Some (S + k + 4), int (length ?n))"
    using nb by (simp add: fdt_get_name_def word_less_nat_alt word_le_nat_alt)
  moreover have at0: "at fdt (S + k + 4) (?n @ [0])" by (rule cstr_at_iff [OF nb(2)])
  have n0: "0 \<notin> set ?n" using t(2) by (cases t) simp
  show ?thesis
  proof (cases "length nm \<le> length ?n")
    case True
    have "at fdt (S + k + 4) (take (length nm) ?n)" using at0 at_append [of fdt "S + k + 4" "take (length nm) ?n" "drop (length nm) ?n"]
      by (simp add: at_append)
    then have "memeq fdt (S + k + 4) nm = Some (take (length nm) ?n = nm)" using True by (intro memeq_at) simp_all
    moreover have "rd8 fdt (S + k + 4 + length nm) = Some ((?n @ [0]) ! length nm)" using True by (intro at_rd8 [OF at0]) simp
    moreover have "take (length nm) ?n = nm \<and> ((?n @ [0]) ! length nm = 0 \<or> 0x40 \<notin> set nm \<and> (?n @ [0]) ! length nm = 0x40) \<longleftrightarrow> name_match nm ?n"
      by (rule name_match_iff [OF n0 True])
    ultimately show ?thesis using \<open>fdt_get_name fdt (int k) = _\<close> True by (auto simp: fdt_nodename_eq_def)
  next
    case False
    have "take (length nm + 1) ?n \<noteq> nm @ [0x40]" using False by (metis length_append_singleton length_take min.cobounded1 not_less_eq_eq le_SucI)
    then have "\<not> name_match nm ?n" using False by (auto simp: name_match_def)
    then show ?thesis using \<open>fdt_get_name fdt (int k) = _\<close> False by (simp add: fdt_nodename_eq_def)
  qed
qed

text \<open>The search for a subnode from a tag on.\<close>

definition search :: "bmem \<Rightarrow> u8 list \<Rightarrow> nat \<Rightarrow> int \<Rightarrow> int option" where
  "search fdt nm k d = do {
     (off, d') \<leftarrow> next_node_loop fdt (int k) (Some d);
     subnode_loop fdt off (the d') nm
   }"

lemma search_props:
  assumes b: "struct_block fdt S Z"
  shows "at fdt (S + k) (concat (map (prop_bytes no) ps)) \<Longrightarrow> k mod 4 = 0 \<Longrightarrow> k + length (concat (map (prop_bytes no) ps)) \<le> Z \<Longrightarrow>
    search fdt nm k d = search fdt nm (k + length (concat (map (prop_bytes no) ps))) d"
proof (induction ps arbitrary: k)
  case (Cons p ps)
  obtain n v where p: "p = (n, v)" by fastforce
  let ?l = "length (prop_bytes no (n, v))"
  have a: "at fdt (S + k) (prop_bytes no (n, v))" "at fdt (S + (k + ?l)) (concat (map (prop_bytes no) ps))"
    using Cons.prems(1) p by (auto simp: at_append add.assoc)
  have z: "k + ?l \<le> Z" "k + ?l + length (concat (map (prop_bytes no) ps)) \<le> Z" using Cons.prems(3) p by auto
  have m: "(k + ?l) mod 4 = 0" using Cons.prems(2) prop_bytes_length(1) [of no "(n, v)"] by presburger
  have "search fdt nm k d = search fdt nm (k + ?l) d"
    using tag_prop(1) [OF b a(1) Cons.prems(2) z(1)]
    unfolding search_def by (subst next_node_loop.simps) (simp add: fdt_tags)
  then show ?case using Cons.IH [OF a(2) m z(2)] p by (simp add: add.assoc)
qed simp

lemma search_end:
  assumes b: "struct_block fdt S Z" and a: "at fdt (S + k) (be4 FDT_END_NODE)" "k mod 4 = 0" "k + 4 \<le> Z"
  shows "1 \<le> d \<Longrightarrow> search fdt nm k d = search fdt nm (k + 4) (d - 1)"
    "search fdt nm k 0 = Some (- FDT_ERR_NOTFOUND)"
  using tag_plain [OF b a] unfolding search_def
  by (subst next_node_loop.simps, simp add: fdt_tags subnode_loop.simps)+

lemma search_into:
  assumes b: "struct_block fdt S Z" and t: "node_at fdt no S Z k t" "dt_ok N t" and d: "0 \<le> d"
  shows "search fdt nm k d = (if d = 0 \<and> name_match nm (dt_name t) then Some (int k) else search fdt nm (kids_off no k t) (d + 1))"
proof -
  note nb = node_begin [OF b t]
  obtain n ps ks where e: "t = DNode n ps ks" by (cases t)
  note p = node_at_parts [OF t(1) [unfolded e]]
  have "search fdt nm k d = subnode_loop fdt (int k) (d + 1) nm"
    using nb(3) unfolding search_def by (subst next_node_loop.simps) (simp add: fdt_tags)
  moreover have "subnode_loop fdt (int k) (d + 1) nm =
      (if d = 0 \<and> name_match nm (dt_name t) then Some (int k) else search fdt nm (props_off k t) (d + 1))"
    using nb(1) nodename_eq_at [OF b t, of nm] d
    by (subst subnode_loop.simps) (simp add: fdt_next_node_def search_def)
  moreover have "search fdt nm (props_off k t) (d + 1) = search fdt nm (kids_off no k t) (d + 1)"
    using search_props [OF b p(2,6,10)] e by (simp add: props_off_def kids_off_def)
  ultimately show ?thesis by simp
qed

lemma kids_at_Cons:
  assumes "at fdt (S + k) (concat (map (node_bytes no) (t # ts)))" "k mod 4 = 0" "k + length (concat (map (node_bytes no) (t # ts))) \<le> Z"
  defines "k' \<equiv> k + length (node_bytes no t)"
  shows "node_at fdt no S Z k t" "at fdt (S + k') (concat (map (node_bytes no) ts))" "k' mod 4 = 0"
    "k' + length (concat (map (node_bytes no) ts)) \<le> Z"
    "k + length (concat (map (node_bytes no) (t # ts))) = k' + length (concat (map (node_bytes no) ts))"
proof -
  show "k' mod 4 = 0" using assms(2) node_bytes_mod [of no t] unfolding k'_def by presburger
  show "node_at fdt no S Z k t" "at fdt (S + k') (concat (map (node_bytes no) ts))"
    "k' + length (concat (map (node_bytes no) ts)) \<le> Z"
    "k + length (concat (map (node_bytes no) (t # ts))) = k' + length (concat (map (node_bytes no) ts))"
    using assms(1-3) by (auto simp: node_at_def at_append k'_def add.assoc)
qed

lemma search_skip_kids:
  assumes "\<And>t k. t \<in> set ts \<Longrightarrow> node_at fdt no S Z k t \<Longrightarrow> search fdt nm k d = search fdt nm (k + length (node_bytes no t)) d"
    "at fdt (S + k) (concat (map (node_bytes no) ts))" "k mod 4 = 0" "k + length (concat (map (node_bytes no) ts)) \<le> Z"
  shows "search fdt nm k d = search fdt nm (k + length (concat (map (node_bytes no) ts))) d"
  using assms
proof (induction ts arbitrary: k)
  case (Cons t ts)
  note c = kids_at_Cons [OF Cons.prems(2-4)]
  have "search fdt nm k d = search fdt nm (k + length (node_bytes no t)) d" by (rule Cons.prems(1)) (use c in auto)
  also have "\<dots> = search fdt nm (k + length (node_bytes no t) + length (concat (map (node_bytes no) ts))) d"
    by (rule Cons.IH) (use Cons.prems(1) c in auto)
  finally show ?case using c(5) by (simp only:)
qed simp

lemma search_skip:
  assumes b: "struct_block fdt S Z"
  shows "node_at fdt no S Z k t \<Longrightarrow> dt_ok N t \<Longrightarrow> 1 \<le> d \<Longrightarrow> search fdt nm k d = search fdt nm (k + length (node_bytes no t)) d"
proof (induction t arbitrary: k d)
  case (DNode n ps ks)
  note p = node_at_parts [OF DNode.prems(1)]
  let ?kk = "k + length (name_bytes n) + length (concat (map (prop_bytes no) ps))"
  have "search fdt nm k d = search fdt nm ?kk (d + 1)"
    using search_into [OF b DNode.prems(1,2), of d nm] DNode.prems(3) by (simp add: kids_off_def props_off_def)
  also have "\<dots> = search fdt nm (?kk + length (concat (map (node_bytes no) ks))) (d + 1)"
    using DNode.prems(2,3) p(11) by (intro search_skip_kids [OF _ p(3,7)] DNode.IH) auto
  also have "\<dots> = search fdt nm (?kk + length (concat (map (node_bytes no) ks)) + 4) d"
    using search_end(1) [OF b p(4,8,11), of "d + 1" nm] DNode.prems(3) by simp
  finally show ?case unfolding p(12) .
qed

lemma search_kids:
  assumes b: "struct_block fdt S Z"
  shows "at fdt (S + k) (concat (map (node_bytes no) ks)) \<Longrightarrow> k mod 4 = 0 \<Longrightarrow>
    at fdt (S + (k + length (concat (map (node_bytes no) ks)))) (be4 FDT_END_NODE) \<Longrightarrow>
    k + length (concat (map (node_bytes no) ks)) + 4 \<le> Z \<Longrightarrow> (\<forall>t\<in>set ks. dt_ok N t) \<Longrightarrow>
    search fdt nm k 0 = Some (case find (\<lambda>x. name_match nm (dt_name (snd x))) (kids_from no k ks) of
      None \<Rightarrow> - FDT_ERR_NOTFOUND | Some x \<Rightarrow> int (fst x))"
proof (induction ks arbitrary: k)
  case Nil
  then show ?case using search_end(2) [OF b, of k nm] by simp
next
  case (Cons t ts)
  have z: "k + length (concat (map (node_bytes no) (t # ts))) \<le> Z" using Cons.prems(4) by simp
  note c = kids_at_Cons [OF Cons.prems(1,2) z]
  have ok: "dt_ok N t" using Cons.prems(5) by simp
  show ?case
  proof (cases "name_match nm (dt_name t)")
    case True
    then show ?thesis using search_into [OF b c(1) ok, of 0 nm] by simp
  next
    case False
    obtain n ps ks' where e: "t = DNode n ps ks'" by (cases t)
    note p = node_at_parts [OF c(1) [unfolded e]]
    let ?kk = "k + length (name_bytes n) + length (concat (map (prop_bytes no) ps))"
    have "search fdt nm k 0 = search fdt nm ?kk 1"
      using search_into [OF b c(1) ok, of 0 nm] False e by (simp add: kids_off_def props_off_def)
    also have "\<dots> = search fdt nm (?kk + length (concat (map (node_bytes no) ks'))) 1"
      using ok e p(11) by (intro search_skip_kids [OF _ p(3,7)] search_skip [OF b]) auto
    also have "\<dots> = search fdt nm (k + length (node_bytes no t)) 0"
      using search_end(1) [OF b p(4,8,11), of 1 nm] e by (simp add: add.assoc)
    finally have "search fdt nm k 0 = search fdt nm (k + length (node_bytes no t)) 0" .
    moreover have "search fdt nm (k + length (node_bytes no t)) 0 =
        Some (case find (\<lambda>x. name_match nm (dt_name (snd x))) (kids_from no (k + length (node_bytes no t)) ts) of
          None \<Rightarrow> - FDT_ERR_NOTFOUND | Some x \<Rightarrow> int (fst x))"
      using Cons.prems(3-5) c by (intro Cons.IH) (auto simp: add.assoc)
    ultimately show ?thesis using False by simp
  qed
qed

lemma subnode_at:
  assumes b: "struct_block fdt S Z" and t: "node_at fdt no S Z k t" "dt_ok N t"
  shows "fdt_subnode_offset fdt (int k) nm =
    Some (case find (\<lambda>x. name_match nm (dt_name (snd x))) (kids_from no (kids_off no k t) (dt_kids t)) of
      None \<Rightarrow> - FDT_ERR_NOTFOUND | Some x \<Rightarrow> int (fst x))"
proof -
  obtain n ps ks where e: "t = DNode n ps ks" by (cases t)
  note p = node_at_parts [OF t(1) [unfolded e]]
  obtain r where r: "fdt_ro_probe fdt = Some r" "0 \<le> r" using b by (auto simp: struct_block_def)
  have "fdt_subnode_offset fdt (int k) nm = search fdt nm (props_off k t) 0"
    using r node_begin(1) [OF b t]
    by (simp add: fdt_subnode_offset_def fdt_subnode_offset_namelen_def) (subst subnode_loop.simps, simp add: fdt_next_node_def search_def)
  also have "\<dots> = search fdt nm (kids_off no k t) 0"
    using search_props [OF b p(2,6,10)] e by (simp add: props_off_def kids_off_def)
  finally show ?thesis
    using search_kids [OF b p(3,7,4,11), of N nm] t(2) e by (simp add: kids_off_def props_off_def)
qed

section \<open>Paths\<close>

text \<open>What a path means: from each node to the first subnode whose name matches.\<close>

fun dt_lookup :: "dtree \<Rightarrow> u8 list list \<Rightarrow> dtree option" where
  "dt_lookup t [] = Some t"
| "dt_lookup t (c # cs) = (case find (\<lambda>u. name_match c (dt_name u)) (dt_kids t) of None \<Rightarrow> None | Some u \<Rightarrow> dt_lookup u cs)"

definition path_bytes :: "u8 list list \<Rightarrow> u8 list" where
  "path_bytes cs = (if cs = [] then [0x2f] else concat (map (\<lambda>c. 0x2f # c) cs))"

definition path_ok :: "u8 list list \<Rightarrow> bool" where
  "path_ok cs \<longleftrightarrow> (\<forall>c\<in>set cs. c \<noteq> [] \<and> 0x2f \<notin> set c)"

lemma find_kids:
  "at fdt (S + k) (concat (map (node_bytes no) ts)) \<Longrightarrow> k mod 4 = 0 \<Longrightarrow> k + length (concat (map (node_bytes no) ts)) \<le> Z \<Longrightarrow>
     case find P ts of
       None \<Rightarrow> find (\<lambda>x. P (snd x)) (kids_from no k ts) = None
     | Some u \<Rightarrow> \<exists>k'. find (\<lambda>x. P (snd x)) (kids_from no k ts) = Some (k', u) \<and> node_at fdt no S Z k' u"
proof (induction ts arbitrary: k)
  case (Cons t ts)
  note c = kids_at_Cons [OF Cons.prems]
  show ?case using c(1) Cons.IH [OF c(2-4)] by (auto split: option.splits)
qed simp

lemma subnode_lookup:
  assumes b: "struct_block fdt S Z" and t: "node_at fdt no S Z k t" "dt_ok N t"
  shows "case find (\<lambda>u. name_match c (dt_name u)) (dt_kids t) of
      None \<Rightarrow> fdt_subnode_offset fdt (int k) c = Some (- FDT_ERR_NOTFOUND)
    | Some u \<Rightarrow> \<exists>k'. fdt_subnode_offset fdt (int k) c = Some (int k') \<and> node_at fdt no S Z k' u \<and> dt_ok N u"
proof -
  obtain n ps ks where e: "t = DNode n ps ks" by (cases t)
  note p = node_at_parts [OF t(1) [unfolded e]]
  have z: "kids_off no k t + length (concat (map (node_bytes no) ks)) \<le> Z" using p(11) e by (simp add: kids_off_def props_off_def)
  have a: "at fdt (S + kids_off no k t) (concat (map (node_bytes no) ks))" "kids_off no k t mod 4 = 0"
    using p(3,7) e by (simp_all add: kids_off_def props_off_def)
  note fk = find_kids [OF a z, of "\<lambda>u. name_match c (dt_name u)"]
  have "dt_ok N u" if "find (\<lambda>u. name_match c (dt_name u)) ks = Some u" for u
    using that t(2) e by (auto simp: find_Some_iff)
  then show ?thesis using fk subnode_at [OF b t, of c] e by (auto split: option.splits)
qed

lemma walk_first: "c \<noteq> [] \<Longrightarrow> 0x2f \<notin> set c \<Longrightarrow> r = [] \<or> hd r = (0x2f :: u8) \<Longrightarrow>
    dropWhile (\<lambda>x. x = 0x2f) (0x2f # c @ r) = c @ r \<and> takeWhile (\<lambda>x. x \<noteq> 0x2f) (c @ r) = c \<and> dropWhile (\<lambda>x. x \<noteq> 0x2f) (c @ r) = r"
proof -
  assume "c \<noteq> []" "0x2f \<notin> set c" "r = [] \<or> hd r = (0x2f :: u8)"
  then show ?thesis by (cases c; cases r) (auto simp: takeWhile_append2 dropWhile_append2 takeWhile_append dropWhile_append)
qed

lemma path_walk_at:
  assumes b: "struct_block fdt S Z"
  shows "node_at fdt no S Z k t \<Longrightarrow> dt_ok N t \<Longrightarrow> path_ok cs \<Longrightarrow>
    case dt_lookup t cs of
      None \<Rightarrow> path_walk fdt (int k) (concat (map (\<lambda>c. 0x2f # c) cs)) = Some (- FDT_ERR_NOTFOUND)
    | Some u \<Rightarrow> \<exists>k'. path_walk fdt (int k) (concat (map (\<lambda>c. 0x2f # c) cs)) = Some (int k') \<and> node_at fdt no S Z k' u \<and> dt_ok N u"
proof (induction cs arbitrary: k t)
  case Nil
  then show ?case by (subst path_walk.simps) auto
next
  case (Cons c cs)
  let ?r = "concat (map (\<lambda>c. 0x2f # c) cs)"
  have "c \<noteq> []" "0x2f \<notin> set c" "?r = [] \<or> hd ?r = 0x2f" "path_ok cs" using Cons.prems(3) by (cases cs; auto simp: path_ok_def)+
  note w = walk_first [OF this(1-3)] and ok = this(4)
  have step: "path_walk fdt (int k) (concat (map (\<lambda>c. 0x2f # c) (c # cs))) = do {
      off \<leftarrow> fdt_subnode_offset fdt (int k) c;
      if off < 0 then Some off else path_walk fdt off ?r }"
    using w \<open>c \<noteq> []\<close> by (subst path_walk.simps) (simp add: fdt_subnode_offset_def cong: if_cong)
  note sl = subnode_lookup [OF b Cons.prems(1,2), of c]
  show ?case
  proof (cases "find (\<lambda>u. name_match c (dt_name u)) (dt_kids t)")
    case None
    then show ?thesis using sl step by (simp add: fdt_errs)
  next
    case (Some u)
    then obtain k' where k': "fdt_subnode_offset fdt (int k) c = Some (int k')" "node_at fdt no S Z k' u" "dt_ok N u" using sl by auto
    then have "path_walk fdt (int k) (concat (map (\<lambda>c. 0x2f # c) (c # cs))) = path_walk fdt (int k') ?r" using step by simp
    then show ?thesis using Cons.IH [OF k'(2,3) ok] Some by (simp split: option.splits)
  qed
qed

section \<open>Properties of the reader on a tree\<close>

definition tree_blob :: "bmem \<Rightarrow> (u8 list \<Rightarrow> nat) \<Rightarrow> u8 list set \<Rightarrow> dtree \<Rightarrow> bool" where
  "tree_blob fdt no N t \<longleftrightarrow> (\<exists>S Z. struct_block fdt S Z \<and> node_at fdt no S Z 0 t) \<and> strings_block fdt no N \<and> dt_ok N t"

lemma path_offset_at:
  assumes b: "struct_block fdt S Z" "node_at fdt no S Z 0 t" "dt_ok N t" and cs: "path_ok cs"
  shows "case dt_lookup t cs of
      None \<Rightarrow> fdt_path_offset fdt (path_bytes cs) = Some (- FDT_ERR_NOTFOUND)
    | Some u \<Rightarrow> \<exists>k. fdt_path_offset fdt (path_bytes cs) = Some (int k) \<and> node_at fdt no S Z k u \<and> dt_ok N u"
proof -
  obtain r where r: "fdt_ro_probe fdt = Some r" "0 \<le> r" using b(1) by (auto simp: struct_block_def)
  have h: "path_bytes cs \<noteq> []" "hd (path_bytes cs) = 0x2f" by (cases cs; simp add: path_bytes_def)+
  have "path_walk fdt 0 [0x2f] = path_walk fdt 0 []" by (simp add: path_walk.simps)
  then have "fdt_path_offset fdt (path_bytes cs) = path_walk fdt (int 0) (concat (map (\<lambda>c. 0x2f # c) cs))"
    using r h unfolding fdt_path_offset_def by (subst fdt_path_offset_namelen.simps) (simp add: path_bytes_def)
  from path_walk_at [OF b cs, folded this] show ?thesis by (auto split: option.splits)
qed

text \<open>C7: In a blob a tree was flattened into, \<open>fdt_path_offset\<close> finds a node exactly if the tree has one at that
  path, with the rule that a name without unit address matches one with it, and at the node found
  \<open>fdt_getprop\<close> answers for every name the bytes of that property of the node, or that there is none.\<close>

theorem fdt_path_getprop:
  assumes t: "tree_blob fdt no N t" and cs: "path_ok cs"
  shows "case dt_lookup t cs of
      None \<Rightarrow> fdt_path_offset fdt (path_bytes cs) = Some (- FDT_ERR_NOTFOUND)
    | Some u \<Rightarrow> \<exists>k. fdt_path_offset fdt (path_bytes cs) = Some (int k) \<and>
        (case map_of (dt_props u) name of
           None \<Rightarrow> fdt_getprop fdt (int k) name = Some (None, - FDT_ERR_NOTFOUND)
         | Some v \<Rightarrow> \<exists>a. fdt_getprop fdt (int k) name = Some (Some a, int (length v)) \<and> at fdt a v)"
proof -
  obtain S Z where b: "struct_block fdt S Z" "node_at fdt no S Z 0 t" "strings_block fdt no N" "dt_ok N t"
    using t by (auto simp: tree_blob_def)
  note w = path_offset_at [OF b(1,2,4) cs]
  show ?thesis
  proof (cases "dt_lookup t cs")
    case None
    then show ?thesis using w by simp
  next
    case (Some u)
    then obtain k where k: "fdt_path_offset fdt (path_bytes cs) = Some (int k)" "node_at fdt no S Z k u" "dt_ok N u" using w by auto
    then show ?thesis using Some getprop_at [OF b(1,3) k(2,3), of name] by auto
  qed
qed

definition demo_tree :: dtree where
  "demo_tree = DNode [] [] [DNode [0x61, 0x6c, 0x69, 0x61, 0x73, 0x65, 0x73] [([0x61], [0x61, 0])] []]"

lemma demo_tree_blob: "tree_blob loop_fdt (\<lambda>_. 0) {[0x61]} demo_tree"
proof -
  have h: "fdt_version loop_fdt = Some 17" "fdt_totalsize loop_fdt = Some 106" "fdt_off_dt_struct loop_fdt = Some 56"
    "fdt_size_dt_struct loop_fdt = Some 48" "fdt_magic loop_fdt = Some FDT_MAGIC" "fdt_off_dt_strings loop_fdt = Some 104"
    "fdt_size_dt_strings loop_fdt = Some 2" by code_simp+
  have l: "fst loop_fdt = 8" "length (snd loop_fdt) = 106" by (simp_all add: loop_fdt_def)
  have "fdt_mapped loop_fdt" using h l by (simp add: fdt_mapped_def)
  then have "struct_block loop_fdt 64 48" using h l loop_fdt(1) by (simp add: struct_block_def)
  moreover have r: "replicate 3 (0 :: u8) = [0, 0, 0]" "replicate 2 (0 :: u8) = [0, 0]" by (simp_all add: numeral_eq_Suc)
  moreover have "node_at loop_fdt (\<lambda>_. 0) 64 48 0 demo_tree"
    by (simp add: node_at_def demo_tree_def name_bytes_def prop_bytes_def padded_def al4_def be4_def fdt_tags at_simps loop_fdt_def rd8_def r)
  moreover have "strings_block loop_fdt (\<lambda>_. 0) {[0x61]}"
    using h l by (simp add: strings_block_def at_simps) (simp add: loop_fdt_def rd8_def)
  ultimately show ?thesis by (auto simp: tree_blob_def demo_tree_def)
qed

theorem fdt_path_getprop_witness:
  "\<exists>k a. fdt_path_offset loop_fdt [0x2f, 0x61, 0x6c, 0x69, 0x61, 0x73, 0x65, 0x73] = Some (int k) \<and>
     fdt_getprop loop_fdt (int k) [0x61] = Some (Some a, 2) \<and> at loop_fdt a [0x61, 0]"
  using fdt_path_getprop [OF demo_tree_blob, of "[[0x61, 0x6c, 0x69, 0x61, 0x73, 0x65, 0x73]]" "[0x61]"]
  by (simp add: path_ok_def path_bytes_def demo_tree_def name_match_def)

end
