(* ===== verification/Fdt_Helper.thy ===== *)
theory Fdt_Helper
  imports Fdt_Tree
begin

text \<open>Model of \<^verbatim>\<open>deps/libfdt/fdt_addresses.c\<close> (reading) and of \<^verbatim>\<open>kernel/main/fdt_helper.c\<close>: the numbers of cells
  of a node, its registers with the translation of their addresses, lists of phandles with arguments and
  the status of a node. A pointer argument through which a result is stored is the value it points to,
  with \<^const>\<open>None\<close> for the null pointer.\<close>

section \<open>Numbers of cells\<close>

definition FDT_MAX_NCELLS :: u32 where "FDT_MAX_NCELLS = 4"

definition fdt_cells :: "bmem \<Rightarrow> int \<Rightarrow> u8 list \<Rightarrow> int option" where
  "fdt_cells fdt nodeoffset name = do {
     (c, len) \<leftarrow> fdt_getprop fdt nodeoffset name;
     (case c of
        None \<Rightarrow> Some len
      | Some a \<Rightarrow>
          if len \<noteq> 4 then Some (- FDT_ERR_BADNCELLS)
          else do {
            val \<leftarrow> fdt32_ld fdt a;
            Some (if val > FDT_MAX_NCELLS then - FDT_ERR_BADNCELLS else uint val)
          })
   }"

definition fdt_address_cells :: "bmem \<Rightarrow> int \<Rightarrow> int option" where
  "fdt_address_cells fdt nodeoffset = do {
     val \<leftarrow> fdt_cells fdt nodeoffset (lit ''#address-cells'');
     Some (if val = 0 then - FDT_ERR_BADNCELLS else if val = - FDT_ERR_NOTFOUND then 2 else val)
   }"

definition fdt_size_cells :: "bmem \<Rightarrow> int \<Rightarrow> int option" where
  "fdt_size_cells fdt nodeoffset = do {
     val \<leftarrow> fdt_cells fdt nodeoffset (lit ''#size-cells'');
     Some (if val = - FDT_ERR_NOTFOUND then 1 else val)
   }"

section \<open>Lists of phandles\<close>

definition FDT_MAX_PHANDLE_ARGS :: u32 where "FDT_MAX_PHANDLE_ARGS = 16"

record fdt_phandle_args =
  node_offset :: int
  args :: "u32 list"

fun read_words :: "bmem \<Rightarrow> nat \<Rightarrow> nat \<Rightarrow> u32 list option" where
  "read_words m p 0 = Some []"
| "read_words m p (Suc n) = do {
     w \<leftarrow> fdt32_ld m p;
     ws \<leftarrow> read_words m (p + 4) n;
     Some (w # ws)
   }"

partial_function (option) parse_phandle_loop ::
  "bmem \<Rightarrow> u8 list \<Rightarrow> nat \<Rightarrow> nat \<Rightarrow> int \<Rightarrow> (int \<times> fdt_phandle_args option) option" where
  "parse_phandle_loop fdt cells_prop list list_end index =
     (if list < list_end then do {
        phandle \<leftarrow> fdt32_ld fdt list;
        pnodeoff \<leftarrow> fdt_node_offset_by_phandle fdt phandle;
        if pnodeoff < 0 then Some (pnodeoff, None)
        else do {
          (val, len) \<leftarrow> fdt_getprop fdt pnodeoff cells_prop;
          (case val of
             None \<Rightarrow> Some (K_ENOENT, None)
           | Some a \<Rightarrow> do {
               pcells \<leftarrow> fdt32_ld fdt a;
               if FDT_MAX_PHANDLE_ARGS < pcells then Some (K_EINVAL, None)
               else if list + 4 + 4 * unat pcells > list_end then Some (K_ENOENT, None)
               else if index > 0 then parse_phandle_loop fdt cells_prop (list + 4 + 4 * unat pcells) list_end (index - 1)
               else do {
                 ws \<leftarrow> read_words fdt (list + 4) (unat pcells);
                 Some (0, Some \<lparr>node_offset = pnodeoff, args = ws\<rparr>)
               }
             })
        }
      }
      else Some (K_ENOENT, None))"

definition fdt_parse_phandle_with_args ::
  "bmem \<Rightarrow> int \<Rightarrow> u8 list \<Rightarrow> u8 list \<Rightarrow> int \<Rightarrow> (int \<times> fdt_phandle_args option) option" where
  "fdt_parse_phandle_with_args fdt nodeoff prop cells_prop index =
     (if nodeoff < 0 then Some (K_EINVAL, None)
      else do {
        (list, len) \<leftarrow> fdt_getprop fdt nodeoff prop;
        (case list of
           None \<Rightarrow> Some (K_ENOENT, None)
         | Some a \<Rightarrow> parse_phandle_loop fdt cells_prop a (a + nat len div 4 * 4) index)
      })"

section \<open>Registers\<close>

text \<open>A number of several cells; more than two overflow.\<close>

fun read_cells :: "bmem \<Rightarrow> nat \<Rightarrow> nat \<Rightarrow> u64 \<Rightarrow> u64 option" where
  "read_cells m p 0 acc = Some acc"
| "read_cells m p (Suc n) acc = do {
     w \<leftarrow> fdt32_ld m p;
     read_cells m (p + 4) n (push_bit 32 acc OR ucast w)
   }"

definition fdt_translate_address :: "bmem \<Rightarrow> u64 \<Rightarrow> int \<Rightarrow> u64 \<Rightarrow> (int \<times> u64) option" where
  "fdt_translate_address fdt reg parent addr = do {
     cell_addr \<leftarrow> fdt_address_cells fdt parent;
     if cell_addr < 1 then Some (K_ENODEV, addr)
     else do {
       cell_size \<leftarrow> fdt_size_cells fdt parent;
       if cell_size < 0 then Some (K_ENODEV, addr)
       else do {
         (ranges, rlen) \<leftarrow> fdt_getprop fdt parent (lit ''ranges'');
         (case ranges of
            None \<Rightarrow> Some (0, reg)
          | Some r \<Rightarrow>
              if rlen > 0 then do {
                caddr \<leftarrow> read_cells fdt r (nat cell_addr) 0;
                paddr \<leftarrow> read_cells fdt (r + 4 * nat cell_addr) (nat cell_addr) 0;
                rsize \<leftarrow> read_cells fdt (r + 8 * nat cell_addr) (nat cell_size) 0;
                if reg < caddr \<or> caddr \<ge> reg + rsize then Some (K_ENODEV, addr)
                else Some (0, paddr + (reg - caddr))
              }
              else Some (0, reg))
       }
     }
   }"

text \<open>The loop up to the root; an error of the translation ends it and is not reported.\<close>

partial_function (option) translate_loop :: "bmem \<Rightarrow> u64 \<Rightarrow> int \<Rightarrow> u64 \<Rightarrow> u64 option" where
  "translate_loop fdt temp parent addr =
     (if parent < 0 then Some addr
      else do {
        (rc, addr) \<leftarrow> fdt_translate_address fdt temp parent addr;
        if rc \<noteq> 0 then Some addr
        else do {
          parent' \<leftarrow> fdt_parent_offset fdt parent;
          translate_loop fdt addr parent' addr
        }
      })"

definition fdt_get_node_addr_size ::
  "bmem \<Rightarrow> int \<Rightarrow> int \<Rightarrow> u64 option \<Rightarrow> u64 option \<Rightarrow> (int \<times> u64 option \<times> u64 option) option" where
  "fdt_get_node_addr_size fdt node index addr sz =
     (if node < 0 \<or> index < 0 then Some (K_EINVAL, addr, sz)
      else do {
        parent \<leftarrow> fdt_parent_offset fdt node;
        if parent < 0 then Some (parent, addr, sz)
        else do {
          cell_addr \<leftarrow> fdt_address_cells fdt parent;
          if cell_addr < 1 then Some (K_ENODEV, addr, sz)
          else do {
            cell_size \<leftarrow> fdt_size_cells fdt parent;
            if cell_size < 0 then Some (K_ENODEV, addr, sz)
            else do {
              (prop, len) \<leftarrow> fdt_getprop fdt node (lit ''reg'');
              (case prop of
                 None \<Rightarrow> Some (K_ENODEV, addr, sz)
               | Some r \<Rightarrow>
                   let skip = i32 (index * (cell_addr + cell_size)) in
                   if of_int len div 4 \<le> (of_int skip :: u64) then Some (K_EINVAL, addr, sz)
                   else do {
                     addr' \<leftarrow> (case addr of
                        None \<Rightarrow> Some None
                      | Some a \<Rightarrow> do {
                          temp \<leftarrow> read_cells fdt (r + 4 * nat skip) (nat cell_addr) 0;
                          map_option Some (translate_loop fdt temp parent a)
                        });
                     sz' \<leftarrow> (case sz of
                        None \<Rightarrow> Some None
                      | Some _ \<Rightarrow> map_option Some (read_cells fdt (r + 4 * nat skip + 4 * nat cell_addr) (nat cell_size) 0));
                     Some (0, addr', sz')
                   })
            }
          }
        }
      })"

partial_function (option) reg_names_loop ::
  "bmem \<Rightarrow> int \<Rightarrow> u8 list \<Rightarrow> nat \<Rightarrow> int \<Rightarrow> int \<Rightarrow> int \<Rightarrow> u64 option \<Rightarrow> u64 option \<Rightarrow> (int \<times> u64 option \<times> u64 option) option" where
  "reg_names_loop fdt node name val count i j addr sz =
     (if i < count then do {
        regname \<leftarrow> cstr fdt (val + nat i);
        if regname = name then fdt_get_node_addr_size fdt node j addr sz
        else reg_names_loop fdt node name val count (i + int (length regname) + 1) (j + 1) addr sz
      }
      else Some (K_ENODEV, addr, sz))"

definition fdt_get_node_addr_size_by_name ::
  "bmem \<Rightarrow> int \<Rightarrow> u8 list \<Rightarrow> u64 option \<Rightarrow> u64 option \<Rightarrow> (int \<times> u64 option \<times> u64 option) option" where
  "fdt_get_node_addr_size_by_name fdt node name addr sz =
     (if node < 0 then Some (K_EINVAL, addr, sz)
      else do {
        (val, count) \<leftarrow> fdt_getprop fdt node (lit ''reg-names'');
        (case val of
           None \<Rightarrow> Some (K_ENODEV, addr, sz)
         | Some a \<Rightarrow> reg_names_loop fdt node name a count 0 0 addr sz)
      })"

text \<open>\<open>strncmp\<close> with a literal of its own length: the string begins with the literal.\<close>

fun strn_prefix :: "bmem \<Rightarrow> nat \<Rightarrow> u8 list \<Rightarrow> bool option" where
  "strn_prefix m p [] = Some True"
| "strn_prefix m p (c # cs) = do {
     x \<leftarrow> rd8 m p;
     if x = c then strn_prefix m (p + 1) cs else Some False
   }"

definition fdt_node_is_enabled :: "bmem \<Rightarrow> int \<Rightarrow> bool option" where
  "fdt_node_is_enabled fdt nodeoff = do {
     (prop, len) \<leftarrow> fdt_getprop fdt nodeoff (lit ''status'');
     (case prop of
        None \<Rightarrow> Some True
      | Some a \<Rightarrow> do {
          okay \<leftarrow> strn_prefix fdt a (lit ''okay'');
          if okay then Some True else strn_prefix fdt a (lit ''ok'')
        })
   }"

declare parse_phandle_loop.simps [code] translate_loop.simps [code] reg_names_loop.simps [code]

section \<open>Properties\<close>

text \<open>C38: The translation of an address through \<open>ranges\<close> compares the wrong sum with the start of the range: an
  address behind the end of the range is translated as if it were in it.\<close>

theorem translate_beyond_range:
  assumes "fdt_address_cells fdt p = Some (int ca)" "1 \<le> ca" "fdt_size_cells fdt p = Some (int cs)"
    "fdt_getprop fdt p (lit ''ranges'') = Some (Some r, rlen)" "0 < rlen"
    "read_cells fdt r ca 0 = Some caddr" "read_cells fdt (r + 4 * ca) ca 0 = Some paddr" "read_cells fdt (r + 8 * ca) cs 0 = Some rsize"
    "0 < rsize" "unat caddr + unat rsize \<le> unat reg" "unat reg + unat rsize < 2 ^ 64"
  shows "fdt_translate_address fdt reg p addr = Some (0, paddr + (reg - caddr))"
proof -
  have "unat (reg + rsize) = unat reg + unat rsize" using assms(11) by (simp add: unat_word_ariths)
  moreover have "0 < unat rsize" using assms(9) by (simp add: word_less_nat_alt)
  ultimately have "\<not> (reg < caddr \<or> caddr \<ge> reg + rsize)" using assms(10) by (simp add: word_less_nat_alt word_le_nat_alt)
  then show ?thesis using assms(1-8) by (simp add: fdt_translate_address_def)
qed

text \<open>A root with the range that maps \<open>0x100\<close> bytes at \<open>0x1000\<close> to \<open>0x8000\<close>.\<close>

definition range_fdt :: bmem where
  "range_fdt = (8, [208, 13, 254, 237, 0, 0, 0, 162, 0, 0, 0, 56, 0, 0, 0, 128, 0, 0, 0, 40, 0, 0, 0, 17, 0, 0, 0, 16, 0, 0, 0, 0, 0, 0, 0,
     34, 0, 0, 0, 72, 0, 0, 0, 0, 0, 0, 0, 0, 0, 0, 0, 0, 0, 0, 0, 0, 0, 0, 0, 1, 0, 0, 0, 0, 0, 0, 0, 3, 0, 0, 0, 4, 0, 0,
     0, 0, 0, 0, 0, 1, 0, 0, 0, 3, 0, 0, 0, 4, 0, 0, 0, 15, 0, 0, 0, 1, 0, 0, 0, 3, 0, 0, 0, 12, 0, 0, 0, 27, 0, 0, 16, 0, 0,
     0, 128, 0, 0, 0, 1, 0, 0, 0, 0, 2, 0, 0, 0, 9, 35, 97, 100, 100, 114, 101, 115, 115, 45, 99, 101, 108, 108, 115, 0, 35,
     115, 105, 122, 101, 45, 99, 101, 108, 108, 115, 0, 114, 97, 110, 103, 101, 115, 0])"

definition range_no :: "u8 list \<Rightarrow> nat" where
  "range_no n = (if n = lit ''#address-cells'' then 0 else if n = lit ''#size-cells'' then 15 else 27)"

definition range_names :: "u8 list set" where
  "range_names = {lit ''#address-cells'', lit ''#size-cells'', lit ''ranges''}"

definition range_tree :: dtree where
  "range_tree = DNode [] [(lit ''#address-cells'', be4 1), (lit ''#size-cells'', be4 1),
     (lit ''ranges'', be4 0x1000 @ be4 0x8000 @ be4 0x100)] []"

lemma range_fdt_blob:
  "struct_block range_fdt 64 72" "strings_block range_fdt range_no range_names" "node_at range_fdt range_no 64 72 0 range_tree"
  "dt_ok range_names range_tree"
proof -
  have h: "fdt_version range_fdt = Some 17" "fdt_totalsize range_fdt = Some 162" "fdt_off_dt_struct range_fdt = Some 56"
    "fdt_size_dt_struct range_fdt = Some 72" "fdt_magic range_fdt = Some FDT_MAGIC" "fdt_off_dt_strings range_fdt = Some 128"
    "fdt_size_dt_strings range_fdt = Some 34" "fdt_ro_probe range_fdt = Some 162" by code_simp+
  have l: "fst range_fdt = 8" "length (snd range_fdt) = 162" by (simp_all add: range_fdt_def)
  have "fdt_mapped range_fdt" using h l by (simp add: fdt_mapped_def)
  then show "struct_block range_fdt 64 72" using h l by (simp add: struct_block_def)
  have r: "replicate 3 (0 :: u8) = [0, 0, 0]" by (simp add: numeral_eq_Suc)
  show "node_at range_fdt range_no 64 72 0 range_tree"
    by (simp add: node_at_def range_tree_def range_no_def name_bytes_def prop_bytes_def padded_def al4_def be4_def fdt_tags lit_def at_simps range_fdt_def rd8_def r)
  show "strings_block range_fdt range_no range_names"
    using h l by (simp add: strings_block_def range_names_def range_no_def lit_def at_simps) (simp add: range_fdt_def rd8_def)
  show "dt_ok range_names range_tree" by (simp add: range_tree_def range_names_def)
qed

lemma range_props:
  "fdt_address_cells range_fdt 0 = Some (int 1)" "fdt_size_cells range_fdt 0 = Some (int 1)"
  "\<exists>r. fdt_getprop range_fdt 0 (lit ''ranges'') = Some (Some r, 12) \<and> read_cells range_fdt r 1 0 = Some 0x1000 \<and>
     read_cells range_fdt (r + 4) 1 0 = Some 0x8000 \<and> read_cells range_fdt (r + 8) 1 0 = Some 0x100"
proof -
  note g = getprop_at [OF range_fdt_blob]
  have c: "fdt_cells range_fdt 0 n = Some 1" if m: "map_of (dt_props range_tree) n = Some (be4 1)" for n
  proof -
    obtain a where a: "fdt_getprop range_fdt 0 n = Some (Some a, 4)" "at range_fdt a (be4 1)"
      using g [of n] m by auto
    then show ?thesis using ld_be4 [of range_fdt a 1 "[]"] by (simp add: fdt_cells_def FDT_MAX_NCELLS_def)
  qed
  show "fdt_address_cells range_fdt 0 = Some (int 1)" "fdt_size_cells range_fdt 0 = Some (int 1)"
    by (simp_all add: fdt_address_cells_def fdt_size_cells_def c range_tree_def lit_def fdt_errs)
  obtain a where a: "fdt_getprop range_fdt 0 (lit ''ranges'') = Some (Some a, 12)" "at range_fdt a (be4 0x1000 @ be4 0x8000 @ be4 0x100)"
    using g [of "lit ''ranges''"] by (auto simp: range_tree_def lit_def)
  have "fdt32_ld range_fdt a = Some 0x1000" "fdt32_ld range_fdt (a + 4) = Some 0x8000" "fdt32_ld range_fdt (a + 8) = Some 0x100"
    using a(2) by (auto simp: at_append add.commute intro: ld_be4 [where xs = "[]"] ld_be4)
  then show "\<exists>r. fdt_getprop range_fdt 0 (lit ''ranges'') = Some (Some r, 12) \<and> read_cells range_fdt r 1 0 = Some 0x1000 \<and>
     read_cells range_fdt (r + 4) 1 0 = Some 0x8000 \<and> read_cells range_fdt (r + 8) 1 0 = Some 0x100"
    using a(1) by auto
qed

theorem translate_beyond_range_witness: "fdt_translate_address range_fdt 0x2000 0 0 = Some (0, 0x9000)"
proof -
  obtain r where "fdt_getprop range_fdt 0 (lit ''ranges'') = Some (Some r, 12)" "read_cells range_fdt r 1 0 = Some 0x1000"
    "read_cells range_fdt (r + 4 * 1) 1 0 = Some 0x8000" "read_cells range_fdt (r + 8 * 1) 1 0 = Some 0x100"
    using range_props(3) by (auto simp del: read_cells.simps)
  from translate_beyond_range [OF range_props(1) _ range_props(2) this(1) _ this(2-4), of "0x2000" 0] show ?thesis by simp
qed

end
