(* ===== verification/Sbif.thy ===== *)
theory Sbif
  imports Bytes
begin

text \<open>Model of \<^verbatim>\<open>kernel/inc/k_sbif.hpp\<close> and of \<open>sbi_ecall\<close> in \<^verbatim>\<open>kernel/inc/llenv.h\<close>: the calls of
  the kernel into the SBI firmware. The firmware is not part of the repository; it is an argument
  of every call, a function from the registers \<open>a0\<close> to \<open>a7\<close> and the state of the machine to the
  values of \<open>a0\<close> and \<open>a1\<close> on return and the new state.\<close>

section \<open>The call\<close>

definition SBI_EXT_BASE :: int where [kdefs]: "SBI_EXT_BASE = 0x10"
definition SBI_EXT_TIME :: int where [kdefs]: "SBI_EXT_TIME = 0x54494D45"
definition SBI_EXT_IPI :: int where [kdefs]: "SBI_EXT_IPI = 0x735049"
definition SBI_EXT_RFENCE :: int where [kdefs]: "SBI_EXT_RFENCE = 0x52464E43"
definition SBI_EXT_HSM :: int where [kdefs]: "SBI_EXT_HSM = 0x48534D"
definition SBI_EXT_SRST :: int where [kdefs]: "SBI_EXT_SRST = 0x53525354"
definition SBI_EXT_DBCN :: int where [kdefs]: "SBI_EXT_DBCN = 0x4442434E"

definition SBI_HSM_STATE_STARTED :: int where [kdefs]: "SBI_HSM_STATE_STARTED = 0"
definition SBI_HSM_STATE_STOPPED :: int where [kdefs]: "SBI_HSM_STATE_STOPPED = 1"

record sbi_regs =
  reg_a7 :: u64
  reg_a6 :: u64
  reg_args :: "u64 list"

record sbiret =
  sbi_error :: int
  sbi_value :: int

type_synonym 'w sbi = "sbi_regs \<Rightarrow> 'w \<Rightarrow> (u64 \<times> u64) \<times> 'w"

text \<open>\<open>ext\<close> and \<open>fid\<close> are of type \<open>int\<close> and are sign-extended to the width of a register; the
  arguments that a caller leaves out are 0; \<open>error\<close> and \<open>value\<close> are of the signed type \<open>long\<close>.\<close>

definition sbi_ecall :: "'w sbi \<Rightarrow> int \<Rightarrow> int \<Rightarrow> u64 list \<Rightarrow> 'w \<Rightarrow> sbiret \<times> 'w" where
  "sbi_ecall fw ext fid args w =
     (let ((e, v), w') = fw \<lparr>reg_a7 = of_int ext, reg_a6 = of_int fid, reg_args = take 6 (args @ replicate 6 0)\<rparr> w in
      (\<lparr>sbi_error = sint e, sbi_value = sint v\<rparr>, w'))"

definition sbi_available :: "'w sbi \<Rightarrow> int \<Rightarrow> 'w \<Rightarrow> int \<times> 'w" where
  "sbi_available fw ext w = (let (r, w') = sbi_ecall fw SBI_EXT_BASE 3 [of_int ext] w in (sbi_value r, w'))"

section \<open>Base\<close>

definition getSpecVersion :: "'w sbi \<Rightarrow> 'w \<Rightarrow> u32 \<times> 'w" where
  "getSpecVersion fw w =
     (let (r, w') = sbi_ecall fw SBI_EXT_BASE 0 [] w in (of_int (sbi_value r) AND 0x7FFFFFFF, w'))"

definition base_value :: "'w sbi \<Rightarrow> int \<Rightarrow> 'w \<Rightarrow> int \<times> 'w" where
  "base_value fw fid w = (let (r, w') = sbi_ecall fw SBI_EXT_BASE fid [] w in (sbi_value r, w'))"

definition getImplID :: "'w sbi \<Rightarrow> 'w \<Rightarrow> int \<times> 'w" where "getImplID fw = base_value fw 1"
definition getImplVer :: "'w sbi \<Rightarrow> 'w \<Rightarrow> int \<times> 'w" where "getImplVer fw = base_value fw 2"
definition probeExtension :: "'w sbi \<Rightarrow> int \<Rightarrow> 'w \<Rightarrow> int \<times> 'w" where "probeExtension fw extid = base_value fw 3"
definition getVID :: "'w sbi \<Rightarrow> 'w \<Rightarrow> int \<times> 'w" where "getVID fw = base_value fw 4"
definition getAID :: "'w sbi \<Rightarrow> 'w \<Rightarrow> int \<times> 'w" where "getAID fw = base_value fw 5"
definition getMacImplID :: "'w sbi \<Rightarrow> 'w \<Rightarrow> int \<times> 'w" where "getMacImplID fw = base_value fw 6"

definition impls :: "string list" where
  "impls = [''BBL'', ''OpenSBI'', ''Xvisor'', ''KVM'', ''RustSBI'', ''Diosix'', ''Coffer'', ''XenProject'', ''PolarFire'']"

definition getImplName :: "u64 \<Rightarrow> string" where
  "getImplName i = (if i < 9 then impls ! unat i else '''')"

section \<open>The other extensions\<close>

definition ext_error :: "'w sbi \<Rightarrow> int \<Rightarrow> int \<Rightarrow> u64 list \<Rightarrow> 'w \<Rightarrow> int \<times> 'w" where
  "ext_error fw ext fid args w = (let (r, w') = sbi_ecall fw ext fid args w in (sbi_error r, w'))"

definition dbcn_puts :: "'w sbi \<Rightarrow> bmem \<Rightarrow> nat \<Rightarrow> 'w \<Rightarrow> (int \<times> 'w) option" where
  "dbcn_puts fw m str w = do {
     s \<leftarrow> cstr m str;
     Some (ext_error fw SBI_EXT_DBCN 0 [of_nat (length s), of_nat str] w)
   }"

definition dbcn_gets :: "'w sbi \<Rightarrow> u64 \<Rightarrow> u64 \<Rightarrow> 'w \<Rightarrow> int \<times> 'w" where
  "dbcn_gets fw str mlen w =
     (let (r, w') = sbi_ecall fw SBI_EXT_DBCN 1 [mlen, str] w in
      (if sbi_error r = 0 then sbi_value r else sbi_error r, w'))"

definition setTimer :: "'w sbi \<Rightarrow> u64 \<Rightarrow> 'w \<Rightarrow> int \<times> 'w" where
  "setTimer fw sv = ext_error fw SBI_EXT_TIME 0 [sv]"

definition clearTimer :: "'w sbi \<Rightarrow> 'w \<Rightarrow> int \<times> 'w" where
  "clearTimer fw = ext_error fw SBI_EXT_TIME 0 [drop_bit 8 (- 1)]"

definition sendIPI :: "'w sbi \<Rightarrow> u64 \<Rightarrow> u64 \<Rightarrow> 'w \<Rightarrow> 'w" where
  "sendIPI fw hart_mask hartid_base w = snd (sbi_ecall fw SBI_EXT_IPI 0 [hart_mask, hartid_base] w)"

definition getHartState :: "'w sbi \<Rightarrow> u64 \<Rightarrow> 'w \<Rightarrow> int \<times> 'w" where
  "getHartState fw hartid w =
     (let (r, w') = sbi_ecall fw SBI_EXT_HSM 2 [hartid] w in
      (if sbi_error r \<noteq> 0 then sbi_error r else sbi_value r, w'))"

definition startHart :: "'w sbi \<Rightarrow> u64 \<Rightarrow> u64 \<Rightarrow> u64 \<Rightarrow> 'w \<Rightarrow> int \<times> 'w" where
  "startHart fw hartid start_addr arg = ext_error fw SBI_EXT_HSM 0 [hartid, start_addr, arg]"

definition stopHart :: "'w sbi \<Rightarrow> 'w \<Rightarrow> int \<times> 'w" where
  "stopHart fw = ext_error fw SBI_EXT_HSM 1 []"

definition suspendHart :: "'w sbi \<Rightarrow> u32 \<Rightarrow> u64 \<Rightarrow> u64 \<Rightarrow> 'w \<Rightarrow> int \<times> 'w" where
  "suspendHart fw suspend_type resume_addr arg = ext_error fw SBI_EXT_HSM 3 [ucast suspend_type, resume_addr, arg]"

datatype ResetType = Shutdown | ColdReboot | WarmReboot
datatype ResetReason = NoReason | SystemFailure

fun reset_code :: "ResetType \<Rightarrow> u64" where
  "reset_code Shutdown = 0" | "reset_code ColdReboot = 1" | "reset_code WarmReboot = 2"

fun reason_code :: "ResetReason \<Rightarrow> u64" where
  "reason_code NoReason = 0" | "reason_code SystemFailure = 1"

definition sbi_reset :: "'w sbi \<Rightarrow> ResetType \<Rightarrow> ResetReason \<Rightarrow> 'w \<Rightarrow> int \<times> 'w" where
  "sbi_reset fw t r = ext_error fw SBI_EXT_SRST 0 [reset_code t, reason_code r]"

definition fenceI :: "'w sbi \<Rightarrow> u64 \<Rightarrow> u64 \<Rightarrow> 'w \<Rightarrow> int \<times> 'w" where
  "fenceI fw hart_mask hartid_base = ext_error fw SBI_EXT_RFENCE 0 [hart_mask, hartid_base]"

definition sfenceVMA :: "'w sbi \<Rightarrow> u64 \<Rightarrow> u64 \<Rightarrow> u64 \<Rightarrow> u64 \<Rightarrow> 'w \<Rightarrow> int \<times> 'w" where
  "sfenceVMA fw hart_mask hartid_base start_addr sz = ext_error fw SBI_EXT_RFENCE 1 [hart_mask, hartid_base, start_addr, sz]"

definition sfenceVMA_asid :: "'w sbi \<Rightarrow> u64 \<Rightarrow> u64 \<Rightarrow> u64 \<Rightarrow> u64 \<Rightarrow> u64 \<Rightarrow> 'w \<Rightarrow> int \<times> 'w" where
  "sfenceVMA_asid fw hart_mask hartid_base start_addr sz asid =
     ext_error fw SBI_EXT_RFENCE 2 [hart_mask, hartid_base, start_addr, sz, asid]"

definition err_str :: "string list" where
  "err_str = [''SBI_SUCCESS'', ''SBI_ERR_FAILED'', ''SBI_ERR_NOT_SUPPORTED'', ''SBI_ERR_INVALID_PARAM'', ''SBI_ERR_DENIED'',
     ''SBI_ERR_INVALID_ADDRESS'', ''SBI_ERR_ALREADY_AVAILABLE'', ''SBI_ERR_ALREADY_STARTED'', ''SBI_ERR_ALREADY_STOPPED'',
     ''SBI_ERR_NO_SHMEM'']"

definition getErrorStr :: "int \<Rightarrow> string" where
  "getErrorStr err =
     (if err \<ge> 0 then err_str ! 0
      else if err < 0 \<and> err > -10 then err_str ! nat (- err)
      else ''SBI_ERR_UNKNOWN'')"

section \<open>What the wrappers show of the firmware\<close>

text \<open>A result of the firmware that fits its SBI type reaches the caller unchanged, whichever of
  \<open>error\<close> and \<open>value\<close> the wrapper returns.\<close>

lemma sbi_ecall_ret:
  assumes "fw \<lparr>reg_a7 = of_int ext, reg_a6 = of_int fid, reg_args = take 6 (args @ replicate 6 0)\<rparr> w =
     ((of_int e, of_int v), w')" "e \<in> {- (2 ^ 63)..<2 ^ 63}" "v \<in> {- (2 ^ 63)..<2 ^ 63}"
  shows "sbi_ecall fw ext fid args w = (\<lparr>sbi_error = e, sbi_value = v\<rparr>, w')"
proof -
  have "sint (of_int x :: u64) = x" if "x \<in> {- (2 ^ 63)..<2 ^ 63}" for x
    using that by (simp add: signed_of_int signed_take_bit_int_eq_self)
  then show ?thesis using assms by (simp add: sbi_ecall_def)
qed

text \<open>\<open>probeExtension\<close> drops its argument: whatever extension it is asked for, the firmware sees a
  query for extension 0. \<open>available\<close> of the extension classes passes it on.\<close>

lemma probeExtension_ignores: "probeExtension fw e w = probeExtension fw e' w"
  by (simp add: probeExtension_def)

lemma probeExtension_zero: "probeExtension fw e w = sbi_available fw 0 w"
proof -
  have "take 6 ([] @ replicate 6 (0 :: u64)) = take 6 ([0] @ replicate 6 0)" by (simp add: numeral_eq_Suc)
  then show ?thesis by (simp only: probeExtension_def base_value_def sbi_available_def sbi_ecall_def of_int_0)
qed

text \<open>The table of messages is read inside its bounds for every code.\<close>

lemma getErrorStr_cases:
  "getErrorStr err = (if err \<ge> 0 then ''SBI_SUCCESS'' else if nat (- err) < length err_str then err_str ! nat (- err)
     else ''SBI_ERR_UNKNOWN'')"
  by (auto simp: getErrorStr_def err_str_def)

lemma getImplName_in: "i < 9 \<Longrightarrow> getImplName i \<in> set impls"
proof -
  assume "i < 9"
  then have "unat i < length impls" by (simp add: impls_def word_less_nat_alt)
  with \<open>i < 9\<close> show ?thesis by (simp add: getImplName_def)
qed

end
