(* ===== verification/Drvif.thy ===== *)
theory Drvif
  imports Fdt_Helper Stdmap
begin

text \<open>Model of \<^verbatim>\<open>kernel/inc/k_drvif.h\<close> and \<^verbatim>\<open>kernel/main/k_drvif.cpp\<close>: the list of drivers, the table
  of installed devices and the walk over the device tree that fills it. The virtual methods of
  \<open>DriverBase\<close> are a record of operations, because a driver may call the manager back while it adds
  a device; the locale \<open>driver_if\<close> is what the manager relies on.\<close>

section \<open>Drivers and the table of devices\<close>

datatype dev_type_t = DEV_TYPE_NONE | DEV_TYPE_SYS | DEV_TYPE_PERIP | DEV_TYPE_CHAR | DEV_TYPE_BLOCK

fun dev_type_no :: "dev_type_t \<Rightarrow> nat" where
  "dev_type_no DEV_TYPE_NONE = 0"
| "dev_type_no DEV_TYPE_SYS = 1"
| "dev_type_no DEV_TYPE_PERIP = 0x80"
| "dev_type_no DEV_TYPE_CHAR = 0x81"
| "dev_type_no DEV_TYPE_BLOCK = 0x82"

record 'd drvmgr =
  drvlist :: "'d list"
  devhdl :: "(int, 'd \<times> int \<times> int) stdmap"

text \<open>The methods of a driver. A string argument is \<^const>\<open>None\<close> when it is not terminated inside the
  memory of the tree, and reading it then traps.\<close>

record ('d, 's) driver_ops =
  op_probe :: "'d \<Rightarrow> u8 list option \<Rightarrow> u8 list option \<Rightarrow> int option"
  op_addDevice :: "'d \<Rightarrow> bmem \<Rightarrow> int \<Rightarrow> 's \<Rightarrow> (int \<times> 's) option"
  op_type :: "'d \<Rightarrow> dev_type_t"

definition addDriver :: "'d \<Rightarrow> ('d, 'z) drvmgr_scheme \<Rightarrow> ('d, 'z) drvmgr_scheme" where
  "addDriver drv s = s\<lparr>drvlist := drvlist s @ [drv]\<rparr>"

definition removeDriver :: "'d \<Rightarrow> ('d, 'z) drvmgr_scheme \<Rightarrow> ('d, 'z) drvmgr_scheme" where
  "removeDriver drv s = s\<lparr>drvlist := remove1 drv (drvlist s)\<rparr>"

definition markInstalled ::
  "bmem \<Rightarrow> int \<Rightarrow> int \<Rightarrow> 'd \<Rightarrow> int \<Rightarrow> ('d, 'z) drvmgr_scheme \<Rightarrow> (int \<times> ('d, 'z) drvmgr_scheme) option" where
  "markInstalled fdt node handler drv drv_cap s = do {
     (rc, _) \<leftarrow> fdt_get_name fdt node;
     if rc = None then Some (-1, s)
     else Some (0, s\<lparr>devhdl := map_insert node (drv, drv_cap, handler) (devhdl s)\<rparr>)
   }"

fun getDriverByProbe ::
  "('d \<Rightarrow> u8 list option \<Rightarrow> u8 list option \<Rightarrow> int option) \<Rightarrow> u8 list \<Rightarrow> u8 list \<Rightarrow> 'd list \<Rightarrow> 'd option option" where
  "getDriverByProbe pr name compatible [] = Some None"
| "getDriverByProbe pr name compatible (d # ds) = do {
     rc \<leftarrow> pr d (Some name) (Some compatible);
     if rc > 0 then Some (Some d) else getDriverByProbe pr name compatible ds
   }"

definition type_match :: "dev_type_t \<Rightarrow> dev_type_t \<Rightarrow> bool" where
  "type_match type dt \<longleftrightarrow> (type = DEV_TYPE_PERIP \<and> dev_type_no dt > dev_type_no type) \<or>
     (type = DEV_TYPE_NONE \<and> dev_type_no dt > dev_type_no type) \<or> type = dt"

fun find_driver ::
  "('d, 's) driver_ops \<Rightarrow> dev_type_t \<Rightarrow> u8 list option \<Rightarrow> u8 list option \<Rightarrow> 'd list \<Rightarrow> ('d \<times> int) option option" where
  "find_driver V type name compatible [] = Some None"
| "find_driver V type name compatible (d # ds) =
     (if type_match type (op_type V d) then do {
        rc \<leftarrow> op_probe V d name compatible;
        if rc > 0 then Some (Some (d, rc)) else find_driver V type name compatible ds
      }
      else find_driver V type name compatible ds)"

text \<open>The string \<open>prop->data\<close> of the property \<open>compatible\<close>, the empty string without one; the data
  follow the tag, the length and the offset of the name.\<close>

definition node_compatible :: "bmem \<Rightarrow> int \<Rightarrow> u8 list option option" where
  "node_compatible fdt node = do {
     (prop, _) \<leftarrow> fdt_get_property fdt node (lit ''compatible'');
     Some (case prop of None \<Rightarrow> Some [] | Some p \<Rightarrow> cstr fdt (p + 12))
   }"

definition try_node ::
  "('d, ('d, 'z) drvmgr_scheme) driver_ops \<Rightarrow> bmem \<Rightarrow> int \<Rightarrow> dev_type_t \<Rightarrow> ('d, 'z) drvmgr_scheme \<Rightarrow>
    (int \<times> ('d, 'z) drvmgr_scheme) option" where
  "try_node V fdt node type s =
     (case map_find (devhdl s) node of
        Some (_, cap, _) \<Rightarrow> Some (cap, s)
      | None \<Rightarrow> do {
          (node_name, _) \<leftarrow> fdt_get_name fdt node;
          (case node_name of
             None \<Rightarrow> Some (-1, s)
           | Some a \<Rightarrow> do {
               compatible \<leftarrow> node_compatible fdt node;
               drv \<leftarrow> find_driver V type (cstr fdt a) compatible (drvlist s);
               (case drv of
                  None \<Rightarrow> Some (0, s)
                | Some (d, rc) \<Rightarrow> do {
                    (hdl, s') \<leftarrow> op_addDevice V d fdt node s;
                    Some (rc, if hdl \<ge> 0 then s'\<lparr>devhdl := map_insert node (d, rc, hdl) (devhdl s')\<rparr> else s')
                  })
             })
        })"

text \<open>The recursion of \<open>probe\<close> and the loop over the children in its body, which handles a child one
  round late: \<open>Node n\<close> is a call for the node \<open>n\<close>, \<open>Children c p\<close> the loop at the child \<open>c\<close> with \<open>prev\<close>
  equal to \<open>p\<close>.\<close>

datatype probe_pc = Node int | Children int int

partial_function (option) probe_go ::
  "('d, ('d, 'z) drvmgr_scheme) driver_ops \<Rightarrow> bmem \<Rightarrow> dev_type_t \<Rightarrow> probe_pc \<Rightarrow> ('d, 'z) drvmgr_scheme \<Rightarrow>
    (int \<times> ('d, 'z) drvmgr_scheme) option" where
  "probe_go V fdt type pc s =
     (case pc of
        Node node \<Rightarrow> do {
          (tret, s1) \<leftarrow> try_node V fdt node type s;
          if tret < 0 then Some (-1, s1)
          else if tret > 1 then Some (0, s1)
          else do {
            c \<leftarrow> fdt_first_subnode fdt node;
            if c \<ge> 0 then probe_go V fdt type (Children c (-1)) s1 else Some (0, s1)
          }
        }
      | Children child prev \<Rightarrow>
          if child \<ge> 0 then do {
            (_, s1) \<leftarrow> (if prev \<ge> 0 then probe_go V fdt type (Node prev) s else Some (0, s));
            c \<leftarrow> fdt_next_subnode fdt child;
            probe_go V fdt type (Children c child) s1
          }
          else do {
            (_, s1) \<leftarrow> probe_go V fdt type (Node prev) s;
            Some (0, s1)
          })"

definition drv_probe ::
  "('d, ('d, 'z) drvmgr_scheme) driver_ops \<Rightarrow> bmem \<Rightarrow> dev_type_t \<Rightarrow> int \<Rightarrow> ('d, 'z) drvmgr_scheme \<Rightarrow>
    (int \<times> ('d, 'z) drvmgr_scheme) option" where
  "drv_probe V fdt type node s = probe_go V fdt type (Node node) s"

definition getDrvByPath :: "bmem \<Rightarrow> u8 list \<Rightarrow> ('d, 'z) drvmgr_scheme \<Rightarrow> (int \<times> 'd option) option" where
  "getDrvByPath fdt path s = do {
     rc \<leftarrow> fdt_path_offset fdt path;
     if rc < 0 then Some (K_ENODEV, None)
     else Some (case map_find (devhdl s) rc of
        None \<Rightarrow> (K_ENODEV, None)
      | Some (d, _, h) \<Rightarrow> (h, Some d))
   }"

declare probe_go.simps [code]

section \<open>The interface of a driver\<close>

text \<open>\<open>table_ok valid fdt s\<close>: every entry of the table belongs to a node of the tree and to a driver of
  the list, has a capability that stands for success and a handle the driver knows for that node. \<open>extends s s'\<close>:
  no driver was added or removed and every installed device is still installed as it was.\<close>

definition table_ok ::
  "(bmem \<Rightarrow> int \<Rightarrow> 'd \<Rightarrow> int \<Rightarrow> ('d, 'z) drvmgr_scheme \<Rightarrow> bool) \<Rightarrow> bmem \<Rightarrow> ('d, 'z) drvmgr_scheme \<Rightarrow> bool" where
  "table_ok valid fdt s \<longleftrightarrow> smap (devhdl s) \<and>
     (\<forall>node d cap h. map_find (devhdl s) node = Some (d, cap, h) \<longrightarrow>
        d \<in> set (drvlist s) \<and> 0 < cap \<and> 0 \<le> h \<and> valid fdt node d h s \<and> (\<exists>a l. fdt_get_name fdt node = Some (Some a, l)))"

definition extends :: "('d, 'z) drvmgr_scheme \<Rightarrow> ('d, 'z) drvmgr_scheme \<Rightarrow> bool" where
  "extends s s' \<longleftrightarrow> drvlist s' = drvlist s \<and>
     (\<forall>node e. map_find (devhdl s) node = Some e \<longrightarrow> map_find (devhdl s') node = Some e)"

lemma extends_refl [simp]: "extends s s"
  by (simp add: extends_def)

lemma extends_trans: "extends s s' \<Longrightarrow> extends s' s'' \<Longrightarrow> extends s s''"
  by (simp add: extends_def)

lemma find_driver_in: "find_driver V type n c ds = Some (Some (d, rc)) \<Longrightarrow> d \<in> set ds \<and> 0 < rc"
  by (induction ds) (auto split: if_splits bind_splits)

lemma table_mono:
  assumes "table_ok valid fdt s" "devhdl s' = devhdl s" "drvlist s' = drvlist s" "\<And>n d h. valid fdt n d h s \<Longrightarrow> valid fdt n d h s'"
  shows "table_ok valid fdt s' \<and> extends s s'"
  using assms by (simp add: table_ok_def extends_def)

lemma table_insert:
  assumes "table_ok valid fdt s" "devhdl s' = map_insert node (d, cap, h) (devhdl s)" "drvlist s' = drvlist s"
    "\<And>n d h. valid fdt n d h s \<Longrightarrow> valid fdt n d h s'" "d \<in> set (drvlist s)" "0 < cap" "0 \<le> h" "valid fdt node d h s'"
    "fdt_get_name fdt node = Some (Some a, l)"
  shows "table_ok valid fdt s' \<and> extends s s'"
  using assms by (auto simp: table_ok_def extends_def find_insert split: if_splits)

locale driver_if =
  fixes V :: "('d, ('d, 'z) drvmgr_scheme) driver_ops" and type :: dev_type_t
    and valid :: "bmem \<Rightarrow> int \<Rightarrow> 'd \<Rightarrow> int \<Rightarrow> ('d, 'z) drvmgr_scheme \<Rightarrow> bool" and inv :: "('d, 'z) drvmgr_scheme \<Rightarrow> bool"
  assumes add_law: "\<And>d fdt node s h s' a l c rc. op_addDevice V d fdt node s = Some (h, s') \<Longrightarrow> table_ok valid fdt s \<Longrightarrow>
      inv s \<Longrightarrow> fdt_get_name fdt node = Some (Some a, l) \<Longrightarrow> find_driver V type (cstr fdt a) c (drvlist s) = Some (Some (d, rc)) \<Longrightarrow>
      table_ok valid fdt s' \<and> inv s' \<and> extends s s' \<and> (0 \<le> h \<longrightarrow> valid fdt node d h s')"
    and valid_frame: "\<And>fdt node d h x s. valid fdt node d h (s\<lparr>devhdl := x\<rparr>) = valid fdt node d h s"
    and inv_frame: "\<And>x s. inv (s\<lparr>devhdl := x\<rparr>) = inv s"
begin

lemma try_keeps:
  assumes t: "try_node V fdt node type s = Some (r, s')" and s: "table_ok valid fdt s" "inv s"
  shows "table_ok valid fdt s' \<and> inv s' \<and> extends s s'"
proof (cases "map_find (devhdl s) node")
  case (Some e)
  with t s show ?thesis by (cases e) (auto simp: try_node_def)
next
  case None
  with t obtain nm l where n: "fdt_get_name fdt node = Some (nm, l)" by (auto simp: try_node_def split: bind_splits)
  show ?thesis
  proof (cases nm)
    case None
    with n \<open>map_find (devhdl s) node = None\<close> t s show ?thesis by (auto simp: try_node_def)
  next
    case (Some a)
    with n None t obtain c f where c: "node_compatible fdt node = Some c" "find_driver V type (cstr fdt a) c (drvlist s) = Some f"
      by (auto simp: try_node_def split: bind_splits)
    show ?thesis
    proof (cases f)
      case None
      with n Some c \<open>map_find (devhdl s) node = None\<close> t s show ?thesis by (auto simp: try_node_def)
    next
      case f: (Some p)
      obtain d rc where p: "p = (d, rc)" by (cases p)
      have d: "d \<in> set (drvlist s)" "0 < rc" using find_driver_in [of V type "cstr fdt a" c "drvlist s" d rc] c(2) f p by auto
      obtain h s1 where a: "op_addDevice V d fdt node s = Some (h, s1)"
        and s': "s' = (if 0 \<le> h then s1\<lparr>devhdl := map_insert node (d, rc, h) (devhdl s1)\<rparr> else s1)"
        using n Some c f p \<open>map_find (devhdl s) node = None\<close> t by (auto simp: try_node_def split: bind_splits)
      have s1: "table_ok valid fdt s1" "inv s1" "extends s s1" "0 \<le> h \<longrightarrow> valid fdt node d h s1"
        using add_law [OF a s] n Some c(2) f p by blast+
      show ?thesis
      proof (cases "0 \<le> h")
        case True
        have "d \<in> set (drvlist s1)" using d(1) s1(3) by (simp add: extends_def)
        from table_insert [OF s1(1) _ _ _ this d(2) True, of s' node a l] True s' s1 n Some extends_trans [OF s1(3)]
        show ?thesis by (simp add: inv_frame valid_frame)
      qed (use s' s1 in simp)
    qed
  qed
qed

lemma probe_keeps:
  assumes "probe_go V fdt type pc s = Some (r, s')" "table_ok valid fdt s" "inv s"
  shows "table_ok valid fdt s' \<and> inv s' \<and> extends s s'"
proof -
  have "V' = V \<longrightarrow> type' = type \<longrightarrow> table_ok valid fdt s \<longrightarrow> inv s \<longrightarrow> table_ok valid fdt (snd y) \<and> inv (snd y) \<and> extends s (snd y)"
    if "probe_go V' fdt type' pc s = Some y" for V' fdt type' pc s y
  proof (rule probe_go.raw_induct [OF _ that], intro impI)
    fix f :: "('d, ('d, 'z) drvmgr_scheme) driver_ops \<Rightarrow> bmem \<Rightarrow> dev_type_t \<Rightarrow> probe_pc \<Rightarrow> ('d, 'z) drvmgr_scheme \<Rightarrow>
      (int \<times> ('d, 'z) drvmgr_scheme) option" and V' fdt type' pc s y
    assume IH: "\<And>V' fdt type' pc s y. f V' fdt type' pc s = Some y \<Longrightarrow> V' = V \<longrightarrow> type' = type \<longrightarrow> table_ok valid fdt s \<longrightarrow> inv s \<longrightarrow>
        table_ok valid fdt (snd y) \<and> inv (snd y) \<and> extends s (snd y)"
    assume b: "(case pc of
        Node node \<Rightarrow> do {
          (tret, s1) \<leftarrow> try_node V' fdt node type' s;
          if tret < 0 then Some (-1, s1)
          else if tret > 1 then Some (0, s1)
          else do {
            c \<leftarrow> fdt_first_subnode fdt node;
            if c \<ge> 0 then f V' fdt type' (Children c (-1)) s1 else Some (0, s1)
          }
        }
      | Children child prev \<Rightarrow>
          if child \<ge> 0 then do {
            (_, s1) \<leftarrow> (if prev \<ge> 0 then f V' fdt type' (Node prev) s else Some (0, s));
            c \<leftarrow> fdt_next_subnode fdt child;
            f V' fdt type' (Children c child) s1
          }
          else do {
            (_, s1) \<leftarrow> f V' fdt type' (Node prev) s;
            Some (0, s1)
          }) = Some y" "V' = V" "type' = type" "table_ok valid fdt s" "inv s"
    have ih: "table_ok valid fdt s2 \<and> inv s2 \<and> extends s s2"
      if "f V fdt type pc' s1 = Some (r, s2)" "table_ok valid fdt s1" "inv s1" "extends s s1" for pc' s1 r s2
      using IH [OF that(1)] that(2-4) extends_trans [OF that(4)] by simp
    show "table_ok valid fdt (snd y) \<and> inv (snd y) \<and> extends s (snd y)"
    proof (cases pc)
      case (Node node)
      obtain tret s1 where t: "try_node V fdt node type s = Some (tret, s1)" using b(1-3) Node by (auto split: bind_splits)
      with try_keeps [OF t b(4,5)] ih [of _ s1 "fst y" "snd y"] b(1-3) Node show ?thesis
        by (auto split: bind_splits if_splits)
    next
      case (Children child prev)
      obtain q s1 where q: "(if 0 \<le> prev \<or> child < 0 then f V fdt type (Node prev) s else Some (0, s)) = Some (q, s1)"
        using b(1-3) Children by (auto split: bind_splits if_splits)
      have k: "table_ok valid fdt s1 \<and> inv s1 \<and> extends s s1"
        using q b(4,5) ih [of _ s q s1] by (auto split: if_splits)
      with q b(1-3) Children ih [of _ s1 "fst y" "snd y"] show ?thesis
        by (auto split: bind_splits if_splits)
    qed
  qed
  from this [OF assms(1)] assms(2,3) show ?thesis by simp
qed

end

section \<open>The walk ends\<close>

lemma first_subnode_total:
  assumes m: "fdt_mapped fdt" and o: "int32 off" "0 \<le> off"
  shows "\<exists>c. fdt_first_subnode fdt off = Some c \<and> int32 c \<and> (0 \<le> c \<longrightarrow> off < c)"
proof -
  obtain o' d' where "fdt_next_node fdt off (Some 0) = Some (o', d')" "int32 o'" "0 \<le> o' \<longrightarrow> off < o'"
    using next_node_total [OF m o(1), of "Some 0"] o(2) by auto
  then show ?thesis by (auto simp: fdt_first_subnode_def int32_def fdt_errs)
qed

text \<open>Every call for a node and every round of the loop over the children works on a greater offset
  than the one before it.\<close>

definition probe_measure :: "probe_pc \<Rightarrow> nat" where
  "probe_measure pc = (case pc of Node n \<Rightarrow> 3 * mu32 n | Children c p \<Rightarrow> if 0 \<le> p then 3 * mu32 p + 1 else 3 * mu32 c + 2)"

definition pc_ok :: "probe_pc \<Rightarrow> bool" where
  "pc_ok pc = (case pc of Node n \<Rightarrow> 0 \<le> n \<and> int32 n
     | Children c p \<Rightarrow> int32 c \<and> int32 p \<and> (0 \<le> c \<or> 0 \<le> p) \<and> (0 \<le> c \<longrightarrow> p < c))"

lemma probe_total:
  assumes m: "fdt_mapped fdt"
    and tn: "\<And>node s. 0 \<le> node \<Longrightarrow> int32 node \<Longrightarrow> I s \<Longrightarrow> \<exists>r s'. try_node V fdt node type s = Some (r, s') \<and> I s'"
  shows "pc_ok pc \<Longrightarrow> I s \<Longrightarrow> \<exists>r s'. probe_go V fdt type pc s = Some (r, s') \<and> I s'"
proof (induction "probe_measure pc" arbitrary: pc s rule: less_induct)
  case less
  show ?case
  proof (cases pc)
    case (Node n)
    then have n: "0 \<le> n" "int32 n" using less.prems by (simp_all add: pc_ok_def)
    obtain t s1 where t: "try_node V fdt n type s = Some (t, s1)" "I s1" using tn [OF n less.prems(2)] by blast
    obtain c where c: "fdt_first_subnode fdt n = Some c" "int32 c" "0 \<le> c \<longrightarrow> n < c"
      using first_subnode_total [OF m n(2,1)] by blast
    have "\<exists>r s'. probe_go V fdt type (Children c (-1)) s1 = Some (r, s') \<and> I s'" if "0 \<le> c"
      using that c mu32_less [OF n, of c] t(2) Node
      by (intro less.hyps) (auto simp: probe_measure_def pc_ok_def int32_def)
    then show ?thesis using t c Node by (subst probe_go.simps) auto
  next
    case (Children c p)
    note k = less.prems(1) [unfolded Children pc_ok_def probe_pc.case]
    have pr: "\<exists>r s'. probe_go V fdt type (Node p) s = Some (r, s') \<and> I s'" if "0 \<le> p"
      using that k less.prems(2) Children by (intro less.hyps) (auto simp: probe_measure_def pc_ok_def)
    show ?thesis
    proof (cases "0 \<le> c")
      case False
      with pr k Children show ?thesis by (subst probe_go.simps) auto
    next
      case True
      obtain q s1 where q: "(if 0 \<le> p then probe_go V fdt type (Node p) s else Some (0, s)) = Some (q, s1)" "I s1"
        using pr less.prems(2) by (cases "0 \<le> p") auto
      obtain c' where c': "fdt_next_subnode fdt c = Some c'" "int32 c'" "0 \<le> c' \<longrightarrow> c < c'"
        using next_subnode_loop_total [OF m True, of 1] k by (auto simp: fdt_next_subnode_def)
      have "\<exists>r s'. probe_go V fdt type (Children c' c) s1 = Some (r, s') \<and> I s'"
        using True k c' q(2) Children mu32_less [of p c] by (intro less.hyps) (auto simp: probe_measure_def pc_ok_def)
      with True q c' Children show ?thesis by (subst probe_go.simps) auto
    qed
  qed
qed

end
