(* ===== verification/Uart8250.thy ===== *)
theory Uart8250
  imports Drvif
begin

text \<open>Model of \<^verbatim>\<open>kernel/driver/virt/uart8250.cpp\<close>. The device itself is an argument: the accesses of
  \<^verbatim>\<open>kernel/inc/sbi/riscv_io.h\<close> are functions of the width in bytes, the address and the state of the
  machine. A property that the code reads as a 32-bit cell is read as such whatever its length.\<close>

section \<open>Registers\<close>

definition UART_DLL_OFFSET :: u32 where "UART_DLL_OFFSET = 0"
definition UART_DLM_OFFSET :: u32 where "UART_DLM_OFFSET = 1"
definition UART_RBR_OFFSET :: u32 where "UART_RBR_OFFSET = 0"
definition UART_THR_OFFSET :: u32 where "UART_THR_OFFSET = 0"
definition UART_IER_OFFSET :: u32 where "UART_IER_OFFSET = 1"
definition UART_FCR_OFFSET :: u32 where "UART_FCR_OFFSET = 2"
definition UART_LCR_OFFSET :: u32 where "UART_LCR_OFFSET = 3"
definition UART_MCR_OFFSET :: u32 where "UART_MCR_OFFSET = 4"
definition UART_LSR_OFFSET :: u32 where "UART_LSR_OFFSET = 5"
definition UART_SCR_OFFSET :: u32 where "UART_SCR_OFFSET = 7"
definition UART_LSR_THRE :: u32 where "UART_LSR_THRE = 0x20"
definition UART_LSR_DR :: u32 where "UART_LSR_DR = 0x01"

record 'w mmio =
  mm_read :: "nat \<Rightarrow> u64 \<Rightarrow> 'w \<Rightarrow> u32 \<times> 'w"
  mm_write :: "nat \<Rightarrow> u32 \<Rightarrow> u64 \<Rightarrow> 'w \<Rightarrow> 'w"

record uart8250_t =
  u_base :: u64
  freq :: u32
  baud :: u32
  reg_width :: u32
  reg_shift :: u32
  opened :: bool

definition default_freq :: u32 where "default_freq = 0"
definition default_baud :: u32 where "default_baud = 115200"
definition default_reg_shift :: u32 where "default_reg_shift = 0"
definition default_reg_width :: u32 where "default_reg_width = 1"
definition default_reg_offset :: u32 where "default_reg_offset = 0"

text \<open>The shift is the instruction \<open>sllw\<close>, which uses the low five bits of the count.\<close>

definition reg_addr :: "uart8250_t \<Rightarrow> u32 \<Rightarrow> u64" where
  "reg_addr u num = u_base u + ucast (push_bit (unat (reg_shift u) mod 32) num)"

definition io_width :: "uart8250_t \<Rightarrow> nat" where
  "io_width u = (if reg_width u = 1 then 1 else if reg_width u = 2 then 2 else 4)"

definition get_reg :: "'w mmio \<Rightarrow> uart8250_t \<Rightarrow> u32 \<Rightarrow> 'w \<Rightarrow> u32 \<times> 'w" where
  "get_reg io u num w =
     (let (v, w') = mm_read io (io_width u) (reg_addr u num) w in (take_bit (8 * io_width u) v, w'))"

definition uset_reg :: "'w mmio \<Rightarrow> uart8250_t \<Rightarrow> u32 \<Rightarrow> u32 \<Rightarrow> 'w \<Rightarrow> 'w" where
  "uset_reg io u num val w = mm_write io (io_width u) (take_bit (8 * io_width u) val) (reg_addr u num) w"

section \<open>Adding a device\<close>

definition uart_probe :: "u8 list option \<Rightarrow> u8 list option \<Rightarrow> int option" where
  "uart_probe name compatible = do {
     c \<leftarrow> compatible;
     Some (if c = lit ''ns16550'' \<or> c = lit ''ns16550a'' \<or> c = lit ''snps,dw-apb-uart'' then DRV_CAP_THIS else DRV_CAP_NONE)
   }"

definition prop32 :: "bmem \<Rightarrow> int \<Rightarrow> u8 list \<Rightarrow> u32 \<Rightarrow> u32 option" where
  "prop32 fdt node name dflt = do {
     (val, len) \<leftarrow> fdt_getprop fdt node name;
     (case val of
        None \<Rightarrow> Some dflt
      | Some a \<Rightarrow> if len > 0 then fdt32_ld fdt a else Some dflt)
   }"

text \<open>The divisor is computed with 32-bit unsigned arithmetic and stored in 16 bits; a divisor that
  wraps to 0 is a division by zero.\<close>

definition uart_bdiv :: "uart8250_t \<Rightarrow> u16 option" where
  "uart_bdiv u =
     (if baud u = 0 then Some 0
      else if 16 * baud u = 0 then None
      else Some (ucast ((freq u + 8 * baud u) div (16 * baud u))))"

definition uart_init :: "'w mmio \<Rightarrow> uart8250_t \<Rightarrow> u16 \<Rightarrow> 'w \<Rightarrow> 'w" where
  "uart_init io u bdiv w =
     (let w = uset_reg io u UART_IER_OFFSET 0x00 w;
          w = uset_reg io u UART_LCR_OFFSET 0x80 w;
          w = (if bdiv \<noteq> 0
               then uset_reg io u UART_DLM_OFFSET (drop_bit 8 (ucast bdiv) AND 0xff)
                      (uset_reg io u UART_DLL_OFFSET (ucast bdiv AND 0xff) w)
               else w);
          w = uset_reg io u UART_LCR_OFFSET 0x03 w;
          w = uset_reg io u UART_FCR_OFFSET 0x01 w;
          w = uset_reg io u UART_MCR_OFFSET 0x00 w;
          (_, w) = get_reg io u UART_LSR_OFFSET w;
          (_, w) = get_reg io u UART_RBR_OFFSET w in
      uset_reg io u UART_SCR_OFFSET 0x00 w)"

record uart_drv =
  uart_hdl_count :: int
  uart_hdl :: "(int, uart8250_t) stdmap"

text \<open>\<open>base\<close> and \<open>regsize\<close> are not initialised before \<open>fdt_get_node_addr_size\<close> fills them; \<open>junk\<close> is what
  they then hold.\<close>

definition uart_config :: "bmem \<Rightarrow> int \<Rightarrow> u64 \<Rightarrow> uart8250_t option option" where
  "uart_config fdt node junk = do {
     (rc, base, regsize) \<leftarrow> fdt_get_node_addr_size fdt node 0 (Some junk) (Some junk);
     if rc < 0 \<or> base = Some 0 \<or> regsize = Some 0 then Some None
     else do {
       fr \<leftarrow> prop32 fdt node (lit ''clock-frequency'') default_freq;
       bd \<leftarrow> prop32 fdt node (lit ''current-speed'') default_baud;
       sh \<leftarrow> prop32 fdt node (lit ''reg-shift'') default_reg_shift;
       wd \<leftarrow> prop32 fdt node (lit ''reg-io-width'') default_reg_width;
       off \<leftarrow> prop32 fdt node (lit ''reg-offset'') default_reg_offset;
       Some (Some \<lparr>u_base = the base + ucast off + 0xFFFFFFC000000000, freq = fr, baud = bd, reg_width = wd,
                   reg_shift = sh, opened = False\<rparr>)
     }
   }"

definition uart_addDevice ::
  "'w mmio \<Rightarrow> bmem \<Rightarrow> int \<Rightarrow> u64 \<Rightarrow> uart_drv \<Rightarrow> 'w \<Rightarrow> (int \<times> uart_drv \<times> 'w) option" where
  "uart_addDevice io fdt node junk s w = do {
     c \<leftarrow> uart_config fdt node junk;
     (case c of
        None \<Rightarrow> Some (K_ENODEV, s, w)
      | Some u \<Rightarrow> do {
          bdiv \<leftarrow> uart_bdiv u;
          let n = uart_hdl_count s + 1;
          Some (n, s\<lparr>uart_hdl_count := n, uart_hdl := map_insert n u (uart_hdl s)\<rparr>, uart_init io u bdiv w)
        })
   }"

section \<open>The character device\<close>

definition uart_open :: "int \<Rightarrow> uart_drv \<Rightarrow> int \<times> uart_drv" where
  "uart_open handler s =
     (case map_find (uart_hdl s) handler of
        None \<Rightarrow> (K_ENODEV, s)
      | Some u \<Rightarrow>
          if opened u then (K_EALREADY, s)
          else (0, s\<lparr>uart_hdl := map_put handler (u\<lparr>opened := True\<rparr>) (uart_hdl s)\<rparr>))"

definition uart_close :: "int \<Rightarrow> uart_drv \<Rightarrow> int \<times> uart_drv" where
  "uart_close handler s =
     (case map_find (uart_hdl s) handler of
        None \<Rightarrow> (K_ENODEV, s)
      | Some u \<Rightarrow>
          if \<not> opened u then (K_EALREADY, s)
          else (0, s\<lparr>uart_hdl := map_put handler (u\<lparr>opened := False\<rparr>) (uart_hdl s)\<rparr>))"

fun read_loop :: "'w mmio \<Rightarrow> uart8250_t \<Rightarrow> nat \<Rightarrow> 'w \<Rightarrow> u8 list \<times> 'w" where
  "read_loop io u 0 w = ([], w)"
| "read_loop io u (Suc n) w =
     (let (lsr, w1) = get_reg io u UART_LSR_OFFSET w in
      if lsr AND UART_LSR_DR \<noteq> 0 then
        (let (c, w2) = get_reg io u UART_RBR_OFFSET w1;
             (cs, w3) = read_loop io u n w2 in
         (ucast c # cs, w3))
      else ([], w1))"

definition uart_read :: "'w mmio \<Rightarrow> int \<Rightarrow> int \<Rightarrow> uart_drv \<Rightarrow> 'w \<Rightarrow> int \<times> u8 list \<times> 'w" where
  "uart_read io handler len s w =
     (case map_find (uart_hdl s) handler of
        None \<Rightarrow> (K_ENODEV, [], w)
      | Some u \<Rightarrow>
          if len \<le> 0 then (len, [], w)
          else (let (cs, w') = read_loop io u (nat len) w in (int (length cs), cs, w')))"

partial_function (option) wait_thre :: "'w mmio \<Rightarrow> uart8250_t \<Rightarrow> 'w \<Rightarrow> 'w option" where
  "wait_thre io u w =
     (let (lsr, w') = get_reg io u UART_LSR_OFFSET w in
      if lsr AND UART_LSR_THRE = 0 then wait_thre io u w' else Some w')"

fun write_loop :: "'w mmio \<Rightarrow> uart8250_t \<Rightarrow> u8 list \<Rightarrow> 'w \<Rightarrow> 'w option" where
  "write_loop io u [] w = Some w"
| "write_loop io u (c # cs) w = do {
     w' \<leftarrow> wait_thre io u w;
     write_loop io u cs (uset_reg io u UART_THR_OFFSET (ucast c) w')
   }"

definition uart_write :: "'w mmio \<Rightarrow> int \<Rightarrow> u8 list \<Rightarrow> uart_drv \<Rightarrow> 'w \<Rightarrow> (int \<times> 'w) option" where
  "uart_write io handler buf s w =
     (case map_find (uart_hdl s) handler of
        None \<Rightarrow> Some (K_ENODEV, w)
      | Some u \<Rightarrow> do { w' \<leftarrow> write_loop io u buf w; Some (int (length buf), w') })"

definition uart_ioctl :: "int \<Rightarrow> int \<Rightarrow> int" where
  "uart_ioctl handler cmd = 0"

declare wait_thre.simps [code]

section \<open>Properties\<close>

text \<open>Inside the range of the 32-bit arithmetic the divisor is the one nearest to the requested rate.\<close>

lemma uart_bdiv_nearest:
  assumes "baud u \<noteq> 0" "unat (freq u) + 8 * unat (baud u) < 2 ^ 32" "16 * unat (baud u) < 2 ^ 32"
    "(unat (freq u) + 8 * unat (baud u)) div (16 * unat (baud u)) < 2 ^ 16"
  obtains d where "uart_bdiv u = Some d" "16 * unat (baud u) * unat d \<le> unat (freq u) + 8 * unat (baud u)"
    "unat (freq u) < 16 * unat (baud u) * unat d + 8 * unat (baud u)"
proof -
  let ?f = "unat (freq u)" and ?b = "unat (baud u)"
  have b: "0 < ?b" using assms(1) by (simp add: unat_gt_0)
  have e: "unat (16 * baud u) = 16 * ?b" "unat (8 * baud u) = 8 * ?b" using assms(2,3) by (simp_all add: unat_word_ariths)
  then have n: "unat (freq u + 8 * baud u) = ?f + 8 * ?b" using assms(2) by (simp add: unat_word_ariths(1))
  have "16 * baud u \<noteq> 0" using e(1) b by (metis mult_eq_0_iff not_gr0 unat_0 zero_neq_numeral)
  then have d: "uart_bdiv u = Some (ucast ((freq u + 8 * baud u) div (16 * baud u)))" using assms(1) by (simp add: uart_bdiv_def)
  have q: "unat (ucast ((freq u + 8 * baud u) div (16 * baud u)) :: u16) = (?f + 8 * ?b) div (16 * ?b)"
    using assms(4) by (simp add: unsigned_ucast_eq unat_div_distrib n e take_bit_nat_eq_self)
  have "16 * ?b * ((?f + 8 * ?b) div (16 * ?b)) \<le> ?f + 8 * ?b" by simp
  moreover have "?f + 8 * ?b < 16 * ?b * ((?f + 8 * ?b) div (16 * ?b)) + 16 * ?b"
    using mult_div_mod_eq [of "16 * ?b" "?f + 8 * ?b"] mod_less_divisor [of "16 * ?b" "?f + 8 * ?b"] b by linarith
  ultimately show ?thesis using that [OF d] unfolding q by linarith
qed

lemma width_ge: "8 \<le> 8 * io_width u"
  by (simp add: io_width_def)

lemma lsr_bit: "take_bit (8 * io_width u) v AND UART_LSR_THRE = v AND UART_LSR_THRE"
proof -
  have "bit UART_LSR_THRE i \<Longrightarrow> i < 8 * io_width u" for i
    using width_ge [of u] by (auto simp: UART_LSR_THRE_def bit_simps bit_numeral_rec(1) bit_0 split: nat.splits)
  then show ?thesis by (intro bit_word_eqI) (auto simp: bit_simps)
qed

lemma thr_byte: "ucast (take_bit (8 * io_width u) (ucast (c :: u8) :: u32)) = c"
  using width_ge [of u] by (intro bit_word_eqI) (auto simp: bit_simps)

text \<open>The chip, as its data sheet describes it: reading the line status changes nothing that is seen
  from outside and reports an empty holding register after finitely many polls (\<open>busy\<close> counts
  them); a byte stored in an empty holding register is transmitted.\<close>

definition transmits ::
  "'w mmio \<Rightarrow> uart8250_t \<Rightarrow> ('w \<Rightarrow> bool) \<Rightarrow> ('w \<Rightarrow> nat) \<Rightarrow> ('w \<Rightarrow> bool) \<Rightarrow> ('w \<Rightarrow> u8 list) \<Rightarrow> bool" where
  "transmits io u I busy vacant sent \<longleftrightarrow>
     (\<forall>w. I w \<longrightarrow> (case mm_read io (io_width u) (reg_addr u UART_LSR_OFFSET) w of (v, w') \<Rightarrow>
        I w' \<and> sent w' = sent w \<and> (if v AND UART_LSR_THRE = 0 then busy w' < busy w else vacant w'))) \<and>
     (\<forall>w v. I w \<and> vacant w \<longrightarrow> (let w' = mm_write io (io_width u) v (reg_addr u UART_THR_OFFSET) w in
        I w' \<and> sent w' = sent w @ [ucast v]))"

lemma wait_thre_ends:
  assumes t: "transmits io u I busy vacant sent"
  shows "I w \<Longrightarrow> \<exists>w'. wait_thre io u w = Some w' \<and> I w' \<and> vacant w' \<and> sent w' = sent w"
proof (induction "busy w" arbitrary: w rule: less_induct)
  case less
  obtain v w' where r: "mm_read io (io_width u) (reg_addr u UART_LSR_OFFSET) w = (v, w')" by fastforce
  with t less.prems have c: "I w'" "sent w' = sent w" "if v AND UART_LSR_THRE = 0 then busy w' < busy w else vacant w'"
    by (auto simp: transmits_def dest!: spec [of _ w])
  show ?case
  proof (cases "v AND UART_LSR_THRE = 0")
    case True
    then obtain w'' where "wait_thre io u w' = Some w''" "I w''" "vacant w''" "sent w'' = sent w" using less.hyps c by force
    with True r show ?thesis by (subst wait_thre.simps) (simp add: get_reg_def lsr_bit)
  next
    case False
    with r c show ?thesis by (subst wait_thre.simps) (simp add: get_reg_def lsr_bit)
  qed
qed

text \<open>C20: A \<open>write\<close> to an installed UART returns, reports the length of the buffer and has the chip
  transmit exactly the bytes of the buffer in their order, whatever the register layout the device tree
  describes, provided the chip behaves as its data sheet says.\<close>

theorem uart_write_sends:
  assumes "map_find (uart_hdl s) h = Some u" and t: "transmits io u I busy vacant sent" and "I w"
  shows "\<exists>w'. uart_write io h buf s w = Some (int (length buf), w') \<and> I w' \<and> sent w' = sent w @ buf"
proof -
  have "\<exists>w'. write_loop io u buf w = Some w' \<and> I w' \<and> sent w' = sent w @ buf" using \<open>I w\<close>
  proof (induction buf arbitrary: w)
    case (Cons c cs)
    obtain w1 where w1: "wait_thre io u w = Some w1" "I w1" "vacant w1" "sent w1 = sent w"
      using wait_thre_ends [OF t Cons.prems] by blast
    define w2 where "w2 = uset_reg io u UART_THR_OFFSET (ucast c) w1"
    have "I w2" "sent w2 = sent w @ [c]"
      using t w1(2-4) by (auto simp: transmits_def w2_def uset_reg_def Let_def thr_byte)
    then obtain w' where "write_loop io u cs w2 = Some w'" "I w'" "sent w' = sent w @ c # cs" using Cons.IH by force
    with w1(1) show ?case by (simp add: w2_def)
  qed simp
  with assms(1) show ?thesis by (auto simp: uart_write_def)
qed

text \<open>A chip that is busy for three polls after every byte.\<close>

definition demo_io :: "(nat \<times> u8 list) mmio" where
  "demo_io = \<lparr>mm_read = (\<lambda>n a w. if a = 0x1005 then (if fst w = 0 then 0x60 else 0, (fst w - 1, snd w)) else (0, w)),
     mm_write = (\<lambda>n v a w. if a = 0x1000 then (3, snd w @ [ucast v]) else w)\<rparr>"

definition demo_uart :: uart8250_t where
  "demo_uart = \<lparr>u_base = 0x1000, freq = 0, baud = 115200, reg_width = 1, reg_shift = 0, opened = False\<rparr>"

lemma demo_transmits: "transmits demo_io demo_uart (\<lambda>_. True) fst (\<lambda>_. True) snd"
  by (auto simp: transmits_def demo_io_def demo_uart_def reg_addr_def UART_LSR_OFFSET_def UART_THR_OFFSET_def UART_LSR_THRE_def)

theorem uart_write_sends_witness:
  "\<exists>w'. uart_write demo_io 0 [0x6f, 0x6b] \<lparr>uart_hdl_count = 0, uart_hdl = [(0, demo_uart)]\<rparr> (1, []) = Some (2, w') \<and>
     snd w' = [0x6f, 0x6b]"
  using uart_write_sends [OF _ demo_transmits, where s = "\<lparr>uart_hdl_count = 0, uart_hdl = [(0, demo_uart)]\<rparr>" and h = 0 and w = "(1, [])"
      and buf = "[0x6f, 0x6b]"]
  by (auto simp: map_find_def)

end
