(* ===== verification/Devices.thy ===== *)
theory Devices
  imports Uart8250 Sched Vfs
begin

text \<open>Model of the system drivers \<^verbatim>\<open>kernel/driver/sysroot.cpp\<close>, \<^verbatim>\<open>kernel/driver/syscpu.cpp\<close> and
  \<^verbatim>\<open>kernel/driver/sysmem.cpp\<close> with the classes of \<^verbatim>\<open>kernel/inc/k_sysdev.h\<close>, and the table of virtual
  methods of all drivers the kernel installs. The state of the drivers extends the state of the
  driver manager, which \<open>SysRoot\<close> calls back. Output of the drivers is left out.\<close>

section \<open>State\<close>

datatype drv = GenericRoot | GenericMem | GenericCPU | RoundRobinScheduler | Drv_Uart8250

record sysroot =
  root_compatible :: "u8 list"
  root_model :: "u8 list"
  stdout_path :: "u8 list"
  bootargs :: "u8 list"
  initrd_path :: "u8 list"
  root_scheduler :: "drv option"

record cpu_t =
  hid :: u64
  cpu_state :: bool
  xlen :: u8
  cpu_mmu :: u8
  extension :: "u8 list"

record syscpu =
  timebase_freq :: u64
  cpus :: "cpu_t list"
  cpu_hdlcount :: int

record sysmem =
  mem_rsv :: "(u64 \<times> u64) list"
  mem_avail :: "(u64 \<times> u64) list"
  rsv_parsed :: bool

record 'w kdev = "drv drvmgr" +
  kroot :: sysroot
  kcpu :: syscpu
  kmem0 :: sysmem
  krr :: rr_sched
  kuart :: uart_drv
  kio :: 'w

section \<open>SysRoot\<close>

definition root_probe :: "u8 list option \<Rightarrow> u8 list option \<Rightarrow> int option" where
  "root_probe name compatible = do {
     n \<leftarrow> name;
     Some (if n = [] then DRV_CAP_THIS else DRV_CAP_NONE)
   }"

text \<open>The string \<open>prop->data\<close> of a property, or a default without the property.\<close>

definition prop_str :: "bmem \<Rightarrow> int \<Rightarrow> u8 list \<Rightarrow> u8 list \<Rightarrow> u8 list option" where
  "prop_str fdt node name dflt = do {
     (p, _) \<leftarrow> fdt_get_property fdt node name;
     (case p of None \<Rightarrow> Some dflt | Some a \<Rightarrow> cstr fdt (a + 12))
   }"

text \<open>An address of one or two cells; 0 for any other length.\<close>

definition prop_addr :: "bmem \<Rightarrow> int \<Rightarrow> u8 list \<Rightarrow> u64 option option" where
  "prop_addr fdt node name = do {
     (p, len) \<leftarrow> fdt_get_property fdt node name;
     (case p of
        None \<Rightarrow> Some None
      | Some a \<Rightarrow>
          if len = 4 then map_option (\<lambda>v. Some (ucast v)) (fdt32_ld fdt (a + 12))
          else if len = 8 then map_option Some (fdt64_ld fdt (a + 12))
          else Some (Some 0))
   }"

definition initrd_of :: "bmem \<Rightarrow> int \<Rightarrow> u8 list \<Rightarrow> u8 list option" where
  "initrd_of fdt node old = do {
     st \<leftarrow> prop_addr fdt node (lit ''linux,initrd-start'');
     (case st of
        None \<Rightarrow> Some old
      | Some t \<Rightarrow> do {
          en \<leftarrow> prop_addr fdt node (lit ''linux,initrd-end'');
          let e = (case en of None \<Rightarrow> 0 | Some e \<Rightarrow> e);
          Some (if t \<noteq> 0 \<and> e \<noteq> 0 \<and> e > t
                then (let t' = t OR 0xFFFFFFC000000000; e' = e OR 0xFFFFFFC000000000 in
                      dec (unat t') @ lit '','' @ dec (unat (e' - t')))
                else old)
        })
   }"

fun str_find :: "u8 list \<Rightarrow> u8 list \<Rightarrow> nat option" where
  "str_find pat [] = (if pat = [] then Some 0 else None)"
| "str_find pat (c # cs) = (if prefix pat (c # cs) then Some 0 else map_option Suc (str_find pat cs))"

text \<open>The name behind \<open>-use-scheduler-\<close> in the boot arguments, up to a blank or the end.\<close>

definition sched_arg :: "u8 list \<Rightarrow> u8 list option" where
  "sched_arg bargs =
     (case str_find (lit ''-use-scheduler-'') bargs of
        None \<Rightarrow> None
      | Some i \<Rightarrow>
          let rest = drop (i + 15) bargs in
          (case str_find (lit '' '') rest of
             None \<Rightarrow> Some rest
           | Some n \<Rightarrow> if n > 0 then Some (take n rest) else None))"

definition pick_scheduler ::
  "(drv \<Rightarrow> u8 list option \<Rightarrow> u8 list option \<Rightarrow> int option) \<Rightarrow> u8 list option \<Rightarrow> drv list \<Rightarrow> drv option \<Rightarrow> drv option option" where
  "pick_scheduler pr bargs ds old = do {
     s1 \<leftarrow> (case Option.bind bargs sched_arg of
        None \<Rightarrow> Some old
      | Some n \<Rightarrow> do {
          rc \<leftarrow> getDriverByProbe pr (lit ''scheduler-'' @ n) (lit ''sys,scheduler'') ds;
          Some (if rc = None then old else rc)
        });
     if s1 \<noteq> None then Some s1
     else getDriverByProbe pr (lit ''scheduler-rr'') (lit ''sys,scheduler'') ds
   }"

definition root_addDevice ::
  "(drv \<Rightarrow> u8 list option \<Rightarrow> u8 list option \<Rightarrow> int option) \<Rightarrow> bmem \<Rightarrow> int \<Rightarrow> 'w kdev \<Rightarrow> (int \<times> 'w kdev) option" where
  "root_addDevice pr fdt node s =
     (if node \<noteq> 0 then Some (K_ENODEV, s)
      else do {
        compatible \<leftarrow> prop_str fdt node (lit ''compatible'') (lit ''Generic'');
        model \<leftarrow> prop_str fdt node (lit ''model'') (lit ''Generic'');
        let s1 = s\<lparr>kroot := (kroot s)\<lparr>root_compatible := compatible, root_model := model\<rparr>\<rparr>;
        rc \<leftarrow> fdt_path_offset fdt (lit ''/chosen'');
        if rc < 0 then Some (K_ENODEV, s1)
        else do {
          so \<leftarrow> prop_str fdt rc (lit ''stdout-path'') (stdout_path (kroot s1));
          rd \<leftarrow> initrd_of fdt rc (initrd_path (kroot s1));
          (p, _) \<leftarrow> fdt_get_property fdt rc (lit ''bootargs'');
          bargs \<leftarrow> prop_str fdt rc (lit ''bootargs'') (bootargs (kroot s1));
          sch \<leftarrow> pick_scheduler pr (if p = None then None else Some bargs) (drvlist s1) (root_scheduler (kroot s1));
          let s2 = s1\<lparr>kroot := (kroot s1)\<lparr>stdout_path := so, initrd_path := rd, bootargs := bargs, root_scheduler := sch\<rparr>\<rparr>;
          if sch = None then Some (K_EINVAL, s2)
          else do {
            (_, s3) \<leftarrow> markInstalled fdt rc 0 GenericRoot DRV_CAP_THIS s2;
            Some (0, s3)
          }
        }
      })"

section \<open>SysCPU\<close>

definition cpu_probe :: "u8 list option \<Rightarrow> u8 list option \<Rightarrow> int option" where
  "cpu_probe name compatible = do {
     n \<leftarrow> name;
     if n = lit ''cpus'' then Some DRV_CAP_THIS
     else if n = lit ''cpu-map'' then Some DRV_CAP_COVER
     else do {
       c \<leftarrow> compatible;
       Some (if c = lit ''riscv'' then DRV_CAP_COVER else DRV_CAP_NONE)
     }
   }"

definition mmu_of :: "u8 list \<Rightarrow> u8 option" where
  "mmu_of t =
     (if str_find (lit ''sv32'') t \<noteq> None then Some 32
      else if str_find (lit ''sv39'') t \<noteq> None then Some 39
      else if str_find (lit ''sv48'') t \<noteq> None then Some 48
      else if str_find (lit ''sv57'') t \<noteq> None then Some 57
      else None)"

text \<open>The register width and the extensions of \<open>riscv,isa\<close>; the inner \<^const>\<open>None\<close> is a string the driver
  rejects, the outer one an access outside of the tree or the exception of \<open>std::string\<close> for a
  string of less than four characters.\<close>

definition parse_isa :: "bmem \<Rightarrow> int \<Rightarrow> (u8 \<times> u8 list) option option" where
  "parse_isa fdt node = do {
     (isa, len) \<leftarrow> fdt_getprop fdt node (lit ''riscv,isa'');
     (case isa of
        None \<Rightarrow> Some None
      | Some p \<Rightarrow>
          if len < 5 then Some None
          else do {
            c0 \<leftarrow> rd8 fdt p;
            c1 \<leftarrow> rd8 fdt (p + 1);
            if c0 \<noteq> 0x72 \<or> c1 \<noteq> 0x76 then Some None
            else do {
              c2 \<leftarrow> rd8 fdt (p + 2);
              if c2 \<noteq> 0x33 \<and> c2 \<noteq> 0x36 then Some None
              else do {
                str \<leftarrow> cstr fdt p;
                if length str < 4 then None
                else Some (Some (if c2 = 0x33 then 32 else 64, take (nat (len - 4)) (drop 4 str)))
              }
            }
          })
   }"

definition parse_mmu :: "bmem \<Rightarrow> int \<Rightarrow> u8 option option" where
  "parse_mmu fdt node = do {
     (mmu, len) \<leftarrow> fdt_getprop fdt node (lit ''mmu-type'');
     if len < 0 then Some None
     else do {
       p \<leftarrow> mmu;
       t \<leftarrow> mem_bytes fdt p (nat len);
       Some (mmu_of t)
     }
   }"

text \<open>The entry of a CPU node, or the error it is rejected with.\<close>

definition cpu_entry :: "bmem \<Rightarrow> int \<Rightarrow> u64 \<Rightarrow> (int + cpu_t) option" where
  "cpu_entry fdt node junk = do {
     (rc, h, _) \<leftarrow> fdt_get_node_addr_size fdt node 0 (Some junk) None;
     if rc < 0 then Some (Inl rc)
     else do {
       en \<leftarrow> fdt_node_is_enabled fdt node;
       isa \<leftarrow> parse_isa fdt node;
       (case isa of
          None \<Rightarrow> Some (Inl K_EINVAL)
        | Some (xl, ext) \<Rightarrow> do {
            mmu \<leftarrow> parse_mmu fdt node;
            Some (case mmu of
               None \<Rightarrow> Inl K_EINVAL
             | Some mt \<Rightarrow> Inr \<lparr>hid = the h, cpu_state = en, xlen = xl, cpu_mmu = mt, extension = ext\<rparr>)
          })
     }
   }"

definition cpu_addDevice :: "bmem \<Rightarrow> int \<Rightarrow> u64 \<Rightarrow> syscpu \<Rightarrow> (int \<times> syscpu) option" where
  "cpu_addDevice fdt node junk s = do {
     (nm, _) \<leftarrow> fdt_get_name fdt node;
     (case nm of
        None \<Rightarrow> Some (K_EINVAL, s)
      | Some a \<Rightarrow> do {
          name \<leftarrow> cstr fdt a;
          if name = lit ''cpus'' then do {
            (tb, len) \<leftarrow> fdt_getprop fdt node (lit ''timebase-frequency'');
            if len > 0 then do {
              p \<leftarrow> tb;
              v \<leftarrow> fdt32_ld fdt p;
              Some (0xFFFF, s\<lparr>timebase_freq := ucast v\<rparr>)
            }
            else Some (0xFFFF, s)
          }
          else if name = lit ''cpu-map'' then Some (0xFFF0, s)
          else do {
            r \<leftarrow> cpu_entry fdt node junk;
            Some (case r of
               Inl rc \<Rightarrow> (rc, s)
             | Inr c \<Rightarrow> (cpu_hdlcount s, s\<lparr>cpus := cpus s @ [c], cpu_hdlcount := cpu_hdlcount s + 1\<rparr>))
          }
        })
   }"

section \<open>SysMem\<close>

definition mem_probe :: "u8 list option \<Rightarrow> u8 list option \<Rightarrow> int option" where
  "mem_probe name compatible = do {
     n \<leftarrow> name;
     Some (if \<not> prefix (lit ''memory'') n \<and> n \<noteq> lit ''reserved-memory'' then DRV_CAP_NONE else DRV_CAP_COVER)
   }"

fun rsv_entries :: "bmem \<Rightarrow> int \<Rightarrow> nat \<Rightarrow> (u64 \<times> u64) list option" where
  "rsv_entries fdt i 0 = Some []"
| "rsv_entries fdt i (Suc n) = do {
     (rc, a, sz) \<leftarrow> fdt_get_mem_rsv fdt i;
     rest \<leftarrow> rsv_entries fdt (i + 1) n;
     Some (if rc = 0 then (a, sz) # rest else rest)
   }"

text \<open>The loops over the children of \<open>/reserved-memory\<close> and over the regions of a memory node. The
  variables \<open>address\<close> and \<open>size\<close> keep their value where \<open>fdt_get_node_addr_size\<close> does not store one.\<close>

partial_function (option) rsv_nodes ::
  "bmem \<Rightarrow> int \<Rightarrow> u64 \<Rightarrow> u64 \<Rightarrow> (u64 \<times> u64) list \<Rightarrow> (u64 \<times> u64) list option" where
  "rsv_nodes fdt subnode address sz acc =
     (if subnode \<ge> 0 then do {
        (rc, a, n) \<leftarrow> fdt_get_node_addr_size fdt subnode 0 (Some address) (Some sz);
        nxt \<leftarrow> fdt_next_subnode fdt subnode;
        rsv_nodes fdt nxt (the a) (the n) (if rc \<ge> 0 then acc @ [(the a, the n)] else acc)
      }
      else Some acc)"

partial_function (option) mem_regions ::
  "bmem \<Rightarrow> int \<Rightarrow> int \<Rightarrow> u64 \<Rightarrow> u64 \<Rightarrow> (u64 \<times> u64) list \<Rightarrow> (u64 \<times> u64) list option" where
  "mem_regions fdt node i address sz acc = do {
     (rc, a, n) \<leftarrow> fdt_get_node_addr_size fdt node i (Some address) (Some sz);
     if rc \<ge> 0 then mem_regions fdt node (i + 1) (the a) (the n) (acc @ [(the a, the n)]) else Some acc
   }"

definition mem_addDevice :: "bmem \<Rightarrow> int \<Rightarrow> u64 \<Rightarrow> sysmem \<Rightarrow> (int \<times> sysmem) option" where
  "mem_addDevice fdt node junk s = do {
     s1 \<leftarrow> (if rsv_parsed s then Some s
            else do {
              n \<leftarrow> fdt_num_mem_rsv fdt;
              es \<leftarrow> rsv_entries fdt 0 (nat n);
              Some (s\<lparr>mem_rsv := mem_rsv s @ es, rsv_parsed := True\<rparr>)
            });
     (nm, _) \<leftarrow> fdt_get_name fdt node;
     a \<leftarrow> nm;
     name \<leftarrow> cstr fdt a;
     if name = lit ''reserved-memory'' then do {
       nodeoffset \<leftarrow> fdt_subnode_offset fdt 0 (lit ''reserved-memory'');
       if nodeoffset \<ge> 0 then do {
         sub \<leftarrow> fdt_first_subnode fdt nodeoffset;
         rs \<leftarrow> rsv_nodes fdt sub junk junk (mem_rsv s1);
         Some (0, s1\<lparr>mem_rsv := rs\<rparr>)
       }
       else Some (0, s1)
     }
     else do {
       ms \<leftarrow> mem_regions fdt node 0 junk junk (mem_avail s1);
       Some (0, s1\<lparr>mem_avail := ms\<rparr>)
     }
   }"

definition addReservedMem :: "u64 \<Rightarrow> u64 \<Rightarrow> sysmem \<Rightarrow> sysmem" where
  "addReservedMem addr sz s = s\<lparr>mem_rsv := mem_rsv s @ [(addr, sz)]\<rparr>"

declare rsv_nodes.simps [code] mem_regions.simps [code]

section \<open>The table of virtual methods\<close>

definition k_probe :: "drv \<Rightarrow> u8 list option \<Rightarrow> u8 list option \<Rightarrow> int option" where
  "k_probe d name compatible =
     (case d of
        GenericRoot \<Rightarrow> root_probe name compatible
      | GenericMem \<Rightarrow> mem_probe name compatible
      | GenericCPU \<Rightarrow> cpu_probe name compatible
      | RoundRobinScheduler \<Rightarrow> do { n \<leftarrow> name; c \<leftarrow> compatible; Some (rr_probe n c) }
      | Drv_Uart8250 \<Rightarrow> uart_probe name compatible)"

definition k_addDevice :: "'w mmio \<Rightarrow> u64 \<Rightarrow> drv \<Rightarrow> bmem \<Rightarrow> int \<Rightarrow> 'w kdev \<Rightarrow> (int \<times> 'w kdev) option" where
  "k_addDevice io junk d fdt node s =
     (case d of
        GenericRoot \<Rightarrow> root_addDevice k_probe fdt node s
      | GenericMem \<Rightarrow> map_option (\<lambda>(h, m). (h, s\<lparr>kmem0 := m\<rparr>)) (mem_addDevice fdt node junk (kmem0 s))
      | GenericCPU \<Rightarrow> map_option (\<lambda>(h, c). (h, s\<lparr>kcpu := c\<rparr>)) (cpu_addDevice fdt node junk (kcpu s))
      | RoundRobinScheduler \<Rightarrow> (let (h, r) = rr_addDevice (krr s) in Some (h, s\<lparr>krr := r\<rparr>))
      | Drv_Uart8250 \<Rightarrow> map_option (\<lambda>(h, u, w). (h, s\<lparr>kuart := u, kio := w\<rparr>)) (uart_addDevice io fdt node junk (kuart s) (kio s)))"

definition k_type :: "drv \<Rightarrow> dev_type_t" where
  "k_type d = (case d of Drv_Uart8250 \<Rightarrow> DEV_TYPE_CHAR | _ \<Rightarrow> DEV_TYPE_SYS)"

definition kdrv_ops :: "'w mmio \<Rightarrow> u64 \<Rightarrow> (drv, 'w kdev) driver_ops" where
  "kdrv_ops io junk = \<lparr>op_probe = k_probe, op_addDevice = k_addDevice io junk, op_type = k_type\<rparr>"

text \<open>The registration functions run in the order of their constructor priorities: root 115, memory
  120, CPU 125, scheduler 130, UART 300.\<close>

definition kdev_init :: "'w \<Rightarrow> 'w kdev" where
  "kdev_init w =
     \<lparr>drvlist = [], devhdl = [],
      kroot = \<lparr>root_compatible = [], root_model = [], stdout_path = [], bootargs = [], initrd_path = [], root_scheduler = None\<rparr>,
      kcpu = \<lparr>timebase_freq = 0, cpus = [], cpu_hdlcount = 0\<rparr>,
      kmem0 = \<lparr>mem_rsv = [], mem_avail = [], rsv_parsed = False\<rparr>,
      krr = \<lparr>hdl_count = 0, taskgroups = []\<rparr>,
      kuart = \<lparr>uart_hdl_count = -1, uart_hdl = []\<rparr>,
      kio = w\<rparr>"

definition drv_register :: "'w \<Rightarrow> 'w kdev" where
  "drv_register w = addDriver Drv_Uart8250 (addDriver RoundRobinScheduler (addDriver GenericCPU (addDriver GenericMem
     (addDriver GenericRoot (kdev_init w)))))"

section \<open>Nodes of a tree\<close>

text \<open>\<open>in_tree fdt no N k u\<close>: the subtree \<open>u\<close> is flattened at the offset \<open>k\<close> of the blob.\<close>

definition in_tree :: "bmem \<Rightarrow> (u8 list \<Rightarrow> nat) \<Rightarrow> u8 list set \<Rightarrow> nat \<Rightarrow> dtree \<Rightarrow> bool" where
  "in_tree fdt no N k u \<longleftrightarrow> (\<exists>S Z. struct_block fdt S Z \<and> strings_block fdt no N \<and> node_at fdt no S Z k u \<and> dt_ok N u)"

lemma in_tree_property:
  assumes "in_tree fdt no N k u"
  shows "case map_of (dt_props u) name of
      None \<Rightarrow> fdt_get_property fdt (int k) name = Some (None, - FDT_ERR_NOTFOUND)
    | Some v \<Rightarrow> \<exists>a. fdt_get_property fdt (int k) name = Some (Some a, int (length v)) \<and> at fdt (a + 12) v"
  using assms property_at unfolding in_tree_def by blast

lemma get_name_at:
  assumes "in_tree fdt no N k u"
  shows "\<exists>a. fdt_get_name fdt (int k) = Some (Some a, int (length (dt_name u))) \<and> cstr fdt a = Some (dt_name u)"
proof -
  obtain S Z where b: "struct_block fdt S Z" "node_at fdt no S Z k u" "dt_ok N u" using assms by (auto simp: in_tree_def)
  obtain r ver where h: "fdt_ro_probe fdt = Some r" "0 \<le> r" "fdt_version fdt = Some ver" "0x11 \<le> ver"
    using b(1) by (auto simp: struct_block_def split: option.splits)
  then show ?thesis using node_begin [OF b] by (simp add: fdt_get_name_def word_less_nat_alt word_le_nat_alt)
qed

lemma in_tree_root: "tree_blob fdt no N t \<Longrightarrow> in_tree fdt no N 0 t"
  by (auto simp: tree_blob_def in_tree_def)

lemma in_tree_path:
  assumes "tree_blob fdt no N t" "path_ok cs"
  shows "case dt_lookup t cs of
      None \<Rightarrow> fdt_path_offset fdt (path_bytes cs) = Some (- FDT_ERR_NOTFOUND)
    | Some u \<Rightarrow> \<exists>k. fdt_path_offset fdt (path_bytes cs) = Some (int k) \<and> in_tree fdt no N k u"
proof -
  obtain S Z where b: "struct_block fdt S Z" "node_at fdt no S Z 0 t" "strings_block fdt no N" "dt_ok N t"
    using assms(1) by (auto simp: tree_blob_def)
  from path_offset_at [OF b(1,2,4) assms(2)] b(1,3) show ?thesis
    by (auto simp: in_tree_def split: option.splits)
qed

lemma name_match_prefix: "name_match c n \<Longrightarrow> prefix c n"
  by (auto simp: name_match_def prefix_def) (metis append_take_drop_id append.assoc)

lemma find_holds: "find P xs = Some u \<Longrightarrow> P u"
  by (induction xs) (auto split: if_splits)

lemma in_tree_child:
  assumes t: "tree_blob fdt no N t" and c: "c \<noteq> []" "0x2f \<notin> set c"
  shows "(\<exists>k a l n. fdt_path_offset fdt (0x2f # c) = Some (int k) \<and> fdt_get_name fdt (int k) = Some (Some a, l) \<and>
      cstr fdt a = Some n \<and> prefix c n) \<or> fdt_path_offset fdt (0x2f # c) = Some (- FDT_ERR_NOTFOUND)"
proof (cases "dt_lookup t [c]")
  case None
  then show ?thesis using in_tree_path [OF t, of "[c]"] c by (simp add: path_ok_def path_bytes_def)
next
  case (Some u)
  then have "prefix c (dt_name u)" by (auto intro: name_match_prefix split: option.splits dest: find_holds)
  moreover obtain k where "fdt_path_offset fdt (0x2f # c) = Some (int k)" "in_tree fdt no N k u"
    using Some in_tree_path [OF t, of "[c]"] c by (auto simp: path_ok_def path_bytes_def)
  ultimately show ?thesis using get_name_at [of fdt no N k u] by blast
qed

section \<open>What the drivers promise\<close>

text \<open>The driver a node of a tree belongs to by its name when it is one of the system drivers; a handle a
  driver knows; and the invariant of the drivers' own state: handles are numbered
  upwards, every CPU entry has a register width and a translation mode the kernel knows, and the
  scheduler that the root driver stores behind a cast really is a scheduler.\<close>

definition sys_node :: "u8 list \<Rightarrow> drv \<Rightarrow> bool" where
  "sys_node n d \<longleftrightarrow> (n = [] \<longrightarrow> d = GenericRoot) \<and> (prefix (lit ''cpus'') n \<longrightarrow> d = GenericCPU) \<and>
     (prefix (lit ''memory'') n \<longrightarrow> d = GenericMem)"

definition node_driver :: "dev_type_t \<Rightarrow> bmem \<Rightarrow> int \<Rightarrow> drv \<Rightarrow> bool" where
  "node_driver type fdt node d \<longleftrightarrow> type = DEV_TYPE_SYS \<longrightarrow>
     (\<forall>no N t a l n. tree_blob fdt no N t \<longrightarrow> fdt_get_name fdt node = Some (Some a, l) \<longrightarrow> cstr fdt a = Some n \<longrightarrow> sys_node n d)"

definition khandle :: "drv \<Rightarrow> int \<Rightarrow> 'w kdev \<Rightarrow> bool" where
  "khandle d h s =
     (case d of
        GenericRoot \<Rightarrow> h = 0
      | GenericMem \<Rightarrow> h = 0
      | GenericCPU \<Rightarrow> h = 0xFFFF \<or> h = 0xFFF0 \<or> 0 \<le> h \<and> h < int (length (cpus (kcpu s)))
      | RoundRobinScheduler \<Rightarrow> map_find (taskgroups (krr s)) h \<noteq> None
      | Drv_Uart8250 \<Rightarrow> map_find (uart_hdl (kuart s)) h \<noteq> None)"

definition kvalid :: "dev_type_t \<Rightarrow> bmem \<Rightarrow> int \<Rightarrow> drv \<Rightarrow> int \<Rightarrow> 'w kdev \<Rightarrow> bool" where
  "kvalid type fdt node d h s \<longleftrightarrow> node_driver type fdt node d \<and> khandle d h s"

definition kinv :: "'w kdev \<Rightarrow> bool" where
  "kinv s \<longleftrightarrow> cpu_hdlcount (kcpu s) = int (length (cpus (kcpu s))) \<and>
     (\<forall>c\<in>set (cpus (kcpu s)). xlen c \<in> {32, 64} \<and> cpu_mmu c \<in> {32, 39, 48, 57}) \<and>
     smap (taskgroups (krr s)) \<and> smap (uart_hdl (kuart s)) \<and>
     (\<forall>h. map_find (uart_hdl (kuart s)) h \<noteq> None \<longrightarrow> h \<le> uart_hdl_count (kuart s)) \<and>
     root_scheduler (kroot s) \<in> {None, Some RoundRobinScheduler} \<and>
     drvlist s = [GenericRoot, GenericMem, GenericCPU, RoundRobinScheduler, Drv_Uart8250]"

lemma mmu_of_in: "mmu_of t = Some m \<Longrightarrow> m \<in> {32, 39, 48, 57}"
  by (auto simp: mmu_of_def split: if_splits)

lemma parse_isa_in: "parse_isa fdt node = Some (Some (xl, e)) \<Longrightarrow> xl \<in> {32, 64}"
  by (auto simp: parse_isa_def split: bind_splits option.splits if_splits)

lemma parse_mmu_in: "parse_mmu fdt node = Some (Some m) \<Longrightarrow> m \<in> {32, 39, 48, 57}"
  by (auto simp: parse_mmu_def split: bind_splits if_splits dest!: mmu_of_in)

lemma cpu_entry_in:
  assumes "cpu_entry fdt node junk = Some r"
  shows "case r of Inl rc \<Rightarrow> rc < 0 | Inr c \<Rightarrow> xlen c \<in> {32, 64} \<and> cpu_mmu c \<in> {32, 39, 48, 57}"
proof -
  obtain rc h n where a: "fdt_get_node_addr_size fdt node 0 (Some junk) None = Some (rc, h, n)"
    using assms by (auto simp: cpu_entry_def split: bind_splits)
  show ?thesis
  proof (cases "rc < 0")
    case True
    with a assms show ?thesis by (auto simp: cpu_entry_def)
  next
    case False
    with a assms obtain en isa where i: "fdt_node_is_enabled fdt node = Some en" "parse_isa fdt node = Some isa"
      by (auto simp: cpu_entry_def split: bind_splits)
    show ?thesis
    proof (cases isa)
      case None
      with a i False assms show ?thesis by (auto simp: cpu_entry_def kdefs)
    next
      case (Some p)
      obtain xl ext where p: "p = (xl, ext)" by (cases p)
      obtain m where m: "parse_mmu fdt node = Some m" using a i False Some p assms by (auto simp: cpu_entry_def split: bind_splits)
      show ?thesis
        using a i False Some p m assms parse_isa_in [of fdt node xl ext] parse_mmu_in [of fdt node]
        by (cases m) (auto simp: cpu_entry_def kdefs)
    qed
  qed
qed

lemma cpu_add_cases:
  assumes "cpu_addDevice fdt node junk s = Some (h, s')"
  obtains (fail) "h < 0" "s' = s" | (named) f where "h = 0xFFFF \<or> h = 0xFFF0" "s' = s\<lparr>timebase_freq := f\<rparr>"
  | (cpu) c where "h = cpu_hdlcount s" "s' = s\<lparr>cpus := cpus s @ [c], cpu_hdlcount := cpu_hdlcount s + 1\<rparr>"
      "xlen c \<in> {32, 64}" "cpu_mmu c \<in> {32, 39, 48, 57}"
proof -
  have old: "s = s\<lparr>timebase_freq := timebase_freq s\<rparr>" by simp
  obtain nm l where n: "fdt_get_name fdt node = Some (nm, l)" using assms by (auto simp: cpu_addDevice_def split: bind_splits)
  show ?thesis
  proof (cases nm)
    case None
    with n assms show ?thesis by (intro fail) (auto simp: cpu_addDevice_def kdefs)
  next
    case (Some a)
    with n assms obtain name where c: "cstr fdt a = Some name" by (auto simp: cpu_addDevice_def split: bind_splits)
    consider "name = lit ''cpus''" | "name \<noteq> lit ''cpus''" "name = lit ''cpu-map''" | "name \<noteq> lit ''cpus''" "name \<noteq> lit ''cpu-map''"
      by blast
    then show ?thesis
    proof cases
      case 1
      have "h = 0xFFFF" "s' = s \<or> (\<exists>f. s' = s\<lparr>timebase_freq := f\<rparr>)"
        using 1 n Some c assms by (auto simp: cpu_addDevice_def split: bind_splits if_splits)
      with old named show ?thesis by metis
    next
      case 2
      have "h = 0xFFF0" "s' = s" using 2 n Some c assms by (auto simp: cpu_addDevice_def)
      with old named show ?thesis by metis
    next
      case 3
      with n Some c assms obtain r where r: "cpu_entry fdt node junk = Some r"
        by (auto simp: cpu_addDevice_def split: bind_splits)
      show ?thesis using n Some c assms 3 r cpu_entry_in [OF r]
        by (cases r) (auto simp: cpu_addDevice_def intro: fail cpu)
    qed
  qed
qed

lemma mem_add_zero: "mem_addDevice fdt node junk s = Some (h, s') \<Longrightarrow> h = 0"
  by (auto simp: mem_addDevice_def split: bind_splits if_splits)

lemma by_probe_pos:
  "getDriverByProbe pr n c ds = Some (Some d) \<Longrightarrow> d \<in> set ds \<and> (\<exists>rc>0. pr d (Some n) (Some c) = Some rc)"
  by (induction ds) (auto split: bind_splits if_splits)

lemma scheduler_probe:
  "k_probe d (Some (lit ''scheduler-'' @ n)) (Some (lit ''sys,scheduler'')) = Some rc \<Longrightarrow> 0 < rc \<Longrightarrow> d = RoundRobinScheduler"
  by (cases d) (auto simp: k_probe_def root_probe_def mem_probe_def cpu_probe_def uart_probe_def kdefs lit_def split: if_splits)

lemma pick_scheduler_rr:
  assumes "pick_scheduler k_probe a ds old = Some r" "old \<in> {None, Some RoundRobinScheduler}"
  shows "r \<in> {None, Some RoundRobinScheduler}"
proof -
  have rr: "q \<in> {None, Some RoundRobinScheduler}"
    if "getDriverByProbe k_probe (lit ''scheduler-'' @ n) (lit ''sys,scheduler'') ds = Some q" for n q
    using that by (cases q) (auto dest!: by_probe_pos scheduler_probe)
  have d: "lit ''scheduler-rr'' = lit ''scheduler-'' @ lit ''rr''" by (simp add: lit_def)
  obtain s1 where s1: "s1 \<in> {None, Some RoundRobinScheduler}"
    "r = s1 \<or> getDriverByProbe k_probe (lit ''scheduler-rr'') (lit ''sys,scheduler'') ds = Some r"
    using assms rr unfolding pick_scheduler_def
    by (cases "Option.bind a sched_arg") (auto split: bind_splits if_splits)
  then show ?thesis using rr [of "lit ''rr''" r] by (auto simp: d)
qed

lemma mark_cases:
  assumes "markInstalled fdt c 0 d cap s = Some (q, s')"
  obtains "s' = s" | a l where "s' = s\<lparr>devhdl := map_insert c (d, cap, 0) (devhdl s)\<rparr>" "fdt_get_name fdt c = Some (Some a, l)"
  using assms by (auto simp: markInstalled_def split: bind_splits if_splits)

lemma root_add_cases:
  assumes "root_addDevice k_probe fdt node s = Some (h, s')" "root_scheduler (kroot s) \<in> {None, Some RoundRobinScheduler}"
  obtains (same) r where "h \<le> 0" "s' = s\<lparr>kroot := r\<rparr>" "root_scheduler r \<in> {None, Some RoundRobinScheduler}"
  | (marked) r c a l where "h = 0" "s' = s\<lparr>kroot := r, devhdl := map_insert c (GenericRoot, DRV_CAP_THIS, 0) (devhdl s)\<rparr>"
      "root_scheduler r \<in> {None, Some RoundRobinScheduler}" "fdt_get_name fdt c = Some (Some a, l)"
      "fdt_path_offset fdt (lit ''/chosen'') = Some c" "0 \<le> c"
proof (cases "node = 0")
  case False
  with assms show ?thesis by (intro same [of "kroot s"]) (auto simp: root_addDevice_def Let_def kdefs)
next
  case True
  with assms(1) obtain cm md rc where c: "prop_str fdt 0 (lit ''compatible'') (lit ''Generic'') = Some cm"
    "prop_str fdt 0 (lit ''model'') (lit ''Generic'') = Some md" "fdt_path_offset fdt (lit ''/chosen'') = Some rc"
    by (auto simp: root_addDevice_def Let_def split: bind_splits)
  let ?r1 = "(kroot s)\<lparr>root_compatible := cm, root_model := md\<rparr>"
  show ?thesis
  proof (cases "rc < 0")
    case True
    with c assms \<open>node = 0\<close> show ?thesis by (intro same [of ?r1]) (auto simp: root_addDevice_def Let_def kdefs)
  next
    case False
    with c assms(1) \<open>node = 0\<close> obtain so rd p l ba sch where d:
      "prop_str fdt rc (lit ''stdout-path'') (stdout_path (kroot s)) = Some so" "initrd_of fdt rc (initrd_path (kroot s)) = Some rd"
      "fdt_get_property fdt rc (lit ''bootargs'') = Some (p, l)" "prop_str fdt rc (lit ''bootargs'') (bootargs (kroot s)) = Some ba"
      "pick_scheduler k_probe (if p = None then None else Some ba) (drvlist s) (root_scheduler (kroot s)) = Some sch"
      by (auto simp: root_addDevice_def Let_def split: bind_splits)
    let ?r2 = "?r1\<lparr>stdout_path := so, initrd_path := rd, bootargs := ba, root_scheduler := sch\<rparr>"
    have sch: "sch \<in> {None, Some RoundRobinScheduler}" using pick_scheduler_rr [OF d(5) assms(2)] .
    show ?thesis
    proof (cases sch)
      case None
      with c d assms False \<open>node = 0\<close> show ?thesis by (intro same [of ?r2]) (auto simp: root_addDevice_def Let_def kdefs)
    next
      case (Some x)
      then obtain q where m: "markInstalled fdt rc 0 GenericRoot DRV_CAP_THIS (s\<lparr>kroot := ?r2\<rparr>) = Some (q, s')" "h = 0"
        using c d assms(1) False \<open>node = 0\<close> by (auto simp: root_addDevice_def Let_def split: bind_splits)
      from m(1) show ?thesis
        by (rule mark_cases) (use m(2) sch c(3) False same [of ?r2] marked [of _ ?r2] in auto)
    qed
  qed
qed

lemma khandle_mono:
  assumes "length (cpus (kcpu s)) \<le> length (cpus (kcpu s'))"
    "\<And>h. map_find (taskgroups (krr s)) h \<noteq> None \<Longrightarrow> map_find (taskgroups (krr s')) h \<noteq> None"
    "\<And>h. map_find (uart_hdl (kuart s)) h \<noteq> None \<Longrightarrow> map_find (uart_hdl (kuart s')) h \<noteq> None" "khandle d h s"
  shows "khandle d h s'"
  using assms(1,4) assms(2,3) [of h] by (cases d) (auto simp: khandle_def)

lemma uart_add_cases:
  assumes "uart_addDevice io fdt node junk s w = Some (h, s', w')"
  obtains "h < 0" "s' = s"
  | u where "h = uart_hdl_count s + 1" "s' = s\<lparr>uart_hdl_count := h, uart_hdl := map_insert h u (uart_hdl s)\<rparr>"
proof -
  obtain c where c: "uart_config fdt node junk = Some c" using assms by (auto simp: uart_addDevice_def split: bind_splits)
  show ?thesis
  proof (cases c)
    case None
    with c assms show ?thesis by (intro that(1)) (simp_all add: uart_addDevice_def kdefs)
  next
    case (Some u)
    with c assms show ?thesis by (intro that(2) [of u]) (auto simp: uart_addDevice_def Let_def split: bind_splits)
  qed
qed

lemma k_add_own:
  assumes a: "k_addDevice io junk d fdt node s = Some (h, s')" and d: "d \<noteq> GenericRoot" and i: "kinv s"
  shows "devhdl s' = devhdl s \<and> drvlist s' = drvlist s \<and> kinv s' \<and> (0 \<le> h \<longrightarrow> khandle d h s') \<and> (\<forall>d h. khandle d h s \<longrightarrow> khandle d h s')"
proof (cases d)
  case GenericMem
  then obtain m where "s' = s\<lparr>kmem0 := m\<rparr>" "h = 0" using a by (auto simp: k_addDevice_def dest: mem_add_zero)
  with i GenericMem show ?thesis by (auto simp: kinv_def khandle_def split: drv.splits)
next
  case GenericCPU
  then obtain c where c: "cpu_addDevice fdt node junk (kcpu s) = Some (h, c)" "s' = s\<lparr>kcpu := c\<rparr>" using a by (auto simp: k_addDevice_def)
  from c(1) have "length (cpus (kcpu s)) \<le> length (cpus c) \<and> kinv s' \<and> (0 \<le> h \<longrightarrow> khandle d h s')"
    by (cases rule: cpu_add_cases) (use c(2) i GenericCPU in \<open>auto simp: kinv_def khandle_def\<close>)
  with c(2) khandle_mono [of s s'] show ?thesis by auto
next
  case RoundRobinScheduler
  then have "s' = s\<lparr>krr := snd (rr_addDevice (krr s))\<rparr>" "h = hdl_count (krr s)" using a by (auto simp: k_addDevice_def rr_addDevice_def)
  with khandle_mono [of s s'] i RoundRobinScheduler show ?thesis by (auto simp: rr_addDevice_def kinv_def khandle_def)
next
  case Drv_Uart8250
  then obtain u w where u: "uart_addDevice io fdt node junk (kuart s) (kio s) = Some (h, u, w)" "s' = s\<lparr>kuart := u, kio := w\<rparr>"
    using a by (auto simp: k_addDevice_def)
  from u(1) show ?thesis
  proof (cases rule: uart_add_cases)
    case 1
    with u(2) i Drv_Uart8250 show ?thesis by (auto simp: kinv_def khandle_def split: drv.splits)
  next
    case (2 v)
    have sm: "smap (uart_hdl (kuart s))" using i by (simp add: kinv_def)
    have le: "map_find (uart_hdl (kuart s)) k \<noteq> None \<Longrightarrow> k \<le> uart_hdl_count (kuart s)" for k using i by (simp add: kinv_def)
    then have "map_find (uart_hdl (kuart s)) h = None" using 2(1) by force
    then have f: "map_find (uart_hdl u) k = (if k = h then Some v else map_find (uart_hdl (kuart s)) k)" for k
      using 2(2) find_insert [OF sm, of h v k] by simp
    have "map_find (uart_hdl u) k \<noteq> None \<Longrightarrow> k \<le> h" for k using f [of k] le [of k] 2(1) by (auto split: if_splits)
    moreover have "uart_hdl_count u = h" "smap (uart_hdl u)" using 2(2) sm by simp_all
    ultimately have "kinv s'" using i u(2) by (simp add: kinv_def)
    moreover have "khandle d h s'" using f u(2) Drv_Uart8250 by (simp add: khandle_def)
    ultimately show ?thesis using khandle_mono [of s s'] f u(2) by auto
  qed
qed (use d in simp)

lemma sys_driver:
  assumes "find_driver (kdrv_ops io junk) DEV_TYPE_SYS (Some n) c [GenericRoot, GenericMem, GenericCPU, RoundRobinScheduler, Drv_Uart8250] =
    Some (Some (d, rc))"
  shows "sys_node n d"
  using assms
  by (auto simp: sys_node_def kdrv_ops_def type_match_def k_type_def k_probe_def root_probe_def mem_probe_def cpu_probe_def
    rr_probe_def kdefs lit_def prefix_def split: if_splits bind_splits)

lemma found_driver:
  assumes "fdt_get_name fdt node = Some (Some a, l)" "find_driver (kdrv_ops io junk) type (cstr fdt a) c (drvlist s) = Some (Some (d, rc))" "kinv s"
  shows "node_driver type fdt node d"
  using assms sys_driver [of io junk _ c d rc] by (auto simp: node_driver_def kinv_def simp del: find_driver.simps)

lemma chosen_driver:
  assumes "fdt_path_offset fdt (lit ''/chosen'') = Some c" "0 \<le> c"
  shows "node_driver type fdt c GenericRoot"
proof -
  have e: "lit ''/chosen'' = 0x2f # lit ''chosen''" "lit ''chosen'' \<noteq> []" "0x2f \<notin> set (lit ''chosen'')" by (simp_all add: lit_def)
  have "sys_node n GenericRoot" if "tree_blob fdt no N t" "fdt_get_name fdt c = Some (Some a, l)" "cstr fdt a = Some n" for no N t a l n
    using in_tree_child [OF that(1) e(2,3)] that(2,3) assms by (auto simp: sys_node_def e(1) fdt_errs prefix_def) (auto simp: lit_def)
  then show ?thesis by (auto simp: node_driver_def)
qed

lemma k_add_law:
  assumes a: "op_addDevice (kdrv_ops io junk) d fdt node s = Some (h, s')" and t: "table_ok (kvalid type) fdt s" and i: "kinv s"
    and n: "fdt_get_name fdt node = Some (Some a, l)" "find_driver (kdrv_ops io junk) type (cstr fdt a) c (drvlist s) = Some (Some (d, rc))"
  shows "table_ok (kvalid type) fdt s' \<and> kinv s' \<and> extends s s' \<and> (0 \<le> h \<longrightarrow> kvalid type fdt node d h s')"
proof -
  have a': "k_addDevice io junk d fdt node s = Some (h, s')" using a by (simp add: kdrv_ops_def)
  note nd = found_driver [OF n i] and d = find_driver_in [OF n(2), THEN conjunct1]
  show ?thesis
  proof (cases "d = GenericRoot")
    case True
    have "root_addDevice k_probe fdt node s = Some (h, s')" "root_scheduler (kroot s) \<in> {None, Some RoundRobinScheduler}"
      using a' i True by (simp_all add: k_addDevice_def kinv_def)
    then show ?thesis
    proof (cases rule: root_add_cases)
      case (same r)
      have "khandle d' h' s \<Longrightarrow> khandle d' h' s'" for d' h' using same(2) khandle_mono [of s s'] by simp
      with table_mono [OF t, of s'] same i True nd show ?thesis by (simp add: kinv_def kvalid_def khandle_def)
    next
      case (marked r c a l)
      have "khandle d' h' s \<Longrightarrow> khandle d' h' s'" for d' h' using marked(2) khandle_mono [of s s'] by simp
      then have "table_ok (kvalid type) fdt s' \<and> extends s s'"
        using table_insert [OF t _ _ _ d _ _ _ marked(4), of s' DRV_CAP_THIS 0] marked(2) chosen_driver [OF marked(5,6)] True
        by (simp add: kvalid_def khandle_def kdefs)
      moreover have "kinv s'" using i marked(2,3) by (simp add: kinv_def)
      ultimately show ?thesis using marked(1) True nd by (simp add: kvalid_def khandle_def)
    qed
  next
    case False
    with k_add_own [OF a' False i] table_mono [OF t, of s'] nd show ?thesis by (auto simp: kvalid_def)
  qed
qed

interpretation kdi: driver_if "kdrv_ops io junk" type "kvalid type" kinv
proof
  show "kvalid type fdt node d h (s\<lparr>devhdl := x\<rparr>) = kvalid type fdt node d h s" for fdt node d h x and s :: "'a kdev"
    by (simp add: kvalid_def khandle_def split: drv.splits)
  show "kinv (s\<lparr>devhdl := x\<rparr>) = kinv s" for x and s :: "'a kdev" by (simp add: kinv_def)
qed (rule k_add_law)

lemma kinv_init: "kinv (drv_register w)"
  by (simp add: kinv_def drv_register_def addDriver_def kdev_init_def)

lemma table_init: "table_ok valid fdt (drv_register w)"
  by (simp add: table_ok_def drv_register_def addDriver_def kdev_init_def)

lemma kinv_io [simp]: "kinv (s\<lparr>kio := w\<rparr>) = kinv s"
  by (simp add: kinv_def)

lemma table_io [simp]: "table_ok (kvalid type) fdt (s\<lparr>kio := w\<rparr>) = table_ok (kvalid type) fdt s"
  by (simp add: table_ok_def kvalid_def khandle_def split: drv.splits)

end
