(* ===== verification/Boot.thy ===== *)
theory Boot
  imports Devices Sbif Vmmgr Lock
begin

text \<open>Model of the sequential part of the start of the kernel: \<open>k_boot_sysdev\<close> and \<open>k_boot_perip\<close> of
  \<^verbatim>\<open>kernel/main/k_boot.cpp\<close> and \<open>_sbrk\<close> and \<open>k_boot\<close> of \<^verbatim>\<open>kernel/main/lowerenv.c\<close>, composed of the
  models of the driver manager, the page tables, the memory manager and the file systems. What is
  not part of the repository (firmware, devices, the allocator of the C library, the behaviour of
  \<open>satp\<close>) is an argument. Messages are left out.\<close>

section \<open>The state of the kernel\<close>

record 'w kenv =
  e_fw :: "'w sbi"
  e_io :: "'w mmio"
  e_warl :: "u64 \<Rightarrow> u64 \<Rightarrow> u64"
  e_junk :: u64
  e_malloc :: "u64 \<Rightarrow> u64"
  e_ram :: bmem
  e_nbuf :: nat

text \<open>The pointers \<open>sysroot\<close>, \<open>syscpu\<close> and \<open>sysmem\<close> are set to the driver found in the device table,
  whichever it is; \<open>sysmmu\<close> is an object with the width of its virtual addresses.\<close>

record 'w kst =
  k_fdt :: bmem
  kd :: "'w kdev"
  kvfs :: "fsobj vfs"
  km :: kmem
  k_stage :: k_stage_t
  sysroot_p :: "drv option"
  syscpu_p :: "drv option"
  sysmem_p :: "drv option"
  sysmmu :: "(nat \<times> rv64mmu) option"
  sysvmm :: "vmmgr option"
  k_stack_base :: u64
  k_cpuclock :: u64
  k_stdout_func :: "(int \<times> drv) option"
  k_stdout_switched :: bool

section \<open>System devices\<close>

text \<open>The calls behind the list of SBI and machine information.\<close>

definition sbi_info :: "'w sbi \<Rightarrow> 'w \<Rightarrow> 'w" where
  "sbi_info fw w =
     (let (_, w) = getVID fw w; (_, w) = getAID fw w; (_, w) = getMacImplID fw w; (_, w) = getSpecVersion fw w;
          (_, w) = getImplID fw w; (_, w) = getImplVer fw w; (_, w) = sbi_available fw SBI_EXT_TIME w;
          (_, w) = sbi_available fw SBI_EXT_IPI w; (_, w) = sbi_available fw SBI_EXT_HSM w;
          (_, w) = sbi_available fw SBI_EXT_DBCN w; (_, w) = sbi_available fw SBI_EXT_SRST w;
          (_, w) = sbi_available fw SBI_EXT_RFENCE w in w)"

definition boot_probe :: "'w kenv \<Rightarrow> dev_type_t \<Rightarrow> 'w kst \<Rightarrow> 'w kst option" where
  "boot_probe e type s = do {
     (_, d) \<leftarrow> drv_probe (kdrv_ops (e_io e) (e_junk e)) (k_fdt s) type 0 (kd s);
     Some (s\<lparr>kd := d\<rparr>)
   }"

text \<open>A method of \<open>SysRoot\<close>, \<open>SysCPU\<close> or \<open>SysMem\<close> called through a pointer to another driver does not
  read the fields it is meant to, which counts as a trap.\<close>

definition boot_sysdev_devices :: "'w kenv \<Rightarrow> 'w kst \<Rightarrow> (int \<times> 'w kst) option" where
  "boot_sysdev_devices e s = do {
     s \<leftarrow> boot_probe e DEV_TYPE_SYS s;
     (srhdl, d) \<leftarrow> getDrvByPath (k_fdt s) (lit ''/'') (kd s);
     if srhdl < 0 then Some (K_ENOSPC, s)
     else if d \<noteq> Some GenericRoot then None
     else do {
       let s = s\<lparr>sysroot_p := d\<rparr>;
       (scpuhdl, d) \<leftarrow> getDrvByPath (k_fdt s) (lit ''/cpus'') (kd s);
       if scpuhdl < 0 then Some (K_ENOSPC, s)
       else if d \<noteq> Some GenericCPU then None
       else do {
         let tfreq = timebase_freq (kcpu (kd s));
         let s = s\<lparr>syscpu_p := d, k_cpuclock := (if tfreq = 0 then of_nat K_CONFIG_CPU_DEFAULT_CLOCK else tfreq)\<rparr>;
         (smhdl, d) \<leftarrow> getDrvByPath (k_fdt s) (lit ''/memory'') (kd s);
         if smhdl < 0 then Some (K_ENOSPC, s)
         else if d \<noteq> Some GenericMem then None
         else Some (0, s\<lparr>sysmem_p := d\<rparr>)
       }
     }
   }"

definition smallest_mmu :: "cpu_t list \<Rightarrow> int" where
  "smallest_mmu cs = fold (\<lambda>c m. if uint (cpu_mmu c) < m then uint (cpu_mmu c) else m) cs 0xFF"

definition boot_vmm :: "vmmgr \<Rightarrow> vmmgr" where
  "boot_vmm v =
     addMap (0xFFFFFFC000000000 + 0x80000000) 0x80000000 0x80000000 (PROT_R OR PROT_W OR PROT_X OR PROT_G)
       (addMap 0xFFFFFFC000000000 0 0x80000000 (PROT_R OR PROT_W OR PROT_X OR PROT_G OR PROT_IO) v)"

text \<open>From the choice of the translation mode to the new page table. Once \<open>satp\<close> holds it the low
  addresses of the start-up table are gone.\<close>

definition boot_mmu :: "'w kenv \<Rightarrow> 'w kst \<Rightarrow> (int \<times> 'w kst) option" where
  "boot_mmu e s =
     (let mmu_type = smallest_mmu (cpus (kcpu (kd s))) in
      if mmu_type = 0xFF \<or> mmu_type = 32 then Some (K_EINVAL, s)
      else let (vid, w) = getVID (e_fw e) (kio (kd s));
               s = s\<lparr>kd := (kd s)\<lparr>kio := w\<rparr>\<rparr>;
               mmu_variant = (if vid = 0x5B7 then VARIANT_THEAD_C906 else 0);
               sz = nat mmu_type in
        if mmu_type \<noteq> 39 \<and> mmu_type \<noteq> 48 \<and> mmu_type \<noteq> 57 then Some (K_ENOTSUPP, s)
        else do {
          (ob, k) \<leftarrow> RV64MMU (e_junk e) sz (- 1) mmu_variant (km s);
          (rc, v, k) \<leftarrow> confirm (mmu_map sz ob) (mmu_unmap sz ob) (boot_vmm (VMemoryMgr [])) k;
          let s = s\<lparr>sysmmu := Some (sz, ob), sysvmm := Some v, km := k\<rparr>;
          if rc < 0 then Some (K_EFAIL, s)
          else let (ok, k) = mmu_enable (e_warl e) True ob k in
            if \<not> ok then Some (K_EFAIL, s\<lparr>km := k\<rparr>)
            else Some (0, s\<lparr>km := k\<lparr>low_map := False\<rparr>\<rparr>)
        })"

text \<open>The stacks of the harts grow down from \<open>k_stack_base\<close>, one of 8 KiB for each hart number.\<close>

definition boot_stack :: "'w kenv \<Rightarrow> 'w kst \<Rightarrow> int \<times> 'w kst" where
  "boot_stack e s =
     (let boot_stack_size = of_nat (length (cpus (kcpu (kd s)))) * of_nat K_CONFIG_STACK_SIZE in
      if boot_stack_size < 512 * 1024 then (0, s\<lparr>k_stack_base := K_START_STACK_ADDR\<rparr>)
      else if e_malloc e boot_stack_size = 0 then (K_ENOMEM, s\<lparr>k_stack_base := 0\<rparr>)
      else (0, s\<lparr>k_stack_base := e_malloc e boot_stack_size + boot_stack_size\<rparr>))"

definition hart_stack :: "u64 \<Rightarrow> int \<Rightarrow> u64" where
  "hart_stack base hart = base - of_int (hart * int K_CONFIG_STACK_SIZE)"

definition k_boot_sysdev :: "'w kenv \<Rightarrow> int \<Rightarrow> 'w kst \<Rightarrow> (int \<times> u64 option \<times> 'w kst) option" where
  "k_boot_sysdev e hartid s = do {
     let s = s\<lparr>k_stage := K_BOOT, kd := (kd s)\<lparr>kio := sbi_info (e_fw e) (kio (kd s))\<rparr>\<rparr>;
     (rc, s) \<leftarrow> boot_sysdev_devices e s;
     if rc \<noteq> 0 then Some (rc, None, s)
     else do {
       (rc, s) \<leftarrow> boot_mmu e s;
       if rc \<noteq> 0 then Some (rc, None, s)
       else let (rc, s) = boot_stack e s in
         if rc \<noteq> 0 then Some (rc, None, s)
         else Some (0, Some (hart_stack (k_stack_base s) hartid), s)
     }
   }"

section \<open>Peripheral devices and the root file system\<close>

text \<open>The device is taken for a character device without a look at its type.\<close>

definition boot_stdout :: "'w kst \<Rightarrow> 'w kst option" where
  "boot_stdout s =
     (let path = stdout_path (kroot (kd s)) in
      if path = [] then Some s
      else do {
        (stdouthdl, d) \<leftarrow> getDrvByPath (k_fdt s) path (kd s);
        Some (if stdouthdl < 0 then s
              else s\<lparr>k_stdout_func := Some (stdouthdl, the d), k_stdout_switched := True\<rparr>)
      })"

definition stdout_call :: "'w kenv \<Rightarrow> u8 list \<Rightarrow> 'w kst \<Rightarrow> (int \<times> 'w kst) option" where
  "stdout_call e buf s =
     (case k_stdout_func s of
        Some (h, Drv_Uart8250) \<Rightarrow> do {
          (rc, w) \<leftarrow> uart_write (e_io e) h buf (kuart (kd s)) (kio (kd s));
          Some (rc, s\<lparr>kd := (kd s)\<lparr>kio := w\<rparr>\<rparr>)
        }
      | _ \<Rightarrow> None)"

definition boot_rootfs :: "'w kenv \<Rightarrow> 'w kst \<Rightarrow> (int \<times> 'w kst) option" where
  "boot_rootfs e s =
     (let rootfs = initrd_path (kroot (kd s)) in
      if rootfs = [] then Some (0, s)
      else do {
        (rc, v) \<leftarrow> vfs_mount (e_ram e) (e_nbuf e) (lit ''/'') rootfs None (kvfs s);
        Some (if rc < 0 then rc else 0, s\<lparr>kvfs := v\<rparr>)
      })"

definition k_boot_perip :: "'w kenv \<Rightarrow> 'w kst \<Rightarrow> (int \<times> 'w kst) option" where
  "k_boot_perip e s = do {
     s \<leftarrow> boot_probe e DEV_TYPE_PERIP (s\<lparr>k_stage := K_BOOT_PERIP\<rparr>);
     s \<leftarrow> boot_stdout s;
     boot_rootfs e s
   }"

section \<open>The lower environment\<close>

record sbrk_st =
  heap_end :: u64
  k_heap_max :: u64

definition sbrk :: "u64 \<Rightarrow> int \<Rightarrow> sbrk_st \<Rightarrow> u64 \<times> sbrk_st" where
  "sbrk end incr s =
     (let prev = (if heap_end s = 0 then end else heap_end s);
          new = prev + of_int incr in
      (prev, s\<lparr>heap_end := new, k_heap_max := (if new - end > k_heap_max s then new - end else k_heap_max s)\<rparr>))"

text \<open>The constructors of \<open>init_array\<close> in the order of their priorities; those of the drivers and those of
  the file systems have no state in common. The two file systems have the same priority and are taken
  in the order of their file names.\<close>

definition init_array :: "'w kst \<Rightarrow> 'w kst" where
  "init_array s = s\<lparr>kd := drv_register (kio (kd s)), kvfs := devfs_register (cpiofs_register vfs_init)\<rparr>"

definition k_boot :: "'w kenv \<Rightarrow> int \<Rightarrow> bmem \<Rightarrow> 'w kst \<Rightarrow> (int \<times> u64 option \<times> 'w kst) option" where
  "k_boot e hartid fdt s = do {
     sz \<leftarrow> fdt_totalsize fdt;
     let p = e_malloc e (ucast sz);
     if p = 0 then Some (K_ENOMEM, None, s)
     else do {
       bytes \<leftarrow> mem_bytes fdt (fst fdt) (unat sz);
       let s = init_array (s\<lparr>k_fdt := (unat p, bytes)\<rparr>);
       (rc, stack, s) \<leftarrow> k_boot_sysdev e hartid s;
       if rc \<noteq> 0 then Some (rc, None, s)
       else do {
         (rc, s) \<leftarrow> k_boot_perip e s;
         Some (rc, if rc \<noteq> 0 then None else stack, s)
       }
     }
   }"

end
