(* ===== verification/Boot_Map.thy ===== *)
theory Boot_Map
  imports Boot
begin

text \<open>The address space the kernel starts with: \<open>k_boot_sysdev\<close> maps the lower 4 GiB of physical memory
  at \<open>K_VADDR_BASE\<close> with four superpages and switches to the new table.\<close>

section \<open>Superpages in the root table\<close>

definition flat :: "u64 \<Rightarrow> kmem \<Rightarrow> bool" where
  "flat r k \<longleftrightarrow> (\<forall>i<512. \<not> pte_ptr (pmem k (slot r i)))"

text \<open>Only entries of the table at \<open>p\<close> differ.\<close>

definition pages_kept :: "u64 \<Rightarrow> kmem \<Rightarrow> kmem \<Rightarrow> bool" where
  "pages_kept p k k' \<longleftrightarrow> (\<forall>b i. page_ok b \<longrightarrow> i < 512 \<longrightarrow> b \<noteq> p \<longrightarrow> pmem k' (slot b i) = pmem k (slot b i))"

lemma pages_kept_trans: "pages_kept p k k1 \<Longrightarrow> pages_kept p k1 k2 \<Longrightarrow> pages_kept p k k2"
  by (simp add: pages_kept_def)

lemma giga_block:
  assumes inv: "mmu_inv 39 ob k" and fl: "flat (mmu_root ob) k" and prot: "prot_ok prot"
    and vc: "sv_canonical 39 vc" "mmu_lookup 39 ob k vc = None" "take_bit 30 vc = 0"
  shows "\<exists>k' e. map_block 39 30 ob vc pc prot k = Some (0, k') \<and> mmu_inv 39 ob k' \<and> flat (mmu_root ob) k' \<and> same_env k k' \<and>
    pages_kept (mmu_root ob) k k' \<and>
    (\<forall>va. sv_canonical 39 va \<longrightarrow> mmu_lookup 39 ob k' va =
       (if va - vc < 2 ^ 30 then Some (0, leaf_pte (mmu_variant ob) pc prot e) else mmu_lookup 39 ob k va))"
proof -
  let ?r = "mmu_root ob" and ?idx = "sv_vpn 39 vc"
  have sv: "sv_mode 39" and top: "sv_top 39 = 2" and sh: "sv_shift 39 0 = 30" by (simp_all add: sv_mode_def sv_top_def sv_shift_def)
  have lv: "calcLevel 39 30 = int 0" by (simp add: calcLevel_def getMaxLevel_def)
  have wf: "pt_wf (pmem k) ?r (sv_top 39)" using inv by (simp add: mmu_inv_def)
  have b0: "tbl_at (pmem k) ?r ?idx 0 = Some ?r" by simp
  have ix: "idx_ok ?idx" by simp
  let ?e = "pmem k (slot ?r (?idx 0))"
  obtain b k1 where c: "createPTE 39 ob 0 vc k = Some (K_VADDR_BASE + slot b (?idx 0), k1)" "tbl_at (pmem k1) ?r ?idx 0 = Some b"
    using createPTE_spec [OF inv, of 0 vc] by auto
  then have c': "createPTE 39 ob 0 vc k = Some (K_VADDR_BASE + slot ?r (?idx 0), k)" by simp
  have pg: "page_ok ?r" using tbl_at_page_ok [OF wf ix _ b0] by simp
  have i: "?idx 0 < 512" by (rule idx_okD [OF ix])
  have nl: "\<not> leaf_at (pmem k) ?r ?idx 0 ?e" using vc(2) by (simp add: mmu_lookup_None)
  have "\<not> pte_ptr ?e" using fl i by (simp add: flat_def)
  then have nv: "\<not> pte_v ?e" using nl pt_wf_slot [OF wf ix _ b0] by (auto simp: leaf_at_def slot_ok_def)
  define k2 where "k2 = k\<lparr>pmem := (pmem k)(slot ?r (?idx 0) := leaf_pte (mmu_variant ob) pc prot ?e)\<rparr>"
  have m: "map_block 39 30 ob vc pc prot k = Some (0, k2)"
    using lv c' nv rd64_slot [OF pg i, of k] wr64_slot [OF pg i, of k] by (simp add: map_block_def k2_def)
  obtain e' where s: "mmu_inv 39 ob k2" "same_env k k2" "mapped_at 39 ob k k2 ?idx 0 (leaf_pte (mmu_variant ob) pc prot e')"
    using map_block_spec [OF inv _ lv _ prot, of vc pc] m vc(2) by (auto simp: mmu_lookup_None kdefs)
  have "\<not> pte_ptr (leaf_pte (mmu_variant ob) pc prot ?e)" by (rule not_leaf_ptr [OF leaf_pte_leaf [OF prot]])
  then have "flat ?r k2" using fl by (simp add: flat_def k2_def)
  moreover have "mmu_lookup 39 ob k2 va = (if va - vc < 2 ^ 30 then Some (0, leaf_pte (mmu_variant ob) pc prot e') else mmu_lookup 39 ob k va)"
    if "sv_canonical 39 va" for va
    using mapped_block_lookup [OF s(3) _ leaf_pte_leaf [OF prot] sv vc(1) that] vc(3) sh by simp
  moreover have "pages_kept ?r k k2" using pg i by (auto simp: pages_kept_def k2_def slot_eq_iff)
  ultimately show ?thesis using m s by blast
qed

text \<open>\<open>window n ob k\<close>: the table maps exactly the first \<open>n\<close> GiB behind \<open>K_VADDR_BASE\<close> and has no second
  level.\<close>

definition window :: "nat \<Rightarrow> rv64mmu \<Rightarrow> kmem \<Rightarrow> bool" where
  "window n ob k \<longleftrightarrow> mmu_inv 39 ob k \<and> flat (mmu_root ob) k \<and>
     (\<forall>va. sv_canonical 39 va \<longrightarrow> (if va - K_VADDR_BASE < of_nat n * 2 ^ 30
        then mmu_translate 39 ob k va = Some (va - K_VADDR_BASE, 0xEF) else mmu_lookup 39 ob k va = None))"

lemma high_canonical: "K_VADDR_BASE \<le> va \<Longrightarrow> sv_canonical 39 va"
proof -
  assume "K_VADDR_BASE \<le> va"
  then have "0xFFFFFFC000000000 \<le> unat va" by (simp add: K_VADDR_BASE_def word_le_nat_alt)
  moreover have "unat va < 2 ^ 64" by (rule order_less_le_trans [OF unsigned_less]) simp
  ultimately have "unat va div 2 ^ 38 = 2 ^ 26 - 1" by (intro div_nat_eqI) simp_all
  then have "unat (drop_bit 38 va) = unat (mask 26 :: u64)" by (simp only: unat_drop_bit_word) (simp add: mask_eq_exp_minus_1)
  then have d: "drop_bit 38 va = mask 26" by (simp only: word_unat_eq_iff)
  have b: "bit va (38 + j) \<longleftrightarrow> j < 26" for j
    using arg_cong [OF d, of "\<lambda>w. bit w j"] by (auto simp: bit_drop_bit_eq bit_mask_iff)
  have "bit va i" if "38 \<le> i" "i < 64" for i using b [of "i - 38"] that by simp
  then have "signed_take_bit 38 va = va" by (intro word_bit_extI) (auto simp: bit_signed_take_bit_iff min_def)
  then show ?thesis by (simp add: sv_canonical_def)
qed

lemma window_step:
  assumes w: "window n ob k" and n: "n < 4" and prot: "prot_ok prot" "prot_flags prot = 0xEF"
  shows "\<exists>k'. map_block 39 30 ob (K_VADDR_BASE + of_nat n * 2 ^ 30) (of_nat n * 2 ^ 30) prot k = Some (0, k') \<and>
    window (Suc n) ob k' \<and> same_env k k' \<and> pages_kept (mmu_root ob) k k'"
proof -
  let ?N = "of_nat n * 2 ^ 30 :: u64" and ?R = "of_nat (Suc n) * 2 ^ 30 :: u64"
  let ?vc = "K_VADDR_BASE + ?N"
  have "n = 0 \<or> n = 1 \<or> n = 2 \<or> n = 3" using n by auto
  then have c: "K_VADDR_BASE \<le> ?vc" "take_bit 30 ?vc = 0" "take_bit 30 ?N = 0" "take_bit 56 ?N = ?N" "?N \<le> ?R"
    by (elim disjE; simp add: K_VADDR_BASE_def)+
  have sp: "x < ?R \<longleftrightarrow> x < ?N \<or> x - ?N < 2 ^ 30" "x - ?N < 2 ^ 30 \<Longrightarrow> \<not> x < ?N" for x :: u64
    using range_split [OF c(5), of x] range_disjoint [OF c(5), of x] by (simp_all add: algebra_simps)
  have can: "sv_canonical 39 ?vc" by (rule high_canonical [OF c(1)])
  then have none: "mmu_lookup 39 ob k ?vc = None" using w by (auto simp: window_def)
  obtain k' e where k': "map_block 39 30 ob ?vc ?N prot k = Some (0, k')" "mmu_inv 39 ob k'" "flat (mmu_root ob) k'" "same_env k k'" "pages_kept (mmu_root ob) k k'"
    and lk: "\<And>va. sv_canonical 39 va \<Longrightarrow> mmu_lookup 39 ob k' va =
      (if va - ?vc < 2 ^ 30 then Some (0, leaf_pte (mmu_variant ob) ?N prot e) else mmu_lookup 39 ob k va)"
    using giga_block [OF _ _ prot(1) can none c(2), of ?N] w by (auto simp: window_def)
  have "if va - K_VADDR_BASE < ?R then mmu_translate 39 ob k' va = Some (va - K_VADDR_BASE, 0xEF) else mmu_lookup 39 ob k' va = None"
    if va: "sv_canonical 39 va" for va
  proof (cases "va - K_VADDR_BASE - ?N < 2 ^ 30")
    case True
    then have "mmu_lookup 39 ob k' va = Some (0, leaf_pte (mmu_variant ob) ?N prot e)" using lk [OF va] by (simp add: diff_diff_eq)
    from leaf_translate [OF this va, of ?vc] c True prot(2) sp(1) [of "va - K_VADDR_BASE"] show ?thesis
      by (simp add: sv_mode_def sv_shift_def sv_top_def diff_diff_eq algebra_simps)
  next
    case False
    then have "mmu_lookup 39 ob k' va = mmu_lookup 39 ob k va" using lk [OF va] by (simp add: diff_diff_eq)
    moreover from this have "mmu_translate 39 ob k' va = mmu_translate 39 ob k va"
      by (simp add: mmu_translate_def mmu_lookup_def sv_translate_def)
    moreover have "if va - K_VADDR_BASE < ?N then mmu_translate 39 ob k va = Some (va - K_VADDR_BASE, 0xEF) else mmu_lookup 39 ob k va = None"
      using w va by (simp add: window_def)
    ultimately show ?thesis using False sp(1) [of "va - K_VADDR_BASE"] by simp
  qed
  then show ?thesis using k' by (auto simp: window_def)
qed

lemma map_two:
  assumes w: "window n ob k" and n: "n = 0 \<or> n = 2" and prot: "prot AND 7 = 7" "prot_flags prot = 0xEF"
  shows "\<exists>k'. mmu_map 39 ob (K_VADDR_BASE + of_nat n * 2 ^ 30) (of_nat n * 2 ^ 30) 0x80000000 prot k = Some (0, k') \<and>
    window (n + 2) ob k' \<and> same_env k k' \<and> pages_kept (mmu_root ob) k k'"
proof -
  have ok: "prot_ok prot" using prot(1) by (simp add: prot_ok_def)
  obtain k1 where k1: "map_block 39 30 ob (K_VADDR_BASE + of_nat n * 2 ^ 30) (of_nat n * 2 ^ 30) prot k = Some (0, k1)"
    "window (Suc n) ob k1" "same_env k k1" "pages_kept (mmu_root ob) k k1" using window_step [OF w _ ok prot(2)] n by auto
  obtain k2 where k2: "map_block 39 30 ob (K_VADDR_BASE + of_nat (Suc n) * 2 ^ 30) (of_nat (Suc n) * 2 ^ 30) prot k1 = Some (0, k2)"
    "window (Suc (Suc n)) ob k2" "same_env k1 k2" "pages_kept (mmu_root ob) k1 k2" using window_step [OF k1(2) _ ok prot(2)] n by auto
  have p7: "(PROT_R OR PROT_W OR PROT_X) = (7 :: u32)" by (simp add: PROT_R_def PROT_W_def PROT_X_def)
  have "mmu_map 39 ob (K_VADDR_BASE + of_nat n * 2 ^ 30) (of_nat n * 2 ^ 30) 0x80000000 prot k = Some (0, k2)"
    using n k1(1) k2(1) prot(1)
    by (elim disjE) (simp_all add: mmu_map_def p7 map_loop.simps pick_block_def K_VADDR_BASE_def)
  then show ?thesis using k2(2) same_env_trans [OF k1(3) k2(3)] pages_kept_trans [OF k1(4) k2(4)] by simp
qed

lemma new_window:
  assumes h: "heap k = (K_VADDR_BASE + p) # ps" and p: "page_ok p" and d: "distinct (heap k)" "\<forall>t\<in>set ps. page_ok (t - K_VADDR_BASE)"
  obtains ob k' where "RV64MMU g 39 asid variant k = Some (ob, k')" "window 0 ob k'" "same_env k k'" "mmu_root ob = p" "pages_kept p k k'"
    "mmu_satp ob = bf_set 0 44 (drop_bit 12 p) (RV64MMUBase g 8 asid)"
proof -
  have sv: "sv_mode 39" by (simp add: sv_mode_def)
  obtain ob k' where r: "RV64MMU g 39 asid variant k = Some (ob, k')" "mmu_inv 39 ob k'" "same_env k k'"
      "\<forall>va. mmu_lookup 39 ob k' va = None" "mmu_root ob = p" "mmu_satp ob = bf_set 0 44 (drop_bit 12 p) (RV64MMUBase g 8 asid)"
    using RV64MMU_new [OF sv h p d, of g asid variant] by (auto simp: mmutype_def)
  obtain m' where "memset_page (k\<lparr>heap := ps\<rparr>) (K_VADDR_BASE + p) = Some (k\<lparr>heap := ps, pmem := m'\<rparr>)"
    and z: "\<And>j. j < 512 \<Longrightarrow> m' (slot p j) = 0" and o: "\<forall>b i. page_ok b \<longrightarrow> i < 512 \<longrightarrow> b \<noteq> p \<longrightarrow> m' (slot b i) = pmem k (slot b i)"
    using memset_window [OF p, of "k\<lparr>heap := ps\<rparr>"] by auto
  then have m': "pmem k' = m'" using r(1) h by (auto simp: RV64MMU_def alignedMalloc_def Let_def)
  have kept: "pages_kept p k k'" using o by (simp add: pages_kept_def m')
  from m' have "flat (mmu_root ob) k'" using z r(5) by (simp add: flat_def pte_ptr_def pte_v_def)
  then have "window 0 ob k'" using r(2,4) by (simp add: window_def)
  then show ?thesis using that r kept by blast
qed

lemma satp_fields:
  assumes "page_ok p"
  shows "drop_bit 60 (bf_set 0 44 (drop_bit 12 p) (RV64MMUBase g 8 asid)) = 8"
    "take_bit 44 (bf_set 0 44 (drop_bit 12 p) (RV64MMUBase g 8 asid)) = drop_bit 12 p"
proof -
  have "\<not> bit p i" if "32 \<le> i" for i using assms small_bits [of p i] that by (auto simp: page_ok_def)
  then show "take_bit 44 (bf_set 0 44 (drop_bit 12 p) (RV64MMUBase g 8 asid)) = drop_bit 12 p"
    by (intro word_bit_extI) (auto simp: bit_take_bit_iff bit_drop_bit_eq bf_bits)
  have "drop_bit 60 x = bf_get 60 4 x" for x :: u64
    by (rule word_bit_extI) (auto simp: bf_bits bit_drop_bit_eq dest: bit_imp_le_length)
  then show "drop_bit 60 (bf_set 0 44 (drop_bit 12 p) (RV64MMUBase g 8 asid)) = 8"
    by (simp add: bf_get_set_other RV64MMUBase_def bf_get_set_same)
qed

section \<open>Writing \<open>satp\<close>\<close>

text \<open>What a hart with Sv39 holds in \<open>satp\<close> after a write of that mode with a root table below 4 GiB: the mode
  and the page number, and of the address-space identifier the low \<open>n\<close> bits, for the number \<open>n\<close> of bits
  the hart implements (ASIDLEN, from 0 to 16).\<close>

definition keeps_sv39 :: "nat \<Rightarrow> (u64 \<Rightarrow> u64 \<Rightarrow> u64) \<Rightarrow> bool" where
  "keeps_sv39 n warl \<longleftrightarrow> n \<le> 16 \<and> (\<forall>old v. drop_bit 60 v = 8 \<longrightarrow> take_bit 44 v < 0x100000 \<longrightarrow>
     warl old v = bf_set 44 16 (take_bit n (bf_get 44 16 v)) v)"

lemma keeps_sv39D:
  "keeps_sv39 n warl \<Longrightarrow> drop_bit 60 v = 8 \<Longrightarrow> take_bit 44 v < 0x100000 \<Longrightarrow>
     warl old v = bf_set 44 16 (take_bit n (bf_get 44 16 v)) v"
  by (simp add: keeps_sv39_def)

lemma asid_kept: "bf_set 44 16 (take_bit n (bf_get 44 16 v)) v = v \<longleftrightarrow> (\<forall>i<16. n \<le> i \<longrightarrow> \<not> bit v (44 + i))"
proof
  assume e: "bf_set 44 16 (take_bit n (bf_get 44 16 v)) v = v"
  show "\<forall>i<16. n \<le> i \<longrightarrow> \<not> bit v (44 + i)"
  proof (intro allI impI)
    fix i :: nat assume "i < 16" "n \<le> i"
    then show "\<not> bit v (44 + i)" using arg_cong [OF e, of "\<lambda>w. bit w (44 + i)"] by (simp add: bf_bits bit_simps)
  qed
next
  assume a: "\<forall>i<16. n \<le> i \<longrightarrow> \<not> bit v (44 + i)"
  show "bf_set 44 16 (take_bit n (bf_get 44 16 v)) v = v"
  proof (rule word_bit_extI)
    fix i :: nat assume i: "i < 64"
    have "\<not> bit v i" if "44 \<le> i" "i < 60" "\<not> i - 44 < n" using a [rule_format, of "i - 44"] that by simp
    then show "bit (bf_set 44 16 (take_bit n (bf_get 44 16 v)) v) i = bit v i"
      using i by (auto simp: bf_bits bit_simps)
  qed
qed

lemma page_frame: "page_ok p \<Longrightarrow> drop_bit 12 p < 0x100000"
  by (simp add: page_ok_def word_less_nat_alt unat_drop_bit_word less_mult_imp_div_less)

lemma enable_asid:
  assumes w: "keeps_sv39 n warl" "\<And>old. warl old 0 = 0" and p: "page_ok p"
    and o: "mmu_satp ob = bf_set 0 44 (drop_bit 12 p) (RV64MMUBase g 8 (- 1))"
  shows "mmu_enable warl True ob k = (n = 16, k\<lparr>csr_satp := if n = 16 then mmu_satp ob else 0\<rparr>)"
proof -
  have f: "drop_bit 60 (mmu_satp ob) = 8" "take_bit 44 (mmu_satp ob) = drop_bit 12 p"
    using satp_fields [OF p, of g "- 1"] o by simp_all
  have "bit (mmu_satp ob) (44 + i)" if "i < 16" for i
    using that by (simp add: o RV64MMUBase_def bf_bits bit_simps)
  moreover have "n \<le> 16" using w(1) by (simp add: keeps_sv39_def)
  ultimately have "bf_set 44 16 (take_bit n (bf_get 44 16 (mmu_satp ob))) (mmu_satp ob) = mmu_satp ob \<longleftrightarrow> n = 16"
    unfolding asid_kept by (metis le_neq_implies_less le_refl not_le)
  moreover have "warl (csr_satp k) (mmu_satp ob) = bf_set 44 16 (take_bit n (bf_get 44 16 (mmu_satp ob))) (mmu_satp ob)"
    using keeps_sv39D [OF w(1) f(1)] f(2) page_frame [OF p] by simp
  ultimately show ?thesis by (auto simp: mmu_enable_def w(2))
qed

section \<open>The kernel's address space\<close>

text \<open>The new table and the switch to it.\<close>

lemma boot_mmu_window:
  assumes mode: "smallest_mmu (cpus (kcpu (kd s))) = 39"
    and heap: "heap (km s) = (K_VADDR_BASE + p) # ps" "page_ok p" "distinct (heap (km s))" "\<forall>t\<in>set ps. page_ok (t - K_VADDR_BASE)"
    and warl: "keeps_sv39 n (e_warl e)" "\<And>old. e_warl e old 0 = 0"
  shows "\<exists>s' ob. boot_mmu e s = Some (if n = 16 then 0 else K_EFAIL, s') \<and> sysmmu s' = Some (39, ob) \<and> mmu_inv 39 ob (km s') \<and>
    csr_satp (km s') = (if n = 16 then getSATP ob else 0) \<and> take_bit 44 (getSATP ob) = drop_bit 12 (mmu_root ob) \<and>
    drop_bit 60 (getSATP ob) = 8 \<and> pages_kept p (km s) (km s') \<and>
    (\<forall>va. sv_canonical 39 va \<longrightarrow> mmu_translate 39 ob (km s') va =
       (if va - K_VADDR_BASE < 2 ^ 32 then Some (va - K_VADDR_BASE, 0xEF) else None))"
proof -
  define v where "v = (if fst (getVID (e_fw e) (kio (kd s))) = 0x5B7 then VARIANT_THEAD_C906 else 0)"
  obtain ob k0 where k0: "RV64MMU (e_junk e) 39 (- 1) v (km s) = Some (ob, k0)" "window 0 ob k0" "same_env (km s) k0" "mmu_root ob = p"
    "mmu_satp ob = bf_set 0 44 (drop_bit 12 p) (RV64MMUBase (e_junk e) 8 (- 1))" and kp0: "pages_kept p (km s) k0"
    using new_window [OF heap] by blast
  let ?p1 = "PROT_R OR PROT_W OR PROT_X OR PROT_G OR PROT_IO" and ?p2 = "PROT_R OR PROT_W OR PROT_X OR PROT_G"
  have fl: "?p1 AND 7 = 7" "?p2 AND 7 = 7" "prot_flags ?p1 = 0xEF" "prot_flags ?p2 = 0xEF" by (simp_all add: prot_flags_def kdefs)
  obtain k1 where k1: "mmu_map 39 ob (K_VADDR_BASE + of_nat 0 * 2 ^ 30) (of_nat 0 * 2 ^ 30) 0x80000000 ?p1 k0 = Some (0, k1)"
    "window (0 + 2) ob k1" "pages_kept (mmu_root ob) k0 k1"
    using map_two [OF k0(2) _ fl(1,3)] by blast
  obtain k2 where k2: "mmu_map 39 ob (K_VADDR_BASE + of_nat (0 + 2) * 2 ^ 30) (of_nat (0 + 2) * 2 ^ 30) 0x80000000 ?p2 k1 = Some (0, k2)"
    "window (0 + 2 + 2) ob k2" "pages_kept (mmu_root ob) k1 k2"
    using map_two [OF k1(2) _ fl(2,4)] by auto
  obtain vm where c: "confirm (mmu_map 39 ob) (mmu_unmap 39 ob) (boot_vmm (VMemoryMgr [])) k0 = Some (0, vm, k2)"
    using k1(1) k2(1) by (simp add: confirm_def boot_vmm_def VMemoryMgr_def addMap_def Let_def kdefs)
  have sp: "drop_bit 60 (mmu_satp ob) = 8" "take_bit 44 (mmu_satp ob) = drop_bit 12 p"
    using satp_fields [OF heap(2), of "e_junk e" "- 1"] k0(5) by simp_all
  define k3 where "k3 = k2\<lparr>csr_satp := if n = 16 then mmu_satp ob else 0\<rparr>"
  define k4 where "k4 = (if n = 16 then k3\<lparr>low_map := False\<rparr> else k3)"
  have en: "mmu_enable (e_warl e) True ob k2 = (n = 16, k3)" unfolding k3_def by (rule enable_asid [OF warl heap(2) k0(5)])
  obtain vid w where g: "getVID (e_fw e) (kio (kd s)) = (vid, w)" by fastforce
  define s' where "s' = s\<lparr>kd := (kd s)\<lparr>kio := w\<rparr>, sysmmu := Some (39, ob), sysvmm := Some vm, km := k4\<rparr>"
  have k4: "pmem k4 = pmem k2" "heap k4 = heap k2" "csr_satp k4 = (if n = 16 then mmu_satp ob else 0)"
    by (simp_all add: k4_def k3_def)
  have "boot_mmu e s = Some (if n = 16 then 0 else K_EFAIL, s')"
    using mode g k0(1) c en by (simp add: boot_mmu_def Let_def v_def s'_def k4_def)
  moreover have "mmu_inv 39 ob k4" using k2(2) k4 by (simp add: window_def mmu_inv_def heap_ok_def)
  moreover have "pages_kept p (km s) k4"
    using pages_kept_trans [OF kp0 pages_kept_trans [OF k1(3) k2(3), unfolded k0(4)]] k4 by (simp add: pages_kept_def)
  moreover have "mmu_translate 39 ob k4 va = (if va - K_VADDR_BASE < 2 ^ 32 then Some (va - K_VADDR_BASE, 0xEF) else None)"
    if va: "sv_canonical 39 va" for va
  proof -
    have "mmu_translate 39 ob k4 va = mmu_translate 39 ob k2 va" by (simp add: mmu_translate_def k4)
    moreover have "if va - K_VADDR_BASE < 2 ^ 32 then mmu_translate 39 ob k2 va = Some (va - K_VADDR_BASE, 0xEF) else mmu_lookup 39 ob k2 va = None"
      using k2(2) va by (simp add: window_def)
    ultimately show ?thesis by (auto simp: mmu_translate_def mmu_lookup_def sv_translate_def split: if_splits)
  qed
  ultimately show ?thesis using sp k0(4) k4(3) by (intro exI [of _ s'] exI [of _ ob]) (simp add: s'_def getSATP_def)
qed


text \<open>A machine of two harts, one of them with Sv39 only, with twenty free pages; its \<open>satp\<close> implements \<open>n\<close> bits of
  the address-space identifier.\<close>

definition warl39 :: "nat \<Rightarrow> u64 \<Rightarrow> u64 \<Rightarrow> u64" where
  "warl39 n old v = (if drop_bit 60 v = 8 then bf_set 44 16 (take_bit n (bf_get 44 16 v)) v else if v = 0 then 0 else old)"

lemma warl39_keeps: "n \<le> 16 \<Longrightarrow> keeps_sv39 n (warl39 n)" "warl39 n old 0 = 0"
  by (simp_all add: keeps_sv39_def warl39_def)

definition demo_env :: "nat \<Rightarrow> unit kenv" where
  "demo_env n = \<lparr>e_fw = (\<lambda>_ w. ((0, 0), w)), e_io = \<lparr>mm_read = (\<lambda>_ _ w. (0, w)), mm_write = (\<lambda>_ _ _ w. w)\<rparr>,
     e_warl = warl39 n, e_junk = 0, e_malloc = (\<lambda>_. 0), e_ram = (0, []), e_nbuf = 0\<rparr>"

definition demo_kst :: "unit kst" where
  "demo_kst = \<lparr>k_fdt = (0, []),
     kd = (drv_register ())\<lparr>kcpu := \<lparr>timebase_freq = 0,
       cpus = [\<lparr>hid = 0, cpu_state = True, xlen = 64, cpu_mmu = 48, extension = []\<rparr>,
               \<lparr>hid = 1, cpu_state = True, xlen = 64, cpu_mmu = 39, extension = []\<rparr>], cpu_hdlcount = 2\<rparr>\<rparr>,
     kvfs = vfs_init, km = demo_mem, k_stage = K_BOOT, sysroot_p = None, syscpu_p = None, sysmem_p = None, sysmmu = None,
     sysvmm = None, k_stack_base = 0, k_cpuclock = 0, k_stdout_func = None, k_stdout_switched = False\<rparr>"

lemma demo_heap:
  "heap demo_mem = (K_VADDR_BASE + 0x80001000) # map (\<lambda>n. K_VADDR_BASE + 0x80000000 + 4096 * word_of_nat n) [2..<20]"
  "distinct (heap demo_mem)" "\<forall>t\<in>set (heap demo_mem). page_ok (t - K_VADDR_BASE)"
  using demo_inv by (simp_all add: demo_mem_def upt_conv_Cons mmu_inv_def heap_ok_def)

lemma demo_mode: "smallest_mmu (cpus (kcpu (kd demo_kst))) = 39" "km demo_kst = demo_mem"
  by (simp_all add: demo_kst_def smallest_mmu_def)


end
