(* ===== verification/Boot_Root.thy ===== *)
theory Boot_Root
  imports Boot_Map
begin

text \<open>From the device tree to the root file system: in a blob a tree was flattened into, the root driver
  reads the strings and addresses of \<open>/chosen\<close> that the tree has there, and \<open>k_boot_perip\<close> mounts the
  archive they describe.\<close>

section \<open>Properties of a node as the drivers read them\<close>

lemma cstr_until: "at m a v \<Longrightarrow> 0 \<in> set v \<Longrightarrow> cstr m a = Some (takeWhile (\<lambda>c. c \<noteq> 0) v)"
proof -
  assume a: "at m a v" "0 \<in> set v"
  obtain xs ys where v: "v = xs @ 0 # ys" "0 \<notin> set xs" using split_list_first [OF a(2)] by auto
  then have "at m a (xs @ [0])" using a(1) at_append [of m a "xs @ [0]" ys] by simp
  moreover have "takeWhile (\<lambda>c. c \<noteq> 0) v = xs" unfolding v(1) by (subst takeWhile_append2) (use v(2) in auto)
  ultimately show ?thesis using cstr_at v(2) by simp
qed

definition str_prop :: "dtree \<Rightarrow> u8 list \<Rightarrow> bool" where
  "str_prop u name \<longleftrightarrow> (case map_of (dt_props u) name of None \<Rightarrow> True | Some v \<Rightarrow> 0 \<in> set v)"

definition str_val :: "dtree \<Rightarrow> u8 list \<Rightarrow> u8 list \<Rightarrow> u8 list" where
  "str_val u name dflt = (case map_of (dt_props u) name of None \<Rightarrow> dflt | Some v \<Rightarrow> takeWhile (\<lambda>c. c \<noteq> 0) v)"

text \<open>An address in one or in two cells.\<close>

definition addr_cells :: "u8 list \<Rightarrow> u64 \<Rightarrow> bool" where
  "addr_cells v x \<longleftrightarrow> (\<exists>a. v = be4 a \<and> x = ucast a) \<or> (\<exists>h l. v = be4 h @ be4 l \<and> x = push_bit 32 (ucast h) OR ucast l)"

lemma prop_str_at:
  assumes u: "in_tree fdt no N k u" and s: "str_prop u name"
  shows "prop_str fdt (int k) name dflt = Some (str_val u name dflt)"
  using in_tree_property [OF u, of name] s cstr_until [of fdt]
  by (cases "map_of (dt_props u) name") (auto simp: prop_str_def str_prop_def str_val_def)

lemma prop_addr_at:
  assumes u: "in_tree fdt no N k u" and v: "map_of (dt_props u) name = Some v" "addr_cells v x"
  shows "prop_addr fdt (int k) name = Some (Some x)"
proof -
  obtain a where a: "fdt_get_property fdt (int k) name = Some (Some a, int (length v))" "at fdt (a + 12) v"
    using in_tree_property [OF u, of name] v(1) by auto
  from v(2) show ?thesis unfolding addr_cells_def
  proof (elim disjE exE conjE)
    fix w assume w: "v = be4 w" "x = ucast w"
    then show ?thesis using a ld_be4 [of fdt "a + 12" w "[]"] by (simp add: prop_addr_def)
  next
    fix h l assume w: "v = be4 h @ be4 l" "x = push_bit 32 (ucast h) OR ucast l"
    then have "fdt32_ld fdt (a + 12) = Some h" "fdt32_ld fdt (a + 12 + 4) = Some l"
      using a(2) by (auto simp: at_append intro: ld_be4 [where xs = "[]"] ld_be4)
    then have "fdt64_ld fdt (a + 12) = Some x" using w(2) by (simp add: fdt64_ld_def)
    then show ?thesis using a(1) w(1) by (simp add: prop_addr_def)
  qed
qed

section \<open>The root driver\<close>

lemma by_probe_total: "(\<And>d. pr d (Some n) (Some c) \<noteq> None) \<Longrightarrow> getDriverByProbe pr n c ds \<noteq> None"
  by (induction ds) (auto split: bind_splits)

lemma k_probe_total: "k_probe d (Some n) (Some c) \<noteq> None"
  by (cases d) (auto simp: k_probe_def root_probe_def mem_probe_def cpu_probe_def uart_probe_def)

lemma default_scheduler:
  "getDriverByProbe k_probe (lit ''scheduler-rr'') (lit ''sys,scheduler'') (drvlist (drv_register w)) = Some (Some RoundRobinScheduler)"
  by (simp add: drv_register_def addDriver_def kdev_init_def k_probe_def root_probe_def mem_probe_def cpu_probe_def rr_probe_def kdefs lit_def)

lemma boot_scheduler: "pick_scheduler k_probe a (drvlist (drv_register w)) None = Some (Some RoundRobinScheduler)"
proof -
  let ?ds = "drvlist (drv_register w)"
  note d = default_scheduler [of w]
  obtain q where q: "pick_scheduler k_probe a ?ds None = Some q" "q \<noteq> None"
  proof (cases "Option.bind a sched_arg")
    case None
    with that [of "Some RoundRobinScheduler"] d show ?thesis by (simp add: pick_scheduler_def)
  next
    case (Some n)
    obtain r where "getDriverByProbe k_probe (lit ''scheduler-'' @ n) (lit ''sys,scheduler'') ?ds = Some r"
      using by_probe_total [of k_probe, OF k_probe_total] by fastforce
    with Some that [of "Some RoundRobinScheduler"] that [of r] d show ?thesis by (cases r) (simp_all add: pick_scheduler_def)
  qed
  then show ?thesis using pick_scheduler_rr [OF q(1)] by auto
qed

lemma initrd_at:
  assumes u: "in_tree fdt no N k u"
    and i: "map_of (dt_props u) (lit ''linux,initrd-start'') = Some vs" "addr_cells vs a"
      "map_of (dt_props u) (lit ''linux,initrd-end'') = Some ve" "addr_cells ve e" "0 < a" "a < e"
  shows "initrd_of fdt (int k) old =
    Some (dec (unat (a OR K_VADDR_BASE)) @ 0x2c # dec (unat ((e OR K_VADDR_BASE) - (a OR K_VADDR_BASE))))"
proof -
  have "a \<noteq> 0" "e \<noteq> 0" using i(5,6) by auto
  with prop_addr_at [OF u i(1,2)] prop_addr_at [OF u i(3,4)] i(6) show ?thesis
    by (simp add: initrd_of_def Let_def K_VADDR_BASE_def lit_def)
qed

lemma chosen_at:
  assumes "tree_blob fdt no N t" "dt_lookup t [lit ''chosen''] = Some c"
  obtains j where "in_tree fdt no N 0 t" "in_tree fdt no N j c" "fdt_path_offset fdt (lit ''/chosen'') = Some (int j)"
proof -
  have "path_ok [lit ''chosen'']" "path_bytes [lit ''chosen''] = lit ''/chosen''" by (simp_all add: path_ok_def path_bytes_def lit_def)
  with in_tree_path [OF assms(1), of "[lit ''chosen'']"] assms(2) that in_tree_root [OF assms(1)] show ?thesis by auto
qed

lemma root_add_at:
  assumes t: "in_tree fdt no N 0 t" and c: "in_tree fdt no N j c" "fdt_path_offset fdt (lit ''/chosen'') = Some (int j)"
    and s: "str_prop t (lit ''compatible'')" "str_prop t (lit ''model'')" "str_prop c (lit ''stdout-path'')" "str_prop c (lit ''bootargs'')"
    and i: "initrd_of fdt (int j) [] = Some rd"
  shows "\<exists>d. root_addDevice k_probe fdt 0 (drv_register w) = Some (0, d) \<and> initrd_path (kroot d) = rd \<and>
    stdout_path (kroot d) = str_val c (lit ''stdout-path'') [] \<and> root_scheduler (kroot d) = Some RoundRobinScheduler \<and>
    devhdl d = map_insert (int j) (GenericRoot, DRV_CAP_THIS, 0) []"
proof -
  have z: "devhdl (drv_register w) = []" "kroot (drv_register w) = \<lparr>root_compatible = [], root_model = [], stdout_path = [], bootargs = [], initrd_path = [], root_scheduler = None\<rparr>"
    by (simp_all add: drv_register_def addDriver_def kdev_init_def)
  note p = prop_str_at [OF t s(1), of "lit ''Generic''"] prop_str_at [OF t s(2), of "lit ''Generic''"] prop_str_at [OF c(1) s(3), of "[]"]
    prop_str_at [OF c(1) s(4), of "[]"]
  obtain q l where q: "fdt_get_property fdt (int j) (lit ''bootargs'') = Some (q, l)"
    using in_tree_property [OF c(1), of "lit ''bootargs''"] by (auto split: option.splits)
  obtain a l where "fdt_get_name fdt (int j) = Some (Some a, l)" using get_name_at [OF c(1)] by blast
  then show ?thesis
    using p c(2) i q boot_scheduler [of _ w] by (simp add: root_addDevice_def z markInstalled_def Let_def)
qed

section \<open>From the tree to the bytes of a file\<close>

text \<open>C5: When the device tree has in \<open>/chosen\<close> the bounds of an archive that lies there in memory, the root
  driver accepts the tree, mounting the root file system as \<open>k_boot_perip\<close> does succeeds, and a program
  that opens a file of the archive, reads \<open>n\<close> bytes and closes it gets the first \<open>n\<close> bytes of the
  contents the archive was written with.\<close>

theorem boot_initrd_readable:
  assumes t: "tree_blob fdt no N t" "dt_lookup t [lit ''chosen''] = Some c"
    and s: "str_prop t (lit ''compatible'')" "str_prop t (lit ''model'')" "str_prop c (lit ''stdout-path'')" "str_prop c (lit ''bootargs'')"
    and i: "map_of (dt_props c) (lit ''linux,initrd-start'') = Some vs" "addr_cells vs a"
      "map_of (dt_props c) (lit ''linux,initrd-end'') = Some ve" "addr_cells ve en" "0 < a" "a < en"
    and ram: "e_ram e = (unat (a OR K_VADDR_BASE), archive_bytes fs)"
      "unat ((en OR K_VADDR_BASE) - (a OR K_VADDR_BASE)) = length (archive_bytes fs)" "unat (a OR K_VADDR_BASE) mod 4 = 0" "e_nbuf e mod 4 = 0"
    and fs: "files_ok fs" "length (archive_bytes fs) < 2 ^ 63" "find (\<lambda>f. cf_name f = name) fs = Some f" "cpath (0x2f # name)" "n < 2 ^ 31"
  shows "\<exists>d k' v. root_addDevice k_probe fdt 0 (drv_register w) = Some (0, d) \<and>
    boot_rootfs e (k\<lparr>kd := d, kvfs := devfs_register (cpiofs_register vfs_init)\<rparr>) = Some (0, k') \<and>
    libc_hooks fs_vtable [FOpen (0x2f # name), FRead 3 (int n), FClose 3] (kvfs k') =
      Some ([(3, []), (int (min n (length (cf_data f))), take n (cf_data f)), (K_OK, [])], v)"
proof -
  obtain j where j: "in_tree fdt no N 0 t" "in_tree fdt no N j c" "fdt_path_offset fdt (lit ''/chosen'') = Some (int j)"
    using chosen_at [OF t] .
  obtain d where d: "root_addDevice k_probe fdt 0 (drv_register w) = Some (0, d)"
    "initrd_path (kroot d) = dec (unat (a OR K_VADDR_BASE)) @ 0x2c # dec (length (archive_bytes fs))"
    using root_add_at [OF j s initrd_at [OF j(2) i], of w] ram(2) by auto
  have "unat (a OR K_VADDR_BASE) < 2 ^ 64" by (rule order_less_le_trans [OF unsigned_less]) simp
  from root_archive_read [OF fs(1) ram(3,4) this fs(2-5)]
  obtain v0 v where v: "vfs_mount (e_ram e) (e_nbuf e) [0x2f] (initrd_path (kroot d)) None (devfs_register (cpiofs_register vfs_init)) = Some (0, v0)"
    "libc_hooks fs_vtable [FOpen (0x2f # name), FRead 3 (int n), FClose 3] v0 =
      Some ([(3, []), (int (min n (length (cf_data f))), take n (cf_data f)), (K_OK, [])], v)"
    using ram(1) d(2) by auto
  have "boot_rootfs e (k\<lparr>kd := d, kvfs := devfs_register (cpiofs_register vfs_init)\<rparr>) =
      Some (0, k\<lparr>kd := d, kvfs := devfs_register (cpiofs_register vfs_init)\<rparr>\<lparr>kvfs := v0\<rparr>)"
    using v(1) d(2) by (simp add: boot_rootfs_def lit_def)
  with d(1) v(2) show ?thesis by (intro exI [of _ d] exI [of _ "k\<lparr>kd := d, kvfs := v0\<rparr>"] exI [of _ v]) simp
qed

text \<open>A blob whose \<open>/chosen\<close> node has boot arguments and the bounds of an archive with one file.\<close>

definition chosen_fdt :: bmem where
  "chosen_fdt = (8, [208, 13, 254, 237, 0, 0, 0, 181, 0, 0, 0, 56, 0, 0, 0, 136, 0, 0, 0, 40, 0, 0, 0, 17, 0, 0, 0, 16, 0, 0, 0, 0, 0, 0, 0,
     45, 0, 0, 0, 80, 0, 0, 0, 0, 0, 0, 0, 0, 0, 0, 0, 0, 0, 0, 0, 0, 0, 0, 0, 1, 0, 0, 0, 0, 0, 0, 0, 1, 99, 104, 111,
     115, 101, 110, 0, 0, 0, 0, 0, 3, 0, 0, 0, 2, 0, 0, 0, 0, 97, 0, 0, 0, 0, 0, 0, 3, 0, 0, 0, 4, 0, 0, 0, 9, 136, 0,
     0, 0, 0, 0, 0, 3, 0, 0, 0, 4, 0, 0, 0, 28, 136, 0, 0, 244, 0, 0, 0, 2, 0, 0, 0, 2, 0, 0, 0, 9, 98, 111, 111, 116,
     97, 114, 103, 115, 0, 108, 105, 110, 117, 120, 44, 105, 110, 105, 116, 114, 100, 45, 115, 116, 97, 114, 116, 0,
     108, 105, 110, 117, 120, 44, 105, 110, 105, 116, 114, 100, 45, 101, 110, 100, 0])"

definition chosen_no :: "u8 list \<Rightarrow> nat" where
  "chosen_no n = (if n = lit ''bootargs'' then 0 else if n = lit ''linux,initrd-start'' then 9 else 28)"

definition chosen_names :: "u8 list set" where
  "chosen_names = {lit ''bootargs'', lit ''linux,initrd-start'', lit ''linux,initrd-end''}"

definition chosen_node :: dtree where
  "chosen_node = DNode (lit ''chosen'') [(lit ''bootargs'', [0x61, 0]), (lit ''linux,initrd-start'', be4 0x88000000),
     (lit ''linux,initrd-end'', be4 0x880000F4)] []"

lemma chosen_fdt_parts:
  "struct_block chosen_fdt 64 80" "node_at chosen_fdt chosen_no 64 80 0 (DNode [] [] [chosen_node])"
  "strings_block chosen_fdt chosen_no chosen_names" "dt_ok chosen_names (DNode [] [] [chosen_node])"
proof -
  have h: "fdt_version chosen_fdt = Some 17" "fdt_totalsize chosen_fdt = Some 181" "fdt_off_dt_struct chosen_fdt = Some 56"
    "fdt_size_dt_struct chosen_fdt = Some 80" "fdt_magic chosen_fdt = Some FDT_MAGIC" "fdt_off_dt_strings chosen_fdt = Some 136"
    "fdt_size_dt_strings chosen_fdt = Some 45" "fdt_ro_probe chosen_fdt = Some 181" by code_simp+
  have l: "fst chosen_fdt = 8" "length (snd chosen_fdt) = 181" by (simp_all add: chosen_fdt_def)
  have "fdt_mapped chosen_fdt" using h l by (simp add: fdt_mapped_def)
  then show "struct_block chosen_fdt 64 80" using h l by (simp add: struct_block_def)
  have r: "replicate 3 (0 :: u8) = [0, 0, 0]" "replicate 2 (0 :: u8) = [0, 0]" by (simp_all add: numeral_eq_Suc)
  show "node_at chosen_fdt chosen_no 64 80 0 (DNode [] [] [chosen_node])"
    by (simp add: node_at_def chosen_node_def chosen_no_def name_bytes_def prop_bytes_def padded_def al4_def be4_def fdt_tags lit_def at_simps chosen_fdt_def rd8_def r)
  show "strings_block chosen_fdt chosen_no chosen_names"
    using h l by (simp add: strings_block_def chosen_names_def chosen_no_def lit_def at_simps) (simp add: chosen_fdt_def rd8_def)
  show "dt_ok chosen_names (DNode [] [] [chosen_node])" by (simp add: chosen_node_def chosen_names_def lit_def)
qed

lemma chosen_fdt_blob: "tree_blob chosen_fdt chosen_no chosen_names (DNode [] [] [chosen_node])"
  using chosen_fdt_parts by (auto simp: tree_blob_def)

lemma chosen_tree:
  "dt_lookup (DNode [] [] [chosen_node]) [lit ''chosen''] = Some chosen_node" "str_prop (DNode [] [] [chosen_node]) n"
  "str_prop chosen_node (lit ''stdout-path'')" "str_prop chosen_node (lit ''bootargs'')"
  "map_of (dt_props chosen_node) (lit ''linux,initrd-start'') = Some (be4 0x88000000)" "addr_cells (be4 0x88000000) 0x88000000"
  "map_of (dt_props chosen_node) (lit ''linux,initrd-end'') = Some (be4 0x880000F4)" "addr_cells (be4 0x880000F4) 0x880000F4"
proof -
  show "addr_cells (be4 0x88000000) 0x88000000" "addr_cells (be4 0x880000F4) 0x880000F4"
    unfolding addr_cells_def by (rule disjI1, rule exI, rule conjI, rule refl, simp)+
qed (simp_all add: chosen_node_def lit_def name_match_def str_prop_def)

theorem boot_initrd_readable_witness:
  "\<exists>d k' v. root_addDevice k_probe chosen_fdt 0 (drv_register ()) = Some (0, d) \<and>
    boot_rootfs ((demo_env 16)\<lparr>e_ram := (0xFFFFFFC088000000, archive_bytes [demo_file])\<rparr>)
      (demo_kst\<lparr>kd := d, kvfs := devfs_register (cpiofs_register vfs_init)\<rparr>) = Some (0, k') \<and>
    libc_hooks fs_vtable [FOpen [0x2f, 0x61, 0x62], FRead 3 2, FClose 3] (kvfs k') = Some ([(3, []), (2, [1, 2]), (K_OK, [])], v)"
proof -
  let ?e = "(demo_env 16)\<lparr>e_ram := (0xFFFFFFC088000000, archive_bytes [demo_file])\<rparr>"
  have l: "length (archive_bytes [demo_file]) = 244" by code_simp
  have r: "e_ram ?e = (unat (0x88000000 OR K_VADDR_BASE), archive_bytes [demo_file])" "e_nbuf ?e mod 4 = 0"
    "unat ((0x880000F4 OR K_VADDR_BASE) - (0x88000000 OR K_VADDR_BASE)) = length (archive_bytes [demo_file])"
    "unat (0x88000000 OR K_VADDR_BASE) mod 4 = 0" using l by (simp_all add: K_VADDR_BASE_def demo_env_def)
  have f: "find (\<lambda>f. cf_name f = [0x61, 0x62]) [demo_file] = Some demo_file" "cpath [0x2f, 0x61, 0x62]"
    by (simp_all add: demo_file_def cpath_def)
  have d: "take 2 (cf_data demo_file) = [1, 2]" "length (cf_data demo_file) = 3"
    by (simp_all add: demo_file_def numeral_2_eq_2)
  show ?thesis
    using boot_initrd_readable [OF chosen_fdt_blob chosen_tree(1,2,2,3-8) _ _ r(1,3,4,2) demo_file_ok _ f, of 2 "()" demo_kst] l d by simp
qed

end
