(* ===== verification/Boot_Types.thy ===== *)
theory Boot_Types
  imports Boot_Root
begin

text \<open>The casts of \<open>k_boot_sysdev\<close>: the drivers found under the paths of the root, the CPUs and the memory
  are the ones \<^verbatim>\<open>kernel/main/k_boot.cpp\<close> takes them for without a check.\<close>

section \<open>The driver behind a path\<close>

lemma sys_table:
  assumes "boot_probe e DEV_TYPE_SYS s = Some s1" "kd s = drv_register w"
  shows "table_ok (kvalid DEV_TYPE_SYS) (k_fdt s) (kd s1)" "kinv (kd s1)" "s1 = s\<lparr>kd := kd s1\<rparr>"
  using assms kdi.probe_keeps [of "e_io e" "e_junk e" "k_fdt s" DEV_TYPE_SYS "Node 0" "drv_register w" _ "kd s1"]
  by (auto simp: boot_probe_def drv_probe_def kinv_init table_init split: bind_splits)

lemma path_driver:
  assumes b: "table_ok (kvalid DEV_TYPE_SYS) fdt d" "tree_blob fdt no N t" and p: "fdt_path_offset fdt path = Some k"
    "0 \<le> k \<longrightarrow> fdt_get_name fdt k = Some (Some a, l) \<and> cstr fdt a = Some n"
  obtains (none) "getDrvByPath fdt path d = Some (K_ENODEV, None)"
    | (some) h x where "getDrvByPath fdt path d = Some (h, Some x)" "0 \<le> h" "sys_node n x"
proof (cases "0 \<le> k \<and> map_find (devhdl d) k \<noteq> None")
  case False
  then have "getDrvByPath fdt path d = Some (K_ENODEV, None)"
    using p(1) by (cases "map_find (devhdl d) k") (auto simp: getDrvByPath_def)
  then show ?thesis by (rule none)
next
  case True
  then obtain x cap h where x: "map_find (devhdl d) k = Some (x, cap, h)" by auto
  then have "0 \<le> h" "kvalid DEV_TYPE_SYS fdt k x h d" using b(1) by (auto simp: table_ok_def)
  moreover then have "sys_node n x" using b(2) p(2) True by (auto simp: kvalid_def node_driver_def)
  ultimately show ?thesis using p(1) x True some by (auto simp: getDrvByPath_def)
qed

lemma root_driver:
  assumes "table_ok (kvalid DEV_TYPE_SYS) fdt d" "tree_blob fdt no N t" "dt_name t = []"
  shows "\<exists>h x. getDrvByPath fdt (lit ''/'') d = Some (h, x) \<and> (0 \<le> h \<longrightarrow> x = Some GenericRoot)"
proof -
  obtain k where k: "fdt_path_offset fdt (lit ''/'') = Some (int k)" "in_tree fdt no N k t"
    using in_tree_path [OF assms(2), of "[]"] by (auto simp: path_ok_def path_bytes_def lit_def)
  obtain a l where a: "fdt_get_name fdt (int k) = Some (Some a, l)" "cstr fdt a = Some []" using get_name_at [OF k(2)] assms(3) by auto
  from k(1) show ?thesis by (rule path_driver [OF assms(1,2)]) (use a in \<open>auto simp: sys_node_def kdefs\<close>)
qed

lemma child_driver:
  assumes b: "table_ok (kvalid DEV_TYPE_SYS) fdt d" "tree_blob fdt no N t" and c: "c \<noteq> []" "0x2f \<notin> set c"
  shows "\<exists>h x. getDrvByPath fdt (0x2f # c) d = Some (h, x) \<and> (0 \<le> h \<longrightarrow> (\<exists>n y. prefix c n \<and> x = Some y \<and> sys_node n y))"
  using in_tree_child [OF b(2) c]
proof (elim disjE exE conjE)
  fix k a l n assume k: "fdt_path_offset fdt (0x2f # c) = Some (int k)" "fdt_get_name fdt (int k) = Some (Some a, l)" "cstr fdt a = Some n" "prefix c n"
  from k(1) show ?thesis by (rule path_driver [OF b]) (use k in \<open>auto simp: kdefs\<close>)
qed (auto simp: getDrvByPath_def fdt_errs kdefs)

section \<open>The casts\<close>

text \<open>C13: When the system drivers have been probed on a well-formed tree, \<open>k_boot_sysdev\<close> does not call a
  method on an object of another class: it ends, the device table is well typed, and when it succeeds
  \<open>sysroot\<close>, \<open>syscpu\<close> and \<open>sysmem\<close> point to the root, the CPU and the memory driver.\<close>

theorem boot_casts_typed:
  assumes t: "tree_blob (k_fdt s) no N t" "dt_name t = []" and p: "kd s = drv_register w" "boot_probe e DEV_TYPE_SYS s = Some s1"
  shows "\<exists>rc s2. boot_sysdev_devices e s = Some (rc, s2) \<and> table_ok (kvalid DEV_TYPE_SYS) (k_fdt s) (kd s2) \<and> kinv (kd s2) \<and>
    (rc = 0 \<longrightarrow> sysroot_p s2 = Some GenericRoot \<and> syscpu_p s2 = Some GenericCPU \<and> sysmem_p s2 = Some GenericMem)"
proof -
  note b = sys_table [OF p(2,1)]
  have f: "k_fdt s1 = k_fdt s" by (subst b(3)) simp
  obtain hr xr where r: "getDrvByPath (k_fdt s) (lit ''/'') (kd s1) = Some (hr, xr)" "0 \<le> hr \<longrightarrow> xr = Some GenericRoot"
    using root_driver [OF b(1) t] by blast
  have l: "lit ''/cpus'' = 0x2f # lit ''cpus''" "lit ''/memory'' = 0x2f # lit ''memory''" by (simp_all add: lit_def)
  obtain hc xc where c: "getDrvByPath (k_fdt s) (lit ''/cpus'') (kd s1) = Some (hc, xc)" "0 \<le> hc \<longrightarrow> xc = Some GenericCPU"
    using child_driver [OF b(1) t(1), of "lit ''cpus''"] by (auto simp: l sys_node_def) (auto simp: lit_def)
  obtain hm xm where m: "getDrvByPath (k_fdt s) (lit ''/memory'') (kd s1) = Some (hm, xm)" "0 \<le> hm \<longrightarrow> xm = Some GenericMem"
    using child_driver [OF b(1) t(1), of "lit ''memory''"] by (auto simp: l sys_node_def) (auto simp: lit_def)
  show ?thesis using p(2) b(1,2) f r c m by (simp add: boot_sysdev_devices_def Let_def kdefs)
qed

lemma chosen_walk:
  "fdt_first_subnode chosen_fdt 0 = Some 8" "fdt_next_subnode chosen_fdt 8 = Some (- FDT_ERR_NOTFOUND)"
  "fdt_first_subnode chosen_fdt 8 = Some (- FDT_ERR_NOTFOUND)"
proof -
  have t: "fdt_check_node_offset chosen_fdt 0 = Some 8" "fdt_check_node_offset chosen_fdt 8 = Some 20"
    "fdt_next_tag chosen_fdt 8 = Some (FDT_BEGIN_NODE, 20)" "fdt_next_tag chosen_fdt 20 = Some (FDT_PROP, 36)"
    "fdt_next_tag chosen_fdt 36 = Some (FDT_PROP, 52)" "fdt_next_tag chosen_fdt 52 = Some (FDT_PROP, 68)"
    "fdt_next_tag chosen_fdt 68 = Some (FDT_END_NODE, 72)" "fdt_next_tag chosen_fdt 72 = Some (FDT_END_NODE, 76)"
    by code_simp+
  have l: "next_node_loop chosen_fdt 8 d = Some (8, map_option (\<lambda>d. d + 1) d)"
    "next_node_loop chosen_fdt 20 d = next_node_loop chosen_fdt 68 d" for d
    using t(3-6) by (simp_all add: next_node_loop.simps fdt_tags)
  have e: "next_node_loop chosen_fdt 68 (Some 0) = Some (72, Some (- 1))"
    "next_node_loop chosen_fdt 68 (Some 1) = Some (76, Some (- 1))"
    using t(7,8) by (simp_all add: next_node_loop.simps fdt_tags)
  show "fdt_first_subnode chosen_fdt 0 = Some 8" "fdt_first_subnode chosen_fdt 8 = Some (- FDT_ERR_NOTFOUND)"
    using t(1,2) l e by (simp_all add: fdt_first_subnode_def fdt_next_node_def)
  show "fdt_next_subnode chosen_fdt 8 = Some (- FDT_ERR_NOTFOUND)"
    using t(2) l e by (simp add: fdt_next_subnode_def next_subnode_loop.simps fdt_next_node_def)
qed

lemma chosen_paths:
  "fdt_path_offset chosen_fdt (lit ''/chosen'') = Some 8" "fdt_path_offset chosen_fdt (lit ''/'') = Some 0"
proof -
  have "fdt_subnode_offset chosen_fdt 0 (lit ''chosen'') = Some 8"
    using subnode_at [OF chosen_fdt_parts(1,2,4), of "lit ''chosen''"]
    by (simp add: kids_off_def props_off_def name_bytes_def padded_def al4_def be4_def chosen_node_def name_match_def)
  moreover have "fdt_ro_probe chosen_fdt = Some 181" by code_simp
  ultimately show "fdt_path_offset chosen_fdt (lit ''/chosen'') = Some 8" "fdt_path_offset chosen_fdt (lit ''/'') = Some 0"
    by (simp_all add: fdt_path_offset_def fdt_path_offset_namelen.simps fdt_subnode_offset_def path_walk.simps lit_def)
qed

lemma chosen_probe:
  assumes "root_addDevice k_probe chosen_fdt 0 (drv_register w) = Some (0, d)" "devhdl d = map_insert 8 (GenericRoot, DRV_CAP_THIS, 0) []"
  shows "probe_go (kdrv_ops io junk) chosen_fdt DEV_TYPE_SYS (Node 0) (drv_register w) =
    Some (0, d\<lparr>devhdl := map_insert 0 (GenericRoot, DRV_CAP_THIS, 0) (devhdl d)\<rparr>)"
proof -
  obtain a where a: "fdt_get_name chosen_fdt 0 = Some (Some a, 0)" "cstr chosen_fdt a = Some []"
    using get_name_at [OF in_tree_root [OF chosen_fdt_blob]] by auto
  have c: "node_compatible chosen_fdt 0 = Some (Some [])"
    using in_tree_property [OF in_tree_root [OF chosen_fdt_blob], of "lit ''compatible''"] by (simp add: node_compatible_def)
  have n: "try_node (kdrv_ops io junk) chosen_fdt 0 DEV_TYPE_SYS (drv_register w) =
      Some (1, d\<lparr>devhdl := map_insert 0 (GenericRoot, DRV_CAP_THIS, 0) (devhdl d)\<rparr>)"
    using assms a c by (simp add: try_node_def drv_register_def addDriver_def kdev_init_def kdrv_ops_def type_match_def k_type_def
      k_probe_def root_probe_def k_addDevice_def kdefs)
  have m: "try_node (kdrv_ops io junk) chosen_fdt 8 DEV_TYPE_SYS (d\<lparr>devhdl := map_insert 0 (GenericRoot, DRV_CAP_THIS, 0) (devhdl d)\<rparr>) =
      Some (1, d\<lparr>devhdl := map_insert 0 (GenericRoot, DRV_CAP_THIS, 0) (devhdl d)\<rparr>)"
    using assms(2) by (simp add: try_node_def find_insert kdefs)
  show ?thesis using n m chosen_walk
    by (simp add: probe_go.simps [of _ _ _ "Node 0"] probe_go.simps [of _ _ _ "Node 8"] probe_go.simps [of _ _ _ "Children 8 (- 1)"]
      probe_go.simps [of _ _ _ "Children (- 1) 8"] fdt_errs)
qed

theorem boot_casts_typed_witness:
  "\<exists>s1 rc s2. boot_probe (demo_env 16) DEV_TYPE_SYS (demo_kst\<lparr>k_fdt := chosen_fdt, kd := drv_register ()\<rparr>) = Some s1 \<and>
     getDrvByPath chosen_fdt (lit ''/'') (kd s1) = Some (0, Some GenericRoot) \<and>
     boot_sysdev_devices (demo_env 16) (demo_kst\<lparr>k_fdt := chosen_fdt, kd := drv_register ()\<rparr>) = Some (rc, s2) \<and>
     table_ok (kvalid DEV_TYPE_SYS) chosen_fdt (kd s2) \<and> kinv (kd s2)"
proof -
  let ?t = "DNode [] [] [chosen_node]" and ?s = "demo_kst\<lparr>k_fdt := chosen_fdt, kd := drv_register ()\<rparr>"
  obtain j where j: "in_tree chosen_fdt chosen_no chosen_names 0 ?t" "in_tree chosen_fdt chosen_no chosen_names j chosen_node"
    "fdt_path_offset chosen_fdt (lit ''/chosen'') = Some (int j)" using chosen_at [OF chosen_fdt_blob chosen_tree(1)] .
  note rd = initrd_at [OF j(2) chosen_tree(5-8), of "[]"]
  obtain d where d: "root_addDevice k_probe chosen_fdt 0 (drv_register ()) = Some (0, d)" "devhdl d = map_insert 8 (GenericRoot, DRV_CAP_THIS, 0) []"
    using root_add_at [OF j chosen_tree(2,2,3,4) rd, of "()"] j(3) chosen_paths(1) by auto
  let ?d = "d\<lparr>devhdl := map_insert 0 (GenericRoot, DRV_CAP_THIS, 0) (devhdl d)\<rparr>"
  have p: "boot_probe (demo_env 16) DEV_TYPE_SYS ?s = Some (?s\<lparr>kd := ?d\<rparr>)"
    using chosen_probe [OF d] by (simp add: boot_probe_def drv_probe_def)
  moreover have "getDrvByPath chosen_fdt (lit ''/'') ?d = Some (0, Some GenericRoot)"
    using d(2) chosen_paths(2) by (simp add: getDrvByPath_def find_insert)
  ultimately show ?thesis
    using boot_casts_typed [of ?s chosen_no chosen_names ?t, OF _ _ _ p] chosen_fdt_blob by auto
qed

end
