(* ===== verification/Harts.thy ===== *)
theory Harts
  imports Boot_Map
begin

text \<open>Model of the multi-hart part of the start and the end of the kernel: \<open>k_boot_harts\<close> and
  \<open>k_before_cleanup\<close> of \<^verbatim>\<open>kernel/main/k_boot.cpp\<close>, \<open>k_pre_main\<close> and \<open>k_after_main\<close> of
  \<^verbatim>\<open>kernel/main/k_main.cpp\<close> and the code of \<^verbatim>\<open>kernel/main/prepC.S\<close> that calls them, as one machine
  whose steps are the accesses to the shared variables. Any hart may make the next step. The
  firmware and the clock are not part of the repository: the answers the firmware may give are an
  argument, and a poll may end with a timeout at any time.\<close>

section \<open>The machine\<close>

text \<open>\<open>fw_status run i rc\<close>: when the harts in \<open>run\<close> are running, \<open>getHartState\<close> may answer \<open>rc\<close> for hart \<open>i\<close>;
  \<open>fw_start\<close> and \<open>fw_timer\<close> are the answers to \<open>startHart\<close> and \<open>setTimer\<close>.\<close>

record hart_fw =
  fw_status :: "(int \<Rightarrow> bool) \<Rightarrow> int \<Rightarrow> int \<Rightarrow> bool"
  fw_start :: "(int \<Rightarrow> bool) \<Rightarrow> int \<Rightarrow> int \<Rightarrow> bool"
  fw_timer :: "int \<Rightarrow> int \<Rightarrow> bool"

text \<open>Where a hart is: not running, at the test of \<open>k_pre_main\<close>, at its timer call, before it stores 2,
  in the wait for the boot hart, in \<open>k_main\<close>, in the loop of \<open>k_after_main\<close>, and behind it.\<close>

datatype hpc = HOff | HEntry | HTimer | HSet | HWait | HMain | HAfter | HExit

text \<open>Where the boot hart is in \<open>k_boot_harts\<close> and, once it has run the code of every hart (\<open>BRun\<close>), in
  \<open>k_before_cleanup\<close>; \<open>BTrap\<close> is an access behind the end of \<open>k_hart_state\<close>, \<open>BCleanup\<close> the call of \<open>k_cleanup\<close>.\<close>

datatype bpc = BEnter "cpu_t list" | BNext "cpu_t list" | BPreset int "cpu_t list" | BStart int "cpu_t list" | BFailed int "cpu_t list"
  | BPoll int "cpu_t list" | BCheck int "cpu_t list" | BReset int "cpu_t list" | BSelf | BStage | BRun
  | BBefore | BScan int | BScan2 int | BClear | BCleanup | BTrap

text \<open>\<open>late\<close> records the harts whose state the boot hart has reset after a timeout; no step reads it.\<close>

record hsys =
  k_hart_state :: "int \<Rightarrow> int"
  hs_stage :: k_stage_t
  hp :: "int \<Rightarrow> hpc"
  bp :: bpc
  hl_hartid :: "int \<Rightarrow> int"
  hart_satp :: "int \<Rightarrow> u64"
  stack_words :: "u64 \<Rightarrow> u64"
  late :: "int set"

definition running :: "hsys \<Rightarrow> int \<Rightarrow> bool" where
  "running s i \<longleftrightarrow> hp s i \<noteq> HOff"

definition in_array :: "int \<Rightarrow> bool" where
  "in_array i \<longleftrightarrow> 0 \<le> i \<and> i < int K_CONFIG_MAX_PROCESSORS"

definition set_state :: "int \<Rightarrow> int \<Rightarrow> hsys \<Rightarrow> hsys" where
  "set_state i v s = s\<lparr>k_hart_state := (k_hart_state s)(i := v)\<rparr>"

definition set_hp :: "int \<Rightarrow> hpc \<Rightarrow> hsys \<Rightarrow> hsys" where
  "set_hp i p s = s\<lparr>hp := (hp s)(i := p)\<rparr>"

text \<open>The number of a hart, an \<open>int\<close> made from the 64-bit number in the device tree.\<close>

definition hart_no :: "cpu_t \<Rightarrow> int" where
  "hart_no c = i32 (uint (hid c))"

section \<open>The code every hart runs\<close>

definition pre_main_test :: "int \<Rightarrow> hsys \<Rightarrow> hsys" where
  "pre_main_test i s = set_hp i (if k_hart_state s i \<noteq> 1 then HExit else HTimer) s"

definition pre_main_timer :: "int \<Rightarrow> int \<Rightarrow> hsys \<Rightarrow> hsys" where
  "pre_main_timer i rc s =
     (if rc \<noteq> 0 then set_hp i HExit (set_state i 3 s)
      else set_hp i HSet (s\<lparr>hl_hartid := (hl_hartid s)(i := i)\<rparr>))"

definition pre_main_set :: "int \<Rightarrow> hsys \<Rightarrow> hsys" where
  "pre_main_set i s = set_hp i HWait (set_state i 2 s)"

definition pre_main_wait :: "int \<Rightarrow> hsys \<Rightarrow> hsys" where
  "pre_main_wait i s = (if hs_stage s \<noteq> K_MULTICORE then s else set_hp i HMain s)"

definition after_main_loop :: "int \<Rightarrow> hsys \<Rightarrow> hsys" where
  "after_main_loop i s =
     (if k_hart_state s (hl_hartid s i) \<noteq> 3 then set_state (hl_hartid s i) 3 s else set_hp i HExit s)"

section \<open>The code of the boot hart\<close>

text \<open>The rest of the round of a hart that \<open>getHartState\<close> reports as stopped: the start address and \<open>satp\<close>
  go to the top of its stack, its state to 1.\<close>

definition harts_preset :: "u64 \<Rightarrow> u64 \<Rightarrow> u64 \<Rightarrow> int \<Rightarrow> cpu_t list \<Rightarrow> hsys \<Rightarrow> hsys" where
  "harts_preset base start_hart satp i cs s =
     (let st = hart_stack base i;
          s1 = s\<lparr>stack_words := (stack_words s)(st - 8 := start_hart, st - 16 := satp)\<rparr> in
      if in_array i then (set_state i 1 s1)\<lparr>bp := BStart i cs\<rparr> else s1\<lparr>bp := BTrap\<rparr>)"

definition harts_poll :: "int \<Rightarrow> cpu_t list \<Rightarrow> hsys \<Rightarrow> hsys" where
  "harts_poll i cs s = (if k_hart_state s i < 2 then s else s\<lparr>bp := BCheck i cs\<rparr>)"

definition harts_check :: "int \<Rightarrow> cpu_t list \<Rightarrow> hsys \<Rightarrow> hsys" where
  "harts_check i cs s = s\<lparr>bp := (if k_hart_state s i \<ge> 2 then BNext cs else BReset i cs)\<rparr>"

text \<open>One round of the scan of \<open>k_before_cleanup\<close> reads the state of a hart twice, first to compare it with 1
  (\<open>cleanup_scan\<close>) and then with 2 (\<open>cleanup_scan2\<close>); \<open>break\<close> with \<open>flag\<close> set begins the next scan.\<close>

definition cleanup_scan :: "int \<Rightarrow> int \<Rightarrow> hsys \<Rightarrow> hsys" where
  "cleanup_scan boot i s =
     s\<lparr>bp := (if i \<ge> int K_CONFIG_MAX_PROCESSORS then BClear
             else if i = hl_hartid s boot then BScan (i + 1)
             else if k_hart_state s i = 1 then BScan 0
             else BScan2 i)\<rparr>"

definition cleanup_scan2 :: "int \<Rightarrow> hsys \<Rightarrow> hsys" where
  "cleanup_scan2 i s = s\<lparr>bp := (if k_hart_state s i = 2 then BScan 0 else BScan (i + 1))\<rparr>"

inductive hstep :: "hart_fw \<Rightarrow> int \<Rightarrow> u64 \<Rightarrow> u64 \<Rightarrow> u64 \<Rightarrow> hsys \<Rightarrow> hsys \<Rightarrow> bool"
  for fw boot base start_hart satp where
  enter: "bp s = BEnter cs \<Longrightarrow> hstep fw boot base start_hart satp s (s\<lparr>hs_stage := K_BOOT_HARTS, bp := BNext cs\<rparr>)"
| self: "bp s = BNext (c # cs) \<Longrightarrow> hart_no c = boot \<Longrightarrow> hstep fw boot base start_hart satp s (s\<lparr>bp := BNext cs\<rparr>)"
| skip: "bp s = BNext (c # cs) \<Longrightarrow> hart_no c \<noteq> boot \<Longrightarrow> fw_status fw (running s) (hart_no c) rc \<Longrightarrow> rc \<noteq> SBI_HSM_STATE_STOPPED \<Longrightarrow>
    hstep fw boot base start_hart satp s (s\<lparr>bp := BNext cs\<rparr>)"
| stopped: "bp s = BNext (c # cs) \<Longrightarrow> hart_no c \<noteq> boot \<Longrightarrow> fw_status fw (running s) (hart_no c) SBI_HSM_STATE_STOPPED \<Longrightarrow>
    hstep fw boot base start_hart satp s (s\<lparr>bp := BPreset (hart_no c) cs\<rparr>)"
| preset: "bp s = BPreset i cs \<Longrightarrow> hstep fw boot base start_hart satp s (harts_preset base start_hart satp i cs s)"
| start: "bp s = BStart i cs \<Longrightarrow> fw_start fw (running s) i rc \<Longrightarrow> 0 \<le> rc \<Longrightarrow>
    hstep fw boot base start_hart satp s
      (set_hp i HEntry (s\<lparr>bp := BPoll i cs, hart_satp := (hart_satp s)(i := stack_words s (hart_stack base i - 16)), hl_hartid := (hl_hartid s)(i := 0)\<rparr>))"
| not_started: "bp s = BStart i cs \<Longrightarrow> fw_start fw (running s) i rc \<Longrightarrow> rc < 0 \<Longrightarrow>
    hstep fw boot base start_hart satp s (s\<lparr>bp := BFailed i cs\<rparr>)"
| failed: "bp s = BFailed i cs \<Longrightarrow> hstep fw boot base start_hart satp s ((set_state i 0 s)\<lparr>bp := BNext cs\<rparr>)"
| poll: "bp s = BPoll i cs \<Longrightarrow> hstep fw boot base start_hart satp s (harts_poll i cs s)"
| timeout: "bp s = BPoll i cs \<Longrightarrow> hstep fw boot base start_hart satp s (s\<lparr>bp := BCheck i cs\<rparr>)"
| check: "bp s = BCheck i cs \<Longrightarrow> hstep fw boot base start_hart satp s (harts_check i cs s)"
| reset: "bp s = BReset i cs \<Longrightarrow> hstep fw boot base start_hart satp s ((set_state i 0 s)\<lparr>bp := BNext cs, late := insert i (late s)\<rparr>)"
| all_done: "bp s = BNext [] \<Longrightarrow> hstep fw boot base start_hart satp s (s\<lparr>bp := BSelf\<rparr>)"
| self_state: "bp s = BSelf \<Longrightarrow> hstep fw boot base start_hart satp s (if in_array boot then (set_state boot 1 s)\<lparr>bp := BStage\<rparr> else s\<lparr>bp := BTrap\<rparr>)"
| multicore: "bp s = BStage \<Longrightarrow> hstep fw boot base start_hart satp s (set_hp boot HEntry (s\<lparr>hs_stage := K_MULTICORE, bp := BRun\<rparr>))"
| pre_test: "hp s i = HEntry \<Longrightarrow> hstep fw boot base start_hart satp s (pre_main_test i s)"
| pre_timer: "hp s i = HTimer \<Longrightarrow> fw_timer fw i rc \<Longrightarrow> hstep fw boot base start_hart satp s (pre_main_timer i rc s)"
| pre_set: "hp s i = HSet \<Longrightarrow> hstep fw boot base start_hart satp s (pre_main_set i s)"
| pre_wait: "hp s i = HWait \<Longrightarrow> hstep fw boot base start_hart satp s (pre_main_wait i s)"
| main: "hp s i = HMain \<Longrightarrow> hstep fw boot base start_hart satp s (set_hp i HAfter s)"
| after: "hp s i = HAfter \<Longrightarrow> hstep fw boot base start_hart satp s (after_main_loop i s)"
| stop: "hp s i = HExit \<Longrightarrow> i \<noteq> boot \<Longrightarrow> hstep fw boot base start_hart satp s (set_hp i HOff s)"
| kernel_exit: "hp s boot = HExit \<Longrightarrow> bp s = BRun \<Longrightarrow> hstep fw boot base start_hart satp s (s\<lparr>bp := BBefore\<rparr>)"
| before: "bp s = BBefore \<Longrightarrow> hstep fw boot base start_hart satp s (s\<lparr>bp := (if hs_stage s = K_MULTICORE then BScan 0 else BClear)\<rparr>)"
| scan: "bp s = BScan i \<Longrightarrow> hstep fw boot base start_hart satp s (cleanup_scan boot i s)"
| scan2: "bp s = BScan2 i \<Longrightarrow> hstep fw boot base start_hart satp s (cleanup_scan2 i s)"
| clear: "bp s = BClear \<Longrightarrow> hstep fw boot base start_hart satp s (s\<lparr>hs_stage := K_CLEARUP, bp := BCleanup\<rparr>)"

text \<open>The state behind \<open>k_boot\<close> and \<open>_setup_hart\<close>: only the boot hart runs, all states are 0, and the
  thread-local \<open>hartid\<close> of every hart is zero.\<close>

definition harts_init :: "cpu_t list \<Rightarrow> (u64 \<Rightarrow> u64) \<Rightarrow> hsys" where
  "harts_init cs m =
     \<lparr>k_hart_state = (\<lambda>_. 0), hs_stage = K_BOOT_PERIP, hp = (\<lambda>_. HOff), bp = BEnter cs, hl_hartid = (\<lambda>_. 0),
      hart_satp = (\<lambda>_. 0), stack_words = m, late = {}\<rparr>"

inductive hreach :: "hart_fw \<Rightarrow> int \<Rightarrow> u64 \<Rightarrow> u64 \<Rightarrow> u64 \<Rightarrow> cpu_t list \<Rightarrow> (u64 \<Rightarrow> u64) \<Rightarrow> hsys \<Rightarrow> bool"
  for fw boot base start_hart satp cs m where
  hinit: "hreach fw boot base start_hart satp cs m (harts_init cs m)"
| hmove: "hreach fw boot base start_hart satp cs m s \<Longrightarrow> hstep fw boot base start_hart satp s s' \<Longrightarrow>
    hreach fw boot base start_hart satp cs m s'"

section \<open>What holds in every reachable state\<close>

definition fw_honest :: "hart_fw \<Rightarrow> bool" where
  "fw_honest fw \<longleftrightarrow> (\<forall>run i. fw_status fw run i SBI_HSM_STATE_STOPPED \<longrightarrow> \<not> run i)"

text \<open>The state of a hart agrees with where it is, as long as the boot hart has not reset it.\<close>

fun state_ok :: "hpc \<Rightarrow> int \<Rightarrow> bool" where
  "state_ok HOff st = True"
| "state_ok HEntry st = (st = 1)"
| "state_ok HTimer st = (st = 1)"
| "state_ok HSet st = (st = 1)"
| "state_ok HWait st = (st = 2)"
| "state_ok HMain st = (st = 2)"
| "state_ok HAfter st = (st = 2 \<or> st = 3)"
| "state_ok HExit st = (st = 3)"

definition quiet :: "hpc \<Rightarrow> bool" where
  "quiet p \<longleftrightarrow> p = HOff \<or> p = HAfter \<or> p = HExit"

definition early :: "hpc \<Rightarrow> bool" where
  "early p \<longleftrightarrow> p = HEntry \<or> p = HTimer \<or> p = HSet"

definition quiet_below :: "int \<Rightarrow> int \<Rightarrow> hsys \<Rightarrow> bool" where
  "quiet_below boot j s \<longleftrightarrow> (\<forall>k. 0 \<le> k \<and> k < j \<and> k \<noteq> boot \<and> k \<noteq> hl_hartid s boot \<and> k \<notin> late s \<longrightarrow> quiet (hp s k))"

text \<open>What holds where the boot hart is.\<close>

fun boot_ok :: "int \<Rightarrow> u64 \<Rightarrow> u64 \<Rightarrow> hsys \<Rightarrow> bpc \<Rightarrow> bool" where
  "boot_ok boot base satp s (BPreset i cs) \<longleftrightarrow> hp s boot = HOff \<and> i \<noteq> boot \<and> hp s i = HOff"
| "boot_ok boot base satp s (BStart i cs) \<longleftrightarrow> hp s boot = HOff \<and> i \<noteq> boot \<and> hp s i = HOff \<and> k_hart_state s i = 1 \<and> in_array i \<and>
     stack_words s (hart_stack base i - 16) = satp"
| "boot_ok boot base satp s (BFailed i cs) \<longleftrightarrow> hp s boot = HOff \<and> i \<noteq> boot \<and> hp s i = HOff"
| "boot_ok boot base satp s (BPoll i cs) \<longleftrightarrow> hp s boot = HOff \<and> i \<noteq> boot"
| "boot_ok boot base satp s (BCheck i cs) \<longleftrightarrow> hp s boot = HOff \<and> i \<noteq> boot"
| "boot_ok boot base satp s (BReset i cs) \<longleftrightarrow> hp s boot = HOff \<and> i \<noteq> boot"
| "boot_ok boot base satp s BStage \<longleftrightarrow> hp s boot = HOff \<and> in_array boot"
| "boot_ok boot base satp s BRun \<longleftrightarrow> hs_stage s = K_MULTICORE"
| "boot_ok boot base satp s BBefore \<longleftrightarrow> hs_stage s = K_MULTICORE \<and> hp s boot = HExit"
| "boot_ok boot base satp s (BScan j) \<longleftrightarrow> 0 \<le> j \<and> hp s boot = HExit \<and> quiet_below boot j s"
| "boot_ok boot base satp s (BScan2 j) \<longleftrightarrow> 0 \<le> j \<and> hp s boot = HExit \<and> quiet_below boot j s \<and>
     (j \<noteq> boot \<and> j \<notin> late s \<longrightarrow> \<not> early (hp s j))"
| "boot_ok boot base satp s BClear \<longleftrightarrow> hp s boot = HExit \<and> quiet_below boot (int K_CONFIG_MAX_PROCESSORS) s"
| "boot_ok boot base satp s BCleanup \<longleftrightarrow> hp s boot = HExit \<and> quiet_below boot (int K_CONFIG_MAX_PROCESSORS) s"
| "boot_ok boot base satp s _ \<longleftrightarrow> hp s boot = HOff"

definition local_ok :: "int \<Rightarrow> hsys \<Rightarrow> bool" where
  "local_ok boot s \<longleftrightarrow> (\<forall>i. hp s i \<in> {HSet, HWait, HMain, HAfter} \<longrightarrow> hl_hartid s i = i) \<and> hl_hartid s boot \<in> {0, boot}"

definition agree_ok :: "int \<Rightarrow> hsys \<Rightarrow> bool" where
  "agree_ok boot s \<longleftrightarrow> (\<forall>i. i \<noteq> boot \<and> i \<notin> late s \<longrightarrow> state_ok (hp s i) (k_hart_state s i))"

definition satp_ok :: "int \<Rightarrow> u64 \<Rightarrow> hsys \<Rightarrow> bool" where
  "satp_ok boot satp s \<longleftrightarrow> (\<forall>i. running s i \<longrightarrow> in_array i \<and> (i \<noteq> boot \<longrightarrow> hart_satp s i = satp))"

definition harts_inv :: "int \<Rightarrow> u64 \<Rightarrow> u64 \<Rightarrow> hsys \<Rightarrow> bool" where
  "harts_inv boot base satp s \<longleftrightarrow> boot_ok boot base satp s (bp s) \<and> local_ok boot s \<and> agree_ok boot s \<and> satp_ok boot satp s"

lemmas hart_defs = pre_main_test_def pre_main_timer_def pre_main_set_def pre_main_wait_def after_main_loop_def harts_preset_def
  harts_poll_def harts_check_def cleanup_scan_def cleanup_scan2_def set_state_def set_hp_def Let_def running_def

lemma inv_init: "harts_inv boot base satp (harts_init cs m)"
  by (simp add: harts_inv_def harts_init_def local_ok_def agree_ok_def satp_ok_def running_def)

lemma local_step: "hstep fw boot base sh satp s s' \<Longrightarrow> harts_inv boot base satp s \<Longrightarrow> local_ok boot s'"
  by (erule hstep.cases) (auto simp: harts_inv_def local_ok_def hart_defs split: if_splits)

lemma agree_step: "hstep fw boot base sh satp s s' \<Longrightarrow> harts_inv boot base satp s \<Longrightarrow> agree_ok boot s'"
  by (erule hstep.cases) (auto simp: harts_inv_def local_ok_def agree_ok_def hart_defs split: if_splits)

lemma satp_step: "hstep fw boot base sh satp s s' \<Longrightarrow> harts_inv boot base satp s \<Longrightarrow> satp_ok boot satp s'"
  by (erule hstep.cases) (auto simp: harts_inv_def satp_ok_def hart_defs split: if_splits)

lemma quiet_mono:
  assumes "quiet_below boot j s" "hl_hartid s' boot = hl_hartid s boot" "late s' = late s" "\<And>k. quiet (hp s k) \<Longrightarrow> quiet (hp s' k)"
  shows "quiet_below boot j s'"
  using assms by (simp add: quiet_below_def)

text \<open>The code a hart runs keeps what holds where the boot hart is: a hart that was counted as quiet stays
  so, because only \<open>k_boot_harts\<close> starts harts.\<close>

lemma hart_move:
  assumes "boot_ok boot base satp s (bp s)" "i \<noteq> boot" "hp s i \<noteq> HOff" "bp s' = bp s" "hs_stage s' = hs_stage s" "late s' = late s"
    "\<And>k. k \<noteq> i \<Longrightarrow> hp s' k = hp s k" "quiet (hp s i) \<Longrightarrow> quiet (hp s' i)"
    "\<And>k. k \<noteq> i \<Longrightarrow> k_hart_state s' k = k_hart_state s k" "\<not> early (hp s i) \<Longrightarrow> \<not> early (hp s' i)" "hl_hartid s' boot = hl_hartid s boot" "stack_words s' = stack_words s"
  shows "boot_ok boot base satp s' (bp s')"
proof -
  have q: "quiet (hp s k) \<Longrightarrow> quiet (hp s' k)" for k using assms(7,8) by (cases "k = i") auto
  have "hp s' boot = hp s boot" using assms(2,7) by auto
  moreover have "quiet_below boot j s \<Longrightarrow> quiet_below boot j s'" for j using quiet_mono [of boot j s s'] assms(6,11) q by blast
  moreover have "\<not> early (hp s k) \<Longrightarrow> \<not> early (hp s' k)" for k using assms(7,10) by (cases "k = i") auto
  moreover have "hp s k = HOff \<Longrightarrow> hp s' k = HOff \<and> k_hart_state s' k = k_hart_state s k" for k using assms(3,7,9) by (cases "k = i") auto
  ultimately show ?thesis using assms(1,4-6,12) by (cases "bp s") auto
qed

lemma boot_move:
  assumes "boot_ok boot base satp s (bp s)" "hp s boot \<noteq> HOff" "hp s boot \<noteq> HExit" "bp s' = bp s" "hs_stage s' = hs_stage s"
  shows "boot_ok boot base satp s' (bp s')"
  using assms by (cases "bp s") auto

lemma hart_step:
  assumes "boot_ok boot base satp s (bp s)" "hp s i \<noteq> HOff" "hp s i \<noteq> HExit \<or> i \<noteq> boot" "bp s' = bp s" "hs_stage s' = hs_stage s" "late s' = late s"
    "\<And>k. k \<noteq> i \<Longrightarrow> hp s' k = hp s k" "quiet (hp s i) \<Longrightarrow> quiet (hp s' i)"
    "\<And>k. k \<noteq> i \<Longrightarrow> k_hart_state s' k = k_hart_state s k" "\<not> early (hp s i) \<Longrightarrow> \<not> early (hp s' i)" "\<And>k. k \<noteq> i \<Longrightarrow> hl_hartid s' k = hl_hartid s k" "stack_words s' = stack_words s"
  shows "boot_ok boot base satp s' (bp s')"
proof (cases "i = boot")
  case True
  then show ?thesis using assms(1-5) boot_move [of boot base satp s s'] by auto
next
  case False
  then show ?thesis using assms hart_move [of boot base satp s i s'] by auto
qed

lemma quiet_below_bp: "quiet_below boot j (s\<lparr>bp := p\<rparr>) = quiet_below boot j s"
  by (simp add: quiet_below_def)

lemma quiet_next:
  assumes "quiet_below boot j s" "j = hl_hartid s boot \<or> j = boot \<or> j \<in> late s \<or> quiet (hp s j)"
  shows "quiet_below boot (j + 1) s"
  unfolding quiet_below_def
proof (intro allI impI)
  fix k assume k: "0 \<le> k \<and> k < j + 1 \<and> k \<noteq> boot \<and> k \<noteq> hl_hartid s boot \<and> k \<notin> late s"
  show "quiet (hp s k)" using assms k by (cases "k = j") (auto simp: quiet_below_def)
qed

lemma scan_step:
  assumes "harts_inv boot base satp s" "bp s = BScan j"
  shows "boot_ok boot base satp (cleanup_scan boot j s) (bp (cleanup_scan boot j s))"
proof -
  have b: "0 \<le> j" "hp s boot = HExit" "quiet_below boot j s" "agree_ok boot s" using assms by (auto simp: harts_inv_def)
  have "\<not> early (hp s j)" if "j \<noteq> boot" "j \<notin> late s" "k_hart_state s j \<noteq> 1"
    using that b(4) by (auto simp: agree_ok_def early_def dest!: spec [of _ j])
  moreover have "quiet_below boot 0 s" by (auto simp: quiet_below_def)
  moreover have "int K_CONFIG_MAX_PROCESSORS \<le> j \<Longrightarrow> quiet_below boot (int K_CONFIG_MAX_PROCESSORS) s" using b(3) by (auto simp: quiet_below_def)
  ultimately show ?thesis using b quiet_next [OF b(3)] by (auto simp: cleanup_scan_def quiet_below_bp)
qed

lemma scan2_step:
  assumes "harts_inv boot base satp s" "bp s = BScan2 j"
  shows "boot_ok boot base satp (cleanup_scan2 j s) (bp (cleanup_scan2 j s))"
proof -
  have b: "0 \<le> j" "hp s boot = HExit" "quiet_below boot j s" "j \<noteq> boot \<and> j \<notin> late s \<longrightarrow> \<not> early (hp s j)" "agree_ok boot s"
    using assms by (auto simp: harts_inv_def)
  have "quiet (hp s j)" if "j \<noteq> boot" "j \<notin> late s" "k_hart_state s j \<noteq> 2"
    using that b(4,5) by (cases "hp s j") (auto simp: agree_ok_def quiet_def early_def dest!: spec [of _ j])
  moreover have "quiet_below boot 0 s" by (auto simp: quiet_below_def)
  ultimately show ?thesis using b quiet_next [OF b(3)] by (auto simp: cleanup_scan2_def quiet_below_bp)
qed

lemma boot_step:
  assumes "hstep fw boot base sh satp s s'" "harts_inv boot base satp s" "fw_honest fw"
  shows "boot_ok boot base satp s' (bp s')"
proof -
  have b: "boot_ok boot base satp s (bp s)" using assms(2) by (simp add: harts_inv_def)
  from assms(1) show ?thesis
  proof cases
    case (stopped c cs)
    then have "\<not> running s (hart_no c)" using assms(3) unfolding fw_honest_def by blast
    then show ?thesis using b stopped by (auto simp: running_def)
  next
    case (scan j)
    then show ?thesis using scan_step [OF assms(2)] by simp
  next
    case (scan2 j)
    then show ?thesis using scan2_step [OF assms(2)] by simp
  next
    case (pre_test i)
    then show ?thesis by (intro hart_step [OF b, of i]) (auto simp: hart_defs quiet_def early_def)
  next
    case (pre_timer i rc)
    then show ?thesis by (intro hart_step [OF b, of i]) (auto simp: hart_defs quiet_def early_def)
  next
    case (pre_set i)
    then show ?thesis by (intro hart_step [OF b, of i]) (auto simp: hart_defs quiet_def early_def)
  next
    case (pre_wait i)
    then show ?thesis by (intro hart_step [OF b, of i]) (auto simp: hart_defs quiet_def early_def)
  next
    case (main i)
    then show ?thesis by (intro hart_step [OF b, of i]) (auto simp: hart_defs quiet_def early_def)
  next
    case (after i)
    have "hl_hartid s i = i" using after assms(2) by (auto simp: harts_inv_def local_ok_def)
    then show ?thesis using after by (intro hart_step [OF b, of i]) (auto simp: hart_defs quiet_def early_def)
  next
    case (stop i)
    then show ?thesis by (intro hart_step [OF b, of i]) (auto simp: hart_defs quiet_def early_def)
  qed (use b in \<open>auto simp: hart_defs quiet_below_def\<close>)
qed

lemma inv_reach: "hreach fw boot base sh satp cs m s \<Longrightarrow> fw_honest fw \<Longrightarrow> harts_inv boot base satp s"
proof (induction rule: hreach.induct)
  case (hmove s s')
  then show ?case using boot_step local_step agree_step satp_step by (simp add: harts_inv_def)
qed (rule inv_init)


section \<open>A late hart\<close>

lemma scan_all:
  assumes "hreach fw boot base sh satp cs m s" "bp s = BScan (64 - int n)" "n \<le> 64"
    "\<And>k. k \<noteq> hl_hartid s boot \<Longrightarrow> k_hart_state s k \<noteq> 1 \<and> k_hart_state s k \<noteq> 2"
  shows "hreach fw boot base sh satp cs m (s\<lparr>hs_stage := K_CLEARUP, bp := BCleanup\<rparr>)"
  using assms
proof (induction n arbitrary: s)
  case 0
  then have "hreach fw boot base sh satp cs m (s\<lparr>bp := BClear\<rparr>)"
    using hmove [OF 0(1) scan [OF 0(2)]] by (simp add: cleanup_scan_def kdefs)
  from hmove [OF this clear] show ?case by simp
next
  case (Suc n)
  let ?j = "64 - int (Suc n)"
  have 1: "hreach fw boot base sh satp cs m (cleanup_scan boot ?j s)" by (rule hmove [OF Suc.prems(1) scan [OF Suc.prems(2)]])
  have "hreach fw boot base sh satp cs m (s\<lparr>bp := BScan (64 - int n)\<rparr>)"
  proof (cases "?j = hl_hartid s boot")
    case True
    then have "cleanup_scan boot ?j s = s\<lparr>bp := BScan (?j + 1)\<rparr>" using Suc.prems(3) by (simp add: cleanup_scan_def kdefs)
    then show ?thesis using 1 by simp
  next
    case False
    then have "cleanup_scan boot ?j s = s\<lparr>bp := BScan2 ?j\<rparr>" using Suc.prems(3,4) by (simp add: cleanup_scan_def kdefs)
    from hmove [OF 1 [unfolded this] scan2] show ?thesis using Suc.prems(4) [OF False] by (simp add: cleanup_scan2_def)
  qed
  from Suc.IH [OF this] Suc.prems(3,4) show ?case by simp
qed

definition demo_hart :: "u64 \<Rightarrow> cpu_t" where
  "demo_hart h = \<lparr>hid = h, cpu_state = True, xlen = 64, cpu_mmu = 39, extension = []\<rparr>"

text \<open>A firmware that starts every stopped hart and has a timer for all harts but the ones in \<open>bad\<close>.\<close>

definition demo_fw :: "int set \<Rightarrow> hart_fw" where
  "demo_fw bad = \<lparr>fw_status = (\<lambda>run i rc. if run i then rc = SBI_HSM_STATE_STARTED else rc = SBI_HSM_STATE_STOPPED),
     fw_start = (\<lambda>run i rc. rc = 0), fw_timer = (\<lambda>i rc. rc = (if i \<in> bad then -1 else 0))\<rparr>"

lemma demo_fw [simp]:
  "fw_status (demo_fw bad) run i rc = (if run i then rc = SBI_HSM_STATE_STARTED else rc = SBI_HSM_STATE_STOPPED)"
  "fw_start (demo_fw bad) run i rc = (rc = 0)" "fw_timer (demo_fw bad) i rc = (rc = (if i \<in> bad then -1 else 0))"
  by (simp_all add: demo_fw_def)

lemma demo_honest: "fw_honest (demo_fw bad)"
  by (simp add: fw_honest_def kdefs)

text \<open>The runs of a hart and of the boot hart, a few steps at a time.\<close>

text \<open>The parts of a state the runs are about; what the harts have on their stacks is left open.\<close>

definition looks :: "hsys \<Rightarrow> (int \<Rightarrow> int) \<Rightarrow> k_stage_t \<Rightarrow> (int \<Rightarrow> hpc) \<Rightarrow> bpc \<Rightarrow> (int \<Rightarrow> int) \<Rightarrow> int set \<Rightarrow> bool" where
  "looks s st g h b l lt \<longleftrightarrow> k_hart_state s = st \<and> hs_stage s = g \<and> hp s = h \<and> bp s = b \<and> hl_hartid s = l \<and> late s = lt"

lemma run_start:
  assumes "hreach (demo_fw bad) boot base sh satp cs0 m s" "looks s st g h (BNext (c # cs)) l lt" "hart_no c \<noteq> boot" "in_array (hart_no c)" "h (hart_no c) = HOff"
  shows "\<exists>s'. hreach (demo_fw bad) boot base sh satp cs0 m s' \<and> looks s' (st(hart_no c := 1)) g (h(hart_no c := HEntry)) (BPoll (hart_no c) cs) (l(hart_no c := 0)) lt"
proof -
  let ?i = "hart_no c" and ?R = "hreach (demo_fw bad) boot base sh satp cs0 m"
  have b0: "bp s = BNext (c # cs)" using assms(2) by (simp add: looks_def)
  have 1: "?R (s\<lparr>bp := BPreset ?i cs\<rparr>)"
    using assms(2,5) by (intro hmove [OF assms(1)] stopped [OF b0 assms(3)]) (simp add: running_def looks_def)
  have 2: "?R (harts_preset base sh satp ?i cs (s\<lparr>bp := BPreset ?i cs\<rparr>))" by (intro hmove [OF 1] preset) simp
  have b: "bp (harts_preset base sh satp ?i cs (s\<lparr>bp := BPreset ?i cs\<rparr>)) = BStart ?i cs" using assms(4) by (simp add: hart_defs)
  have "\<exists>s'. ?R s' \<and> s' = set_hp ?i HEntry ((harts_preset base sh satp ?i cs (s\<lparr>bp := BPreset ?i cs\<rparr>))\<lparr>bp := BPoll ?i cs,
      hart_satp := (hart_satp s)(?i := satp), hl_hartid := (hl_hartid s)(?i := 0)\<rparr>)"
    using hmove [OF 2 start [OF b, where rc = 0]] assms(4) by (simp add: hart_defs)
  then show ?thesis using assms(2,4) by (auto simp: hart_defs looks_def)
qed

lemma run_entry:
  assumes "hreach (demo_fw bad) boot base sh satp cs0 m s" "looks s st g h b l lt" "h i = HEntry" "st i = 1" "i \<notin> bad"
  shows "\<exists>s'. hreach (demo_fw bad) boot base sh satp cs0 m s' \<and> looks s' st g (h(i := HSet)) b (l(i := i)) lt"
proof -
  have p: "hp s i = HEntry" "k_hart_state s i = 1" using assms(2-4) by (simp_all add: looks_def)
  have 1: "hreach (demo_fw bad) boot base sh satp cs0 m (set_hp i HTimer s)"
    using hmove [OF assms(1) pre_test [OF p(1)]] p(2) by (simp add: pre_main_test_def)
  have "hp (set_hp i HTimer s) i = HTimer" by (simp add: set_hp_def)
  from hmove [OF 1 pre_timer [OF this, of _ 0]] assms(2,5) show ?thesis
    by (intro exI conjI, simp) (simp add: hart_defs looks_def)
qed

lemma run_set:
  assumes "hreach fw boot base sh satp cs0 m s" "looks s st g h b l lt" "h i = HSet"
  shows "\<exists>s'. hreach fw boot base sh satp cs0 m s' \<and> looks s' (st(i := 2)) g (h(i := HWait)) b l lt"
proof -
  have "hp s i = HSet" using assms(2,3) by (simp add: looks_def)
  from hmove [OF assms(1) pre_set [OF this]] assms(2) show ?thesis by (intro exI conjI, simp) (simp add: hart_defs looks_def)
qed

lemma run_main:
  assumes "hreach fw boot base sh satp cs0 m s" "looks s st K_MULTICORE h b l lt" "h i = HWait"
  shows "\<exists>s'. hreach fw boot base sh satp cs0 m s' \<and> looks s' st K_MULTICORE (h(i := HMain)) b l lt"
proof -
  have "hp s i = HWait" using assms(2,3) by (simp add: looks_def)
  from hmove [OF assms(1) pre_wait [OF this]] assms(2) show ?thesis by (intro exI conjI, simp) (simp add: hart_defs looks_def)
qed

lemma run_after:
  assumes "hreach fw boot base sh satp cs0 m s" "looks s st g h b l lt" "h i = HMain" "l i = i" "st i \<noteq> 3"
  shows "\<exists>s'. hreach fw boot base sh satp cs0 m s' \<and> looks s' (st(i := 3)) g (h(i := HExit)) b l lt"
proof -
  let ?R = "hreach fw boot base sh satp cs0 m" and ?s = "set_hp i HAfter s"
  have "hp s i = HMain" using assms(2,3) by (simp add: looks_def)
  from hmove [OF assms(1) main [OF this]] have 1: "?R ?s" .
  have 2: "?R (set_state i 3 ?s)" using hmove [OF 1 after [of _ i]] assms(2,4,5) by (simp add: hart_defs looks_def)
  have "?R (set_hp i HExit (set_state i 3 ?s))" using hmove [OF 2 after [of _ i]] assms(2,4) by (simp add: hart_defs looks_def)
  then show ?thesis using assms(2) by (intro exI conjI, simp) (simp add: hart_defs looks_def)
qed

lemma run_multicore:
  assumes "hreach fw boot base sh satp cs0 m s" "looks s st g h (BNext []) l lt" "in_array boot"
  shows "\<exists>s'. hreach fw boot base sh satp cs0 m s' \<and> looks s' (st(boot := 1)) K_MULTICORE (h(boot := HEntry)) BRun l lt"
proof -
  let ?R = "hreach fw boot base sh satp cs0 m"
  have "bp s = BNext []" using assms(2) by (simp add: looks_def)
  then have 1: "?R (s\<lparr>bp := BSelf\<rparr>)" by (rule hmove [OF assms(1) all_done])
  have 2: "?R ((set_state boot 1 (s\<lparr>bp := BSelf\<rparr>))\<lparr>bp := BStage\<rparr>)" using hmove [OF 1 self_state] assms(3) by simp
  show ?thesis using hmove [OF 2 multicore] assms(2) by (intro exI conjI, simp) (simp add: hart_defs looks_def)
qed

lemma run_cleanup:
  assumes "hreach fw boot base sh satp cs0 m s" "looks s st K_MULTICORE h BRun l lt" "h boot = HExit" "\<forall>k. k = l boot \<or> st k \<noteq> 1 \<and> st k \<noteq> 2"
  shows "\<exists>s'. hreach fw boot base sh satp cs0 m s' \<and> looks s' st K_CLEARUP h BCleanup l lt"
proof -
  have p: "hp s boot = HExit" "bp s = BRun" using assms(2,3) by (simp_all add: looks_def)
  have 1: "hreach fw boot base sh satp cs0 m (s\<lparr>bp := BBefore\<rparr>)" by (rule hmove [OF assms(1) kernel_exit [OF p]])
  have 2: "hreach fw boot base sh satp cs0 m (s\<lparr>bp := BScan 0\<rparr>)" using hmove [OF 1 before] assms(2) by (simp add: looks_def)
  have "k_hart_state s k \<noteq> 1 \<and> k_hart_state s k \<noteq> 2" if "k \<noteq> hl_hartid s boot" for k
    using that assms(2,4) by (auto simp: looks_def)
  then have "hreach fw boot base sh satp cs0 m (s\<lparr>hs_stage := K_CLEARUP, bp := BCleanup\<rparr>)"
    using scan_all [OF 2, of 64] by simp
  then show ?thesis using assms(2) by (intro exI conjI, simp) (simp add: looks_def)
qed

lemma run_whole:
  assumes "hreach (demo_fw bad) boot base sh satp cs0 m s" "looks s st K_MULTICORE h b l lt" "h i = HEntry" "st i = 1" "i \<notin> bad"
  shows "\<exists>s'. hreach (demo_fw bad) boot base sh satp cs0 m s' \<and> looks s' (st(i := 3)) K_MULTICORE (h(i := HExit)) b (l(i := i)) lt"
proof -
  let ?R = "hreach (demo_fw bad) boot base sh satp cs0 m"
  obtain s1 where 1: "?R s1" "looks s1 st K_MULTICORE (h(i := HSet)) b (l(i := i)) lt" using run_entry [OF assms] by blast
  from run_set [OF this, of i] obtain s2 where 2: "?R s2" "looks s2 (st(i := 2)) K_MULTICORE (h(i := HWait)) b (l(i := i)) lt" by auto
  from run_main [OF this, of i] obtain s3 where 3: "?R s3" "looks s3 (st(i := 2)) K_MULTICORE (h(i := HMain)) b (l(i := i)) lt" by auto
  from run_after [OF this, of i] show ?thesis by simp
qed

lemma run_seen:
  assumes "hreach fw boot base sh satp cs0 m s" "looks s st g h (BPoll i cs) l lt" "2 \<le> st i"
  shows "\<exists>s'. hreach fw boot base sh satp cs0 m s' \<and> looks s' st g h (BNext cs) l lt"
proof -
  have "bp s = BPoll i cs" using assms(2) by (simp add: looks_def)
  from hmove [OF assms(1) poll [OF this]] assms(2,3) have 1: "hreach fw boot base sh satp cs0 m (s\<lparr>bp := BCheck i cs\<rparr>)"
    by (simp add: hart_defs looks_def)
  from hmove [OF 1 check] assms(2,3) show ?thesis by (intro exI conjI, simp) (simp add: hart_defs looks_def)
qed

lemma run_reset:
  assumes "hreach fw boot base sh satp cs0 m s" "looks s st g h (BPoll i cs) l lt" "st i < 2" "h i = HSet"
  shows "\<exists>s'. hreach fw boot base sh satp cs0 m s' \<and> looks s' (st(i := 0)) g (h(i := HWait)) (BNext cs) l (insert i lt)"
proof -
  let ?R = "hreach fw boot base sh satp cs0 m"
  have "bp s = BPoll i cs" using assms(2) by (simp add: looks_def)
  then have 1: "?R (s\<lparr>bp := BCheck i cs\<rparr>)" by (rule hmove [OF assms(1) timeout])
  have 2: "?R (s\<lparr>bp := BReset i cs\<rparr>)" using hmove [OF 1 check] assms(2,3) by (simp add: hart_defs looks_def)
  have "looks (s\<lparr>bp := BReset i cs\<rparr>) st g h (BReset i cs) l lt" using assms(2) by (simp add: looks_def)
  from run_set [OF 2 this assms(4)] obtain s1 where s1: "?R s1" "looks s1 (st(i := 2)) g (h(i := HWait)) (BReset i cs) l lt" by blast
  then have "bp s1 = BReset i cs" by (simp add: looks_def)
  from hmove [OF s1(1) reset [OF this]] s1(2) show ?thesis by (intro exI conjI, simp) (simp add: hart_defs looks_def)
qed

lemma run_begin: "hreach fw boot base sh satp cs m ((harts_init cs m)\<lparr>hs_stage := K_BOOT_HARTS, bp := BNext cs\<rparr>)"
  "looks ((harts_init cs m)\<lparr>hs_stage := K_BOOT_HARTS, bp := BNext cs\<rparr>) (\<lambda>_. 0) K_BOOT_HARTS (\<lambda>_. HOff) (BNext cs) (\<lambda>_. 0) {}"
  using hmove [OF hinit enter] by (simp_all add: harts_init_def looks_def)

text \<open>The first hart that is started, up to its wait for the boot hart.\<close>

lemma run_first:
  assumes "hart_no c \<noteq> boot" "in_array (hart_no c)" "hart_no c \<notin> bad" "in_array boot"
  shows "\<exists>s. hreach (demo_fw bad) boot base sh satp [c] m s \<and> looks s ((\<lambda>_. 0)(hart_no c := 2, boot := 1)) K_MULTICORE
    ((\<lambda>_. HOff)(hart_no c := HWait, boot := HEntry)) BRun ((\<lambda>_. 0)(hart_no c := hart_no c)) {}"
proof -
  let ?R = "hreach (demo_fw bad) boot base sh satp [c] m" and ?i = "hart_no c"
  obtain s1 where 1: "?R s1" "looks s1 ((\<lambda>_. 0)(?i := 1)) K_BOOT_HARTS ((\<lambda>_. HOff)(?i := HEntry)) (BPoll ?i []) (\<lambda>_. 0) {}"
    using run_start [OF run_begin, of c boot bad base sh satp "[]" m] assms(1,2) by (auto simp: fun_upd_idem)
  from run_entry [OF 1, of ?i] assms(3) obtain s2 where 2: "?R s2"
    "looks s2 ((\<lambda>_. 0)(?i := 1)) K_BOOT_HARTS ((\<lambda>_. HOff)(?i := HSet)) (BPoll ?i []) ((\<lambda>_. 0)(?i := ?i)) {}" by auto
  from run_set [OF 2, of ?i] obtain s3 where 3: "?R s3"
    "looks s3 ((\<lambda>_. 0)(?i := 2)) K_BOOT_HARTS ((\<lambda>_. HOff)(?i := HWait)) (BPoll ?i []) ((\<lambda>_. 0)(?i := ?i)) {}" by auto
  from run_seen [OF 3] obtain s4 where 4: "?R s4"
    "looks s4 ((\<lambda>_. 0)(?i := 2)) K_BOOT_HARTS ((\<lambda>_. HOff)(?i := HWait)) (BNext []) ((\<lambda>_. 0)(?i := ?i)) {}" by auto
  from run_multicore [OF 4 assms(4)] show ?thesis .
qed


text \<open>C23: The boot hart takes a hart for lost that stores its state between the last look of the boot hart
  and the reset: it is then in \<open>k_main\<close> with state 0, and \<open>k_cleanup\<close> destroys the objects of the kernel
  while that hart uses them.\<close>

theorem timeout_race:
  "\<exists>s. hreach (demo_fw {}) 0 base sh satp [demo_hart 1] m s \<and> bp s = BCleanup \<and> hl_hartid s 0 = 0 \<and> hp s 1 = HMain"
proof -
  let ?R = "hreach (demo_fw {}) 0 base sh satp [demo_hart 1] m"
  have n: "hart_no (demo_hart 1) = 1" "in_array 1" "in_array 0" by (simp_all add: hart_no_def demo_hart_def i32_def in_array_def kdefs)
  obtain s1 where 1: "?R s1" "looks s1 ((\<lambda>_. 0)(1 := 1)) K_BOOT_HARTS ((\<lambda>_. HOff)(1 := HEntry)) (BPoll 1 []) (\<lambda>_. 0) {}"
    using run_start [OF run_begin, of "demo_hart 1" 0 "{}" base sh satp "[]" m] n by (auto simp: fun_upd_idem)
  from run_entry [OF 1, of 1] obtain s2 where 2: "?R s2"
    "looks s2 ((\<lambda>_. 0)(1 := 1)) K_BOOT_HARTS ((\<lambda>_. HOff)(1 := HSet)) (BPoll 1 []) ((\<lambda>_. 0)(1 := 1)) {}" by auto
  from run_reset [OF 2] obtain s3 where 3: "?R s3"
    "looks s3 (\<lambda>_. 0) K_BOOT_HARTS ((\<lambda>_. HOff)(1 := HWait)) (BNext []) ((\<lambda>_. 0)(1 := 1)) {1}" by (auto simp: fun_upd_idem)
  from run_multicore [OF 3 n(3)] obtain s4 where 4: "?R s4"
    "looks s4 ((\<lambda>_. 0)(0 := 1)) K_MULTICORE ((\<lambda>_. HOff)(1 := HWait, 0 := HEntry)) BRun ((\<lambda>_. 0)(1 := 1)) {1}" by auto
  from run_main [OF 4, of 1] obtain s5 where 5: "?R s5"
    "looks s5 ((\<lambda>_. 0)(0 := 1)) K_MULTICORE ((\<lambda>_. HOff)(1 := HMain, 0 := HEntry)) BRun ((\<lambda>_. 0)(1 := 1)) {1}" by (auto simp: fun_upd_twist)
  from run_whole [OF 5, of 0] obtain s6 where 6: "?R s6"
    "looks s6 ((\<lambda>_. 0)(0 := 3)) K_MULTICORE ((\<lambda>_. HOff)(1 := HMain, 0 := HExit)) BRun ((\<lambda>_. 0)(1 := 1, 0 := 0)) {1}" by auto
  obtain s7 where "?R s7"
    "looks s7 ((\<lambda>_. 0)(0 := 3)) K_CLEARUP ((\<lambda>_. HOff)(1 := HMain, 0 := HExit)) BCleanup ((\<lambda>_. 0)(1 := 1, 0 := 0)) {1}"
    by (rule run_cleanup [OF 6, THEN exE]) auto
  then show ?thesis by (auto simp: looks_def)
qed

text \<open>A boot hart with another number than 0 whose timer call fails leaves \<open>k_pre_main\<close> before it stores its
  number in the thread-local \<open>hartid\<close>: \<open>k_before_cleanup\<close> then leaves out hart 0 instead of itself and
  does not wait for it.\<close>

lemma failed_boot_hart:
  "\<exists>s. hreach (demo_fw {1}) 1 base sh satp [demo_hart 0] m s \<and> bp s = BCleanup \<and> late s = {} \<and> hl_hartid s 1 = 0 \<and> hp s 0 = HMain"
proof -
  let ?R = "hreach (demo_fw {1}) 1 base sh satp [demo_hart 0] m"
  have n: "hart_no (demo_hart 0) = 0" "in_array 1" "in_array 0" by (simp_all add: hart_no_def demo_hart_def i32_def in_array_def kdefs)
  obtain s1 where 1: "?R s1" "looks s1 ((\<lambda>_. 0)(0 := 2, 1 := 1)) K_MULTICORE ((\<lambda>_. HOff)(0 := HWait, 1 := HEntry)) BRun (\<lambda>_. 0) {}"
    using run_first [of "demo_hart 0" 1 "{1}" base sh satp m] n by (auto simp: fun_upd_idem)
  from run_main [OF 1, of 0] obtain s2 where 2: "?R s2"
    "looks s2 ((\<lambda>_. 0)(0 := 2, 1 := 1)) K_MULTICORE ((\<lambda>_. HOff)(0 := HMain, 1 := HEntry)) BRun (\<lambda>_. 0) {}" by (auto simp: fun_upd_twist)
  have 3: "?R (set_hp 1 HTimer s2)" using hmove [OF 2(1) pre_test [of _ 1]] 2(2) by (simp add: pre_main_test_def looks_def)
  have 4: "?R (set_hp 1 HExit (set_state 1 3 (set_hp 1 HTimer s2)))"
    using hmove [OF 3 pre_timer [of _ 1, where rc = "- 1"]] by (simp add: pre_main_timer_def set_hp_def)
  have 5: "looks (set_hp 1 HExit (set_state 1 3 (set_hp 1 HTimer s2))) ((\<lambda>_. 0)(0 := 2, 1 := 3)) K_MULTICORE ((\<lambda>_. HOff)(0 := HMain, 1 := HExit)) BRun (\<lambda>_. 0) {}"
    using 2(2) by (simp add: looks_def hart_defs)
  obtain s where "?R s" "looks s ((\<lambda>_. 0)(0 := 2, 1 := 3)) K_CLEARUP ((\<lambda>_. HOff)(0 := HMain, 1 := HExit)) BCleanup (\<lambda>_. 0) {}"
    by (rule run_cleanup [OF 4 5, THEN exE]) auto
  then show ?thesis by (auto simp: looks_def)
qed

end
