(* ===== verification/Preload.thy ===== *)
theory Preload
  imports Boot_Map
begin

text \<open>Model of \<^verbatim>\<open>kernel/main/preloader.S\<close>, the code that runs first on every hart: it lets one hart through,
  chooses the entries of the start-up page table by the identity of the processor, switches paging on and jumps
  to the kernel at its virtual address. Memory is read and written in double words at physical addresses; once
  \<open>satp\<close> is written, data addresses are translated. \<^const>\<open>None\<close> means that the hart ends in \<open>_entry_hang\<close>.\<close>

section \<open>The image\<close>

text \<open>The addresses of the labels, all of which the code computes relative to the program counter, that is, as
  physical addresses.\<close>

record labels =
  l_hart_lottery :: u64
  l_start_addr :: u64
  l_mmutest :: u64
  l_default_pgtbl :: u64
  l_startup_pgtbl :: u64
  l_entry_pgtbl_start :: u64
  l_entry_pgtbl_end :: u64

text \<open>The labels of a kernel whose section \<open>.entry.data\<close> is at \<open>d\<close>: the table is aligned to a page and
  the items for special processors follow it, one in all.\<close>

definition entry_labels :: "u64 \<Rightarrow> labels" where
  "entry_labels d =
     (let startup = (d + 56 + 0xFFF) AND NOT 0xFFF in
      \<lparr>l_hart_lottery = d, l_start_addr = d + 8, l_mmutest = d + 16, l_default_pgtbl = d + 24, l_startup_pgtbl = startup,
       l_entry_pgtbl_start = startup + 4096, l_entry_pgtbl_end = startup + 4096 + 64\<rparr>)"

definition default_pgtbl :: "u64 list" where
  "default_pgtbl = [0xEF, 0x100000EF, 0x200000EF, 0x300000EF]"

definition pgtbl_c906 :: "u64 list" where
  "pgtbl_c906 = [0xB00797B1, 0x5B7, 0, 0, 0xEF, 0x100000EF, 0x200000EF OR push_bit 54 0x180, 0x300000EF OR push_bit 54 0x180]"

section \<open>Choosing the entries\<close>

partial_function (option) find_pgtbl_loop :: "(u64 \<Rightarrow> u64) \<Rightarrow> u64 \<Rightarrow> u64 \<Rightarrow> u64 \<Rightarrow> u64 \<Rightarrow> u64 \<Rightarrow> u64 \<Rightarrow> u64 option" where
  "find_pgtbl_loop m en vendor arch impl tbl a =
     (if a = en then Some tbl
      else if m a AND 0xFFFFFFFF \<noteq> 0xB00797B1 then find_pgtbl_loop m en vendor arch impl tbl (a + 64)
      else if m (a + 8) \<noteq> vendor then find_pgtbl_loop m en vendor arch impl tbl (a + 64)
      else if m (a + 16) \<noteq> arch then find_pgtbl_loop m en vendor arch impl tbl (a + 64)
      else if m (a + 24) \<noteq> impl then find_pgtbl_loop m en vendor arch impl tbl (a + 64)
      else Some (a + 32))"

definition load_pgtbl :: "labels \<Rightarrow> u64 \<Rightarrow> (u64 \<Rightarrow> u64) \<Rightarrow> (u64 \<Rightarrow> u64)" where
  "load_pgtbl sy tbl m =
     (let a5 = l_startup_pgtbl sy + 1024;
          m = m(a5 - 1024 := m tbl, a5 + 1024 := m tbl);
          m = m(a5 + 8 - 1024 := m (tbl + 8), a5 + 8 + 1024 := m (tbl + 8));
          m = m(a5 + 16 - 1024 := m (tbl + 16), a5 + 16 + 1024 := m (tbl + 16));
          m = m(a5 + 24 - 1024 := m (tbl + 24), a5 + 24 + 1024 := m (tbl + 24))
      in m)"

section \<open>Switching paging on\<close>

text \<open>Data accesses of the supervisor: with mode 8 through the Sv39 tables, where the leaf must have the bits the
  access needs and not be a user page; with mode 0 directly, in the 56 bits of a physical address. A load needs a
  valid, readable and accessed page, an atomic update also a writable and dirty one.\<close>

definition NEED_LOAD :: u64 where "NEED_LOAD = 0x43"
definition NEED_AMO :: u64 where "NEED_AMO = 0xC7"

definition data_addr :: "u64 \<Rightarrow> u64 \<Rightarrow> (u64 \<Rightarrow> u64) \<Rightarrow> u64 \<Rightarrow> u64 option" where
  "data_addr need satp m va =
     (if drop_bit 60 satp = 8 then
        (case sv_translate 39 (push_bit 12 (take_bit 44 satp)) m va of
           None \<Rightarrow> None
         | Some (pa, flags) \<Rightarrow> if flags AND (need OR 0x10) = need then Some pa else None)
      else if drop_bit 60 satp = 0 \<and> va < 2 ^ 56 then Some va else None)"

text \<open>\<open>amoadd.w\<close> on the lower word of an aligned double word: the old word and the memory.\<close>

definition amoadd_w :: "u64 \<Rightarrow> u32 \<Rightarrow> (u64 \<Rightarrow> u64) \<Rightarrow> u32 \<times> (u64 \<Rightarrow> u64)" where
  "amoadd_w a v m = (ucast (m a), m(a := push_bit 32 (drop_bit 32 (m a)) OR ucast (ucast (m a) + v)))"

definition set_mmu :: "(u64 \<Rightarrow> u64 \<Rightarrow> u64) \<Rightarrow> labels \<Rightarrow> u64 \<Rightarrow> u64 \<times> (u64 \<Rightarrow> u64) \<Rightarrow> (u64 \<times> (u64 \<Rightarrow> u64)) option" where
  "set_mmu warl sy a5 = (\<lambda>(satp, m).
     let satp = warl satp (push_bit 60 8 OR drop_bit 12 a5);
         t0 = l_mmutest sy
     in do {
       p \<leftarrow> data_addr NEED_AMO satp m t0;
       let m = snd (amoadd_w p 1 m);
       p \<leftarrow> data_addr NEED_AMO satp m (t0 OR push_bit 32 0xFFFFFFC0);
       Some (satp, snd (amoadd_w p 1 m))
     })"

section \<open>The two entries\<close>

text \<open>The base extension of the firmware answers an error and a value for a function number.\<close>

definition setup_pgtbl :: "(u64 \<Rightarrow> u64 \<times> u64) \<Rightarrow> (u64 \<Rightarrow> u64 \<Rightarrow> u64) \<Rightarrow> labels \<Rightarrow> u64 \<times> (u64 \<Rightarrow> u64) \<Rightarrow> (u64 \<times> (u64 \<Rightarrow> u64)) option" where
  "setup_pgtbl sbi warl sy = (\<lambda>(satp, m).
     if fst (sbi 4) \<noteq> 0 then None
     else if fst (sbi 5) \<noteq> 0 then None
     else if fst (sbi 6) \<noteq> 0 then None
     else do {
       tbl \<leftarrow> find_pgtbl_loop m (l_entry_pgtbl_end sy) (snd (sbi 4)) (snd (sbi 5)) (snd (sbi 6)) (l_default_pgtbl sy) (l_entry_pgtbl_start sy);
       set_mmu warl sy (l_startup_pgtbl sy + 1024) (satp, load_pgtbl sy tbl m)
     })"

text \<open>The results are \<open>satp\<close>, the memory and the address jumped to.\<close>

definition pre_entry :: "(u64 \<Rightarrow> u64 \<times> u64) \<Rightarrow> (u64 \<Rightarrow> u64 \<Rightarrow> u64) \<Rightarrow> labels \<Rightarrow> u64 \<times> (u64 \<Rightarrow> u64) \<Rightarrow> (u64 \<times> (u64 \<Rightarrow> u64) \<times> u64) option" where
  "pre_entry sbi warl sy = (\<lambda>(satp, m).
     let (old, m) = amoadd_w (l_hart_lottery sy) 1 m in
     if old \<noteq> 0 then None
     else do {
       (satp, m) \<leftarrow> setup_pgtbl sbi warl sy (satp, m);
       p \<leftarrow> data_addr NEED_LOAD satp m (l_start_addr sy);
       Some (satp, m, m p)
     })"

definition entry_hart :: "(u64 \<Rightarrow> u64 \<Rightarrow> u64) \<Rightarrow> labels \<Rightarrow> u64 \<Rightarrow> u64 \<times> (u64 \<Rightarrow> u64) \<Rightarrow> (u64 \<times> (u64 \<Rightarrow> u64) \<times> u64) option" where
  "entry_hart warl sy a1 s = do {
     (satp, m) \<leftarrow> set_mmu warl sy (l_startup_pgtbl sy) s;
     p \<leftarrow> data_addr NEED_LOAD satp m (a1 - 8);
     Some (satp, m, m p)
   }"

end
