(* ===== verification/Preload_Props.thy ===== *)
theory Preload_Props
  imports Preload
begin

text \<open>What the start-up page table maps, and that both entries reach the kernel through it.\<close>

section \<open>Translation through the start-up table\<close>

definition start_entry :: "u64 \<Rightarrow> u64 \<Rightarrow> bool" where
  "start_entry k e \<longleftrightarrow> pte_leaf e \<and> pte_base e = push_bit 30 k \<and> take_bit 8 e = 0xEF"

definition start_table :: "u64 \<Rightarrow> (u64 \<Rightarrow> u64) \<Rightarrow> bool" where
  "start_table s m \<longleftrightarrow> (\<forall>i<512. if i < 4 then start_entry i (m (slot s i))
     else if 256 \<le> i \<and> i < 260 then start_entry (i - 256) (m (slot s i)) else m (slot s i) = 0)"

lemma vpn_top: "sv_vpn 39 va 0 = bf_get 30 9 va" "sv_top 39 = 2" "sv_shift 39 0 = 30"
  by (simp_all add: sv_vpn_def sv_shift_def sv_top_def)

lemma unat_bf: "unat (bf_get lo w va) = unat va div 2 ^ lo mod 2 ^ w"
  by (simp only: bf_get_def unat_take_bit_word unat_drop_bit_word)

lemma walk_top:
  assumes "start_table s m" "idx 0 < 512"
  shows "sv_walk m idx 2 0 s = (if pte_leaf (m (slot s (idx 0))) then Some (0, m (slot s (idx 0))) else None)"
proof -
  have "m (slot s (idx 0)) = 0 \<or> pte_leaf (m (slot s (idx 0)))"
    using assms by (auto simp: start_table_def start_entry_def split: if_splits)
  moreover have "\<not> pte_leaf 0" "\<not> pte_ptr 0" by (simp_all add: pte_leaf_def pte_ptr_def pte_v_def)
  ultimately show ?thesis by (auto simp: numeral_2_eq_2 Let_def)
qed

lemma parts_or:
  assumes "unat k = unat x div 2 ^ 30" "take_bit 30 y = take_bit 30 x"
  shows "push_bit 30 k OR take_bit 30 y = (x :: u64)"
proof -
  have "k = drop_bit 30 x" using assms(1) by (simp add: word_unat_eq_iff unat_drop_bit_word)
  then show ?thesis unfolding assms(2) by (intro word_bit_extI) (auto simp: bit_simps)
qed

lemma canonical_cases: "sv_canonical 39 va \<Longrightarrow> unat va < 2 ^ 38 \<or> K_VADDR_BASE \<le> va"
proof -
  assume c: "sv_canonical 39 va"
  have b: "bit va j = bit va 38" if "38 \<le> j" "j < 64" for j using canonical_bit [OF c, of j] that by simp
  show ?thesis
  proof (cases "bit va 38")
    case False
    have n: "\<not> bit va j" if "38 \<le> j" for j using b [OF that] False bit_imp_le_length [of va j] by (cases "j < 64") auto
    have "take_bit 38 va = va"
    proof (rule word_bit_extI)
      fix j :: nat
      show "bit (take_bit 38 va) j = bit va j" using n [of j] by (cases "38 \<le> j") (simp_all add: bit_take_bit_iff)
    qed
    then have "unat va = unat va mod 2 ^ 38" using unat_take_bit_word [of 38 va] by simp
    moreover have "unat va mod 2 ^ 38 < 2 ^ 38" by (rule mod_less_divisor) simp
    ultimately show ?thesis by simp
  next
    case True
    have n: "bit va (38 + j) \<longleftrightarrow> j < 26" for j using b [of "38 + j"] True bit_imp_le_length [of va "38 + j"] by (cases "j < 26") auto
    have "drop_bit 38 va = mask 26"
    proof (rule word_bit_extI)
      fix j :: nat assume "j < 64"
      then show "bit (drop_bit 38 va) j = bit (mask 26 :: u64) j" using n [of j] by (simp add: bit_drop_bit_eq bit_mask_iff)
    qed
    then have "unat (drop_bit 38 va) = unat (mask 26 :: u64)" by (rule arg_cong)
    then have "unat va div 2 ^ 38 = 2 ^ 26 - 1" by (simp only: unat_drop_bit_word) (simp add: mask_eq_exp_minus_1)
    then have "2 ^ 38 * (2 ^ 26 - 1) \<le> unat va" using times_div_less_eq_dividend [of "2 ^ 38" "unat va"] by simp
    then show ?thesis by (simp add: K_VADDR_BASE_def word_le_nat_alt)
  qed
qed

lemma start_leaf:
  assumes "start_table s m" "sv_canonical 39 va" "bf_get 30 9 va = i"
  shows "sv_translate 39 s m va = (if i < 4 then Some (push_bit 30 i OR take_bit 30 va, 0xEF)
    else if 256 \<le> i \<and> i < 260 then Some (push_bit 30 (i - 256) OR take_bit 30 va, 0xEF) else None)"
proof -
  have i: "i < 512" using unat_bf [of 30 9 va] assms(3) by (simp add: word_less_nat_alt)
  have z: "\<not> pte_leaf 0" by (simp add: pte_leaf_def pte_v_def)
  have p: "take_bit 30 (push_bit 30 x) = 0" for x :: u64 by (simp add: take_bit_push_bit)
  let ?e = "m (slot s i)"
  have e: "if i < 4 then start_entry i ?e else if 256 \<le> i \<and> i < 260 then start_entry (i - 256) ?e else ?e = 0"
    using assms(1) i by (simp add: start_table_def)
  have "sv_walk m (sv_vpn 39 va) 2 0 s = (if pte_leaf ?e then Some (0, ?e) else None)"
    using walk_top [OF assms(1), of "sv_vpn 39 va"] i by (simp add: vpn_top assms(3))
  then show ?thesis using e z p assms(2) by (simp add: sv_translate_def sv_lookup_def vpn_top start_entry_def split: if_splits)
qed

lemma below_window: "\<not> K_VADDR_BASE \<le> va \<Longrightarrow> unat (va - K_VADDR_BASE) = unat va + 2 ^ 38"
proof -
  assume "\<not> K_VADDR_BASE \<le> va"
  then have l: "unat va < 0xFFFFFFC000000000" by (simp add: K_VADDR_BASE_def word_le_nat_alt)
  have e: "va - K_VADDR_BASE = va + 0x4000000000" by (simp add: K_VADDR_BASE_def)
  show ?thesis unfolding e using l by (simp add: unat_word_ariths)
qed

text \<open>The table maps the low 4 GiB to themselves, their copy at the kernel's base address to them, and nothing else.\<close>

lemma start_translate:
  assumes t: "start_table s m"
  shows "sv_translate 39 s m va =
    (if va < 0x100000000 then Some (va, 0xEF) else if va - K_VADDR_BASE < 0x100000000 then Some (va - K_VADDR_BASE, 0xEF) else None)"
proof (cases "sv_canonical 39 va")
  case False
  then have "\<not> unat va < 2 ^ 38" "\<not> K_VADDR_BASE \<le> va" using low_canonical high_canonical by blast+
  then show ?thesis using False below_window [of va] by (simp add: sv_translate_def word_less_nat_alt)
next
  case True
  define i where "i = bf_get 30 9 va"
  have i: "unat i = unat va div 2 ^ 30 mod 512" using unat_bf [of 30 9 va] by (simp add: i_def)
  note tr = start_leaf [OF t True i_def [symmetric]]
  consider "unat va < 2 ^ 38" | "K_VADDR_BASE \<le> va" using canonical_cases [OF True] by blast
  then show ?thesis
  proof cases
    case 1
    then have "unat va div 2 ^ 30 < 256" by (simp add: div_less_iff_less_mult)
    then have u: "unat i = unat va div 2 ^ 30" "unat i < 256" using i by simp_all
    have "va < 0x100000000 \<longleftrightarrow> i < 4" using u(1) by (simp add: word_less_nat_alt div_less_iff_less_mult)
    moreover have "\<not> va - K_VADDR_BASE < 0x100000000" using below_window [of va] 1 by (simp add: word_less_nat_alt K_VADDR_BASE_def word_le_nat_alt)
    moreover have "push_bit 30 i OR take_bit 30 va = va" using u(1) by (rule parts_or) simp
    ultimately show ?thesis using tr u(2) by (simp add: word_le_nat_alt)
  next
    case 2
    let ?w = "va - K_VADDR_BASE"
    have w: "unat va = 0xFFFFFFC000000000 + unat ?w" using 2 by (simp add: unat_sub K_VADDR_BASE_def word_le_nat_alt)
    moreover have "unat va < 2 ^ LENGTH(64)" by (rule unsigned_less)
    ultimately have l: "unat ?w < 2 ^ 38" by simp
    have v: "unat va = unat ?w + (256 + 0x1FFFFFF * 512) * 2 ^ 30" using w by simp
    have "unat va div 2 ^ 30 = (256 + 0x1FFFFFF * 512) + unat ?w div 2 ^ 30" unfolding v by (rule div_mult_self1) simp
    moreover have d: "unat ?w div 2 ^ 30 < 256" using l by (simp add: div_less_iff_less_mult)
    moreover have "(256 + 0x1FFFFFF * 512 + x) mod 512 = 256 + x" if "x < 256" for x :: nat
    proof -
      have "256 + 0x1FFFFFF * 512 + x = (256 + x) + 0x1FFFFFF * 512" by simp
      then show ?thesis using that by (simp only: mod_mult_self1) simp
    qed
    ultimately have u: "unat i = 256 + unat ?w div 2 ^ 30" unfolding i by (simp only:)
    then have j: "256 \<le> i" "unat (i - 256) = unat ?w div 2 ^ 30" by (simp_all add: word_le_nat_alt unat_sub)
    have "?w < 0x100000000 \<longleftrightarrow> i < 260" using u by (simp add: word_less_nat_alt div_less_iff_less_mult)
    moreover have "unat (take_bit 30 va) = unat (take_bit 30 ?w)" unfolding unat_take_bit_word v by (rule mod_mult_self1)
    then have "push_bit 30 (i - 256) OR take_bit 30 va = ?w" using j(2) by (intro parts_or) (simp_all only: word_unat_eq_iff)
    moreover have "\<not> va < 0x100000000" "\<not> i < 4" using w u by (simp_all add: word_less_nat_alt)
    ultimately show ?thesis using tr j(1) by simp
  qed
qed

section \<open>The image in memory\<close>

definition quads_at :: "(u64 \<Rightarrow> u64) \<Rightarrow> u64 \<Rightarrow> u64 list \<Rightarrow> bool" where
  "quads_at m a xs \<longleftrightarrow> (\<forall>k<length xs. m (a + 8 * of_nat k) = xs ! k)"

text \<open>The kernel is loaded with its section \<open>.entry.data\<close> at \<open>d\<close>, below 4 GiB, and the address of \<open>_start\<close> in it.\<close>

definition image_at :: "u64 \<Rightarrow> u64 \<Rightarrow> (u64 \<Rightarrow> u64) \<Rightarrow> bool" where
  "image_at d pc m \<longleftrightarrow> 8 \<le> d \<and> d < 0xFFFF0000 \<and>
     m d = 0 \<and> m (d + 8) = pc \<and> quads_at m (d + 24) default_pgtbl \<and>
     (\<forall>i<512. m (slot (l_startup_pgtbl (entry_labels d)) i) = 0) \<and>
     quads_at m (l_entry_pgtbl_start (entry_labels d)) pgtbl_c906"

lemma and_not_page: "(x :: u64) AND NOT 0xFFF = x - take_bit 12 x"
proof -
  have m: "(0xFFF :: u64) = mask 12" by (simp add: mask_eq_exp_minus_1)
  have "x AND NOT (mask 12) = push_bit 12 (drop_bit 12 x)" by (rule word_bit_extI) (auto simp: bit_simps)
  then show ?thesis using bits_ident [of 12 x] by (simp add: m algebra_simps)
qed

lemma startup_pos:
  assumes "d < 0xFFFF0000"
  shows "page_ok (l_startup_pgtbl (entry_labels d))" "unat d + 56 \<le> unat (l_startup_pgtbl (entry_labels d))"
    "unat (l_startup_pgtbl (entry_labels d)) \<le> unat d + 56 + 4095"
proof -
  define x where "x = d + 56 + 0xFFF"
  have s: "l_startup_pgtbl (entry_labels d) = x AND NOT 0xFFF" by (simp add: entry_labels_def Let_def x_def)
  have u: "unat x = unat d + 56 + 4095" using assms by (simp add: x_def unat_word_ariths word_less_nat_alt)
  have e: "x AND NOT 0xFFF = x - take_bit 12 x" by (rule and_not_page)
  have m: "unat (take_bit 12 x) = unat x mod 4096" by (simp add: unat_take_bit_word)
  have "take_bit 12 x \<le> x" by (simp add: word_le_nat_alt m)
  then have v: "unat (x - take_bit 12 x) = unat x - unat x mod 4096" by (simp add: unat_sub m)
  then have v': "unat (l_startup_pgtbl (entry_labels d)) = unat x - unat x mod 4096" using s e by simp
  have q: "unat x mod 4096 < 4096" by simp
  show "unat d + 56 \<le> unat (l_startup_pgtbl (entry_labels d))" "unat (l_startup_pgtbl (entry_labels d)) \<le> unat d + 56 + 4095"
    using v' q u by linarith+
  moreover have "unat (l_startup_pgtbl (entry_labels d)) mod 4096 = 0" unfolding v' by (simp add: minus_mod_eq_mult_div)
  ultimately show "page_ok (l_startup_pgtbl (entry_labels d))"
    using assms by (auto simp: page_ok_def aligned12_iff word_less_nat_alt)
qed

text \<open>The addresses of the data and of the items are apart from the table.\<close>

lemma apart_below: "d < 0xFFFF0000 \<Longrightarrow> unat o' < 56 \<Longrightarrow> i < 512 \<Longrightarrow> d + o' \<noteq> slot (l_startup_pgtbl (entry_labels d)) i"
proof -
  assume a: "d < 0xFFFF0000" "unat o' < 56" "i < 512"
  then have "unat (d + o') = unat d + unat o'" by (simp add: unat_word_ariths word_less_nat_alt)
  then show ?thesis using startup_pos [OF a(1)] unat_slot [OF startup_pos(1) [OF a(1)] a(3)] a(2) by auto
qed

lemma apart_above: "d < 0xFFFF0000 \<Longrightarrow> unat o' < 64 \<Longrightarrow> i < 512 \<Longrightarrow>
  l_startup_pgtbl (entry_labels d) + 4096 + o' \<noteq> slot (l_startup_pgtbl (entry_labels d)) i"
proof -
  assume a: "d < 0xFFFF0000" "unat o' < 64" "i < 512"
  let ?s = "l_startup_pgtbl (entry_labels d)"
  have "unat (?s + 4096 + o') = unat ?s + 4096 + unat o'" using a startup_pos [OF a(1)] by (simp add: unat_word_ariths word_less_nat_alt)
  moreover have "unat i < 512" using a(3) by (simp add: word_less_nat_alt)
  ultimately show ?thesis using unat_slot [OF startup_pos(1) [OF a(1)] a(3)] by auto
qed

section \<open>Loading the table\<close>

lemma load_pgtbl_slots:
  assumes "page_ok s" "l_startup_pgtbl sy = s" and ap: "\<And>i k. i < 512 \<Longrightarrow> k \<in> {0, 8, 16, 24} \<Longrightarrow> tbl + k \<noteq> slot s i"
    and e: "start_entry 0 (m tbl)" "start_entry 1 (m (tbl + 8))" "start_entry 2 (m (tbl + 16))" "start_entry 3 (m (tbl + 24))"
    and z: "\<forall>i<512. m (slot s i) = 0"
  shows "start_table s (load_pgtbl sy tbl m)" "\<forall>a. (\<forall>i<512. a \<noteq> slot s i) \<longrightarrow> load_pgtbl sy tbl m a = m a"
proof -
  have x: "s + 1024 - 1024 = slot s 0" "s + 1024 + 1024 = slot s 256" "s + 1024 + 8 - 1024 = slot s 1" "s + 1024 + 8 + 1024 = slot s 257"
    "s + 1024 + 16 - 1024 = slot s 2" "s + 1024 + 16 + 1024 = slot s 258" "s + 1024 + 24 - 1024 = slot s 3" "s + 1024 + 24 + 1024 = slot s 259"
    by (simp_all add: slot_def)
  have r: "tbl + k \<noteq> slot s i" if "k \<in> {0, 8, 16, 24}" "i \<in> {0, 1, 2, 3, 256, 257, 258, 259}" for k i using ap [of i k] that by auto
  have l: "load_pgtbl sy tbl m = m(slot s 0 := m tbl, slot s 256 := m tbl, slot s 1 := m (tbl + 8), slot s 257 := m (tbl + 8),
     slot s 2 := m (tbl + 16), slot s 258 := m (tbl + 16), slot s 3 := m (tbl + 24), slot s 259 := m (tbl + 24))"
    unfolding load_pgtbl_def assms(2) Let_def x by (simp add: r)
  show "\<forall>a. (\<forall>i<512. a \<noteq> slot s i) \<longrightarrow> load_pgtbl sy tbl m a = m a" unfolding l by auto
  show "start_table s (load_pgtbl sy tbl m)"
  proof (unfold start_table_def, intro allI impI)
    fix i :: u64 assume i: "i < 512"
    have q: "slot s i = slot s j \<longleftrightarrow> i = j" if "j < 512" for j using slot_eq_iff [OF assms(1) assms(1) i that] by simp
    have "unat i < 4 \<longleftrightarrow> unat i \<in> {0, 1, 2, 3}" "256 \<le> unat i \<and> unat i < 260 \<longleftrightarrow> unat i \<in> {256, 257, 258, 259}" by auto
    then have "i < 4 \<longleftrightarrow> i \<in> {0, 1, 2, 3}" "256 \<le> i \<and> i < 260 \<longleftrightarrow> i \<in> {256, 257, 258, 259}"
      by (simp_all add: word_less_nat_alt word_le_nat_alt word_unat_eq_iff)
    then consider "i = 0" | "i = 1" | "i = 2" | "i = 3" | "i = 256" | "i = 257" | "i = 258" | "i = 259"
      | "\<not> i < 4" "\<not> (256 \<le> i \<and> i < 260)" "i \<notin> {0, 1, 2, 3, 256, 257, 258, 259}" by blast
    then show "if i < 4 then start_entry i (load_pgtbl sy tbl m (slot s i))
      else if 256 \<le> i \<and> i < 260 then start_entry (i - 256) (load_pgtbl sy tbl m (slot s i)) else load_pgtbl sy tbl m (slot s i) = 0"
    proof cases
      case 9
      then have "load_pgtbl sy tbl m (slot s i) = 0" using z i by (simp add: l q)
      then show ?thesis using 9(1,2) by auto
    qed (use e in \<open>simp_all add: l slot_eq_iff [OF assms(1) assms(1)]\<close>)
  qed
qed

section \<open>Switching paging on\<close>

definition start_satp :: "u64 \<Rightarrow> u64" where
  "start_satp s = push_bit 60 8 OR drop_bit 12 s"

lemma start_satp_fields:
  assumes "page_ok s"
  shows "drop_bit 60 (start_satp s) = 8" "push_bit 12 (take_bit 44 (start_satp s)) = s"
    "take_bit 44 (start_satp s) = drop_bit 12 s" "44 \<le> i \<Longrightarrow> i < 60 \<Longrightarrow> \<not> bit (start_satp s) i"
proof -
  have u: "unat s < 2 ^ 32" "take_bit 12 s = 0" using assms by (simp_all add: page_ok_def word_less_nat_alt and_mask12)
  have "unat (drop_bit 60 (drop_bit 12 s)) = 0" "unat (take_bit 44 (drop_bit 12 s)) = unat (drop_bit 12 s)"
    unfolding unat_drop_bit_word unat_take_bit_word using u(1) by (simp_all add: div_mult2_eq [symmetric] mod_less less_le_trans [OF le_less_trans [OF div_le_dividend]])
  then have z: "drop_bit 60 (drop_bit 12 s) = 0" "take_bit 44 (drop_bit 12 s) = drop_bit 12 s" by (simp_all only: word_unat_eq_iff unat_0)
  have "push_bit 12 (drop_bit 12 s) = s" using bits_ident [of 12 s] u(2) by simp
  then show "push_bit 12 (take_bit 44 (start_satp s)) = s" by (simp only: start_satp_def take_bit_or z) simp
  show "drop_bit 60 (start_satp s) = 8" by (simp only: start_satp_def drop_bit_or z) simp
  show "take_bit 44 (start_satp s) = drop_bit 12 s" by (simp only: start_satp_def take_bit_or z) simp
  show "\<not> bit (start_satp s) i" if "44 \<le> i" "i < 60"
    using arg_cong [OF z(2), of "\<lambda>w. bit w i"] that
    by (simp only: start_satp_def bit_or_iff bit_push_bit_iff) (simp add: bit_simps)
qed

lemma sv39_satp:
  assumes "page_ok s" "keeps_sv39 n warl"
  shows "warl old (start_satp s) = start_satp s"
proof -
  have "bf_set 44 16 (take_bit n (bf_get 44 16 (start_satp s))) (start_satp s) = start_satp s"
    unfolding asid_kept using start_satp_fields(4) [OF assms(1)] by simp
  then show ?thesis
    using keeps_sv39D [OF assms(2) start_satp_fields(1) [OF assms(1)]] start_satp_fields(3) [OF assms(1)] page_frame [OF assms(1)] by simp
qed

lemma start_data:
  assumes "page_ok s" "start_table s m" "va < 0x100000000 \<or> va - K_VADDR_BASE < 0x100000000" "need = NEED_LOAD \<or> need = NEED_AMO"
  shows "data_addr need (start_satp s) m va = Some (if va < 0x100000000 then va else va - K_VADDR_BASE)"
  using assms(3,4) start_translate [OF assms(2), of va]
  by (auto simp: data_addr_def start_satp_fields(1,2) [OF assms(1)] NEED_LOAD_def NEED_AMO_def)

lemma window_or: "t < 0x100000000 \<Longrightarrow> t OR push_bit 32 0xFFFFFFC0 = K_VADDR_BASE + (t :: u64)"
proof -
  assume t: "t < 0x100000000"
  have b: "(push_bit 32 0xFFFFFFC0 :: u64) = push_bit 38 (mask 26)" "K_VADDR_BASE = push_bit 38 (mask 26)" by (simp_all add: mask_eq_exp_minus_1 K_VADDR_BASE_def)
  have "unat (take_bit 32 t) = unat t" unfolding unat_take_bit_word using t by (simp add: word_less_nat_alt)
  then have "take_bit 32 t = t" by (simp only: word_unat_eq_iff)
  then have "\<not> bit t n" if "38 \<le> n" for n using that bit_take_bit_iff [of 32 t n] by auto
  then show ?thesis unfolding b by (subst disjunctive_add) (auto simp: bit_simps or.commute)
qed

lemma window_above: "t < 0x100000000 \<Longrightarrow> \<not> K_VADDR_BASE + t < (0x100000000 :: u64)"
  by (simp add: K_VADDR_BASE_def word_less_nat_alt unat_word_ariths)

lemma set_mmu_ok:
  assumes s: "page_ok s" "start_table s m" and w: "keeps_sv39 n warl" and a: "drop_bit 12 a5 = drop_bit 12 s"
    and t: "l_mmutest sy < 0x100000000" "\<And>i. i < 512 \<Longrightarrow> l_mmutest sy \<noteq> slot s i"
  shows "\<exists>v. set_mmu warl sy a5 (satp, m) = Some (start_satp s, m(l_mmutest sy := v))"
proof -
  let ?t = "l_mmutest sy"
  have x: "warl satp (push_bit 60 8 OR drop_bit 12 a5) = start_satp s"
    using sv39_satp [OF s(1) w] by (simp add: a start_satp_def)
  have t': "start_table s (m(?t := v))" for v using s(2) t(2) [symmetric] by (simp add: start_table_def)
  have k: "?t OR push_bit 32 0xFFFFFFC0 = K_VADDR_BASE + ?t" by (rule window_or [OF t(1)])
  have d1: "data_addr NEED_AMO (start_satp s) m ?t = Some ?t" using start_data [OF s(1) s(2), of ?t NEED_AMO] t(1) by simp
  have d2: "data_addr NEED_AMO (start_satp s) (m(?t := v)) (K_VADDR_BASE + ?t) = Some ?t" for v
    using start_data [OF s(1) t', of "K_VADDR_BASE + ?t" NEED_AMO] t(1) window_above [OF t(1)] by simp
  show ?thesis unfolding set_mmu_def prod.case Let_def x k d1 amoadd_w_def snd_conv bind.bind_lunit d2 by (rule exI) (simp only: fun_upd_upd)
qed

text \<open>Without Sv39 the second test access faults, and the hart ends in \<open>_entry_hang\<close>.\<close>

lemma no_sv39_hangs: "(\<And>old v. warl old v = 0) \<Longrightarrow> l_mmutest sy < 0x100000000 \<Longrightarrow> set_mmu warl sy a5 s = None"
proof -
  assume a: "\<And>old v. warl old v = 0" "l_mmutest sy < 0x100000000"
  have "\<not> K_VADDR_BASE + l_mmutest sy < 2 ^ 56" using a(2) by (simp add: K_VADDR_BASE_def word_less_nat_alt unat_word_ariths)
  then have "data_addr NEED_AMO 0 m (l_mmutest sy OR push_bit 32 0xFFFFFFC0) = None" for m
    unfolding window_or [OF a(2)] by (simp add: data_addr_def)
  then show ?thesis by (cases s) (simp only: set_mmu_def prod.case Let_def a(1), cases "data_addr NEED_AMO 0 (snd s) (l_mmutest sy)", simp_all)
qed

section \<open>The entries\<close>

lemma find_pgtbl:
  "find_pgtbl_loop m (a + 64) vendor arch impl tbl a =
     Some (if m a AND 0xFFFFFFFF = 0xB00797B1 \<and> m (a + 8) = vendor \<and> m (a + 16) = arch \<and> m (a + 24) = impl then a + 32 else tbl)"
proof -
  have "find_pgtbl_loop m (a + 64) vendor arch impl tbl (a + 64) = Some tbl" by (subst find_pgtbl_loop.simps) simp
  then show ?thesis by (subst find_pgtbl_loop.simps) simp
qed

lemma start_entries:
  "start_entry 0 0xEF" "start_entry 1 0x100000EF" "start_entry 2 0x200000EF" "start_entry 3 0x300000EF"
  "start_entry 2 (0x200000EF OR push_bit 54 0x180)" "start_entry 3 (0x300000EF OR push_bit 54 0x180)"
  unfolding start_entry_def by code_simp+

lemma quads_at_nth: "quads_at m a xs \<Longrightarrow> k < length xs \<Longrightarrow> m (a + 8 * of_nat k) = xs ! k"
  by (simp add: quads_at_def)

text \<open>Both tables have entries for the four gigabytes.\<close>

lemma image_entries:
  assumes "image_at d pc m"
  shows "m (d + 24) = 0xEF" "m (d + 32) = 0x100000EF" "m (d + 40) = 0x200000EF" "m (d + 48) = 0x300000EF"
    and "m (l_entry_pgtbl_start (entry_labels d) + 32) = 0xEF" "m (l_entry_pgtbl_start (entry_labels d) + 40) = 0x100000EF"
    "m (l_entry_pgtbl_start (entry_labels d) + 48) = 0x200000EF OR push_bit 54 0x180"
    "m (l_entry_pgtbl_start (entry_labels d) + 56) = 0x300000EF OR push_bit 54 0x180"
proof -
  have h: "quads_at m (d + 24) default_pgtbl" "quads_at m (l_entry_pgtbl_start (entry_labels d)) pgtbl_c906" using assms by (simp_all add: image_at_def)
  show "m (d + 24) = 0xEF" "m (d + 32) = 0x100000EF" "m (d + 40) = 0x200000EF" "m (d + 48) = 0x300000EF"
    using quads_at_nth [OF h(1), of 0] quads_at_nth [OF h(1), of 1] quads_at_nth [OF h(1), of 2] quads_at_nth [OF h(1), of 3]
    by (simp_all add: default_pgtbl_def ac_simps)
  show "m (l_entry_pgtbl_start (entry_labels d) + 32) = 0xEF" "m (l_entry_pgtbl_start (entry_labels d) + 40) = 0x100000EF"
    "m (l_entry_pgtbl_start (entry_labels d) + 48) = 0x200000EF OR push_bit 54 0x180"
    "m (l_entry_pgtbl_start (entry_labels d) + 56) = 0x300000EF OR push_bit 54 0x180"
    using quads_at_nth [OF h(2), of 4] quads_at_nth [OF h(2), of 5] quads_at_nth [OF h(2), of 6] quads_at_nth [OF h(2), of 7]
    by (simp_all add: pgtbl_c906_def)
qed

lemma label_simps:
  "l_hart_lottery (entry_labels d) = d" "l_start_addr (entry_labels d) = d + 8" "l_mmutest (entry_labels d) = d + 16"
  "l_default_pgtbl (entry_labels d) = d + 24" "l_entry_pgtbl_end (entry_labels d) = l_entry_pgtbl_start (entry_labels d) + 64"
  "l_entry_pgtbl_start (entry_labels d) = l_startup_pgtbl (entry_labels d) + 4096"
  by (simp_all add: entry_labels_def Let_def)

text \<open>Whatever the processor is, the table that is loaded is a start-up table.\<close>

lemma setup_table:
  assumes im: "image_at d pc m" and d: "s = l_startup_pgtbl (entry_labels d)" and m1: "m1 = m(d := x)"
    and tbl: "tbl = d + 24 \<or> tbl = l_entry_pgtbl_start (entry_labels d) + 32"
  shows "start_table s (load_pgtbl (entry_labels d) tbl m1)"
    "\<forall>a. (\<forall>i<512. a \<noteq> slot s i) \<longrightarrow> load_pgtbl (entry_labels d) tbl m1 a = m1 a"
proof -
  have b: "d < 0xFFFF0000" using im by (simp add: image_at_def)
  note e = image_entries [OF im, unfolded label_simps]
  have n: "d \<noteq> l_startup_pgtbl (entry_labels d) + 4096 + k" if "unat k < 64" for k
  proof -
    have u: "unat (l_startup_pgtbl (entry_labels d) + 4096 + k) = unat (l_startup_pgtbl (entry_labels d)) + 4096 + unat k"
      using that startup_pos(3) [OF b] b by (simp add: unat_word_ariths word_less_nat_alt)
    show ?thesis
    proof
      assume "d = l_startup_pgtbl (entry_labels d) + 4096 + k"
      then have "unat d = unat (l_startup_pgtbl (entry_labels d) + 4096 + k)" by (rule arg_cong)
      then show False using u startup_pos(2) [OF b] by linarith
    qed
  qed
  have ap: "tbl + k \<noteq> slot s i" if "i < 512" "k \<in> {0, 8, 16, 24}" for i k
    using tbl apart_below [OF b, of "24 + k"] apart_above [OF b, of "32 + k"] that d by (auto simp: label_simps add.assoc)
  have z: "\<forall>i<512. m1 (slot s i) = 0" using im apart_below [OF b, of 0, symmetric] by (simp add: image_at_def m1 d)
  have en: "start_entry 0 (m1 tbl)" "start_entry 1 (m1 (tbl + 8))" "start_entry 2 (m1 (tbl + 16))" "start_entry 3 (m1 (tbl + 24))"
    using tbl e start_entries n [of 32] n [of 40] n [of 48] n [of 56] by (auto simp: m1 label_simps add.assoc)
  show "start_table s (load_pgtbl (entry_labels d) tbl m1)"
    "\<forall>a. (\<forall>i<512. a \<noteq> slot s i) \<longrightarrow> load_pgtbl (entry_labels d) tbl m1 a = m1 a"
    by (rule load_pgtbl_slots [OF startup_pos(1) [OF b, folded d] d [symmetric] ap en z]; assumption)+
qed

lemma mmutest_ok: "d < 0xFFFF0000 \<Longrightarrow> d + 16 < 0x100000000 \<and> d + 8 < 0x100000000 \<and> d + 16 \<noteq> d \<and> d + 16 \<noteq> d + 8" for d :: u64
  by (simp add: word_less_nat_alt unat_word_ariths)

lemma start_page_drop: "page_ok s \<Longrightarrow> drop_bit 12 (s + 1024) = drop_bit 12 s"
proof -
  assume p: "page_ok s"
  then have u: "unat s < 2 ^ 32" "unat s mod 4096 = 0" by (simp_all add: page_ok_def word_less_nat_alt aligned12_iff)
  then obtain q where q: "unat s = 4096 * q" by (auto simp: mod_eq_0_iff_dvd)
  have "unat (s + 1024) = unat s + 1024" using u by (simp add: unat_word_ariths)
  then have "unat (drop_bit 12 (s + 1024)) = unat (drop_bit 12 s)" unfolding unat_drop_bit_word using q by simp
  then show ?thesis by (simp only: word_unat_eq_iff)
qed

lemma setup_ok:
  assumes im: "image_at d pc m" and w: "keeps_sv39 n warl" and f: "fst (sbi 4) = 0" "fst (sbi 5) = 0" "fst (sbi 6) = 0"
    and s: "s = l_startup_pgtbl (entry_labels d)" and m1: "m1 = m(d := x)"
  shows "\<exists>m2. setup_pgtbl sbi warl (entry_labels d) (satp, m1) = Some (start_satp s, m2) \<and> start_table s m2 \<and>
    (\<forall>a. a \<noteq> d + 16 \<longrightarrow> (\<forall>i<512. a \<noteq> slot s i) \<longrightarrow> m2 a = m1 a)"
proof -
  have b: "d < 0xFFFF0000" using im by (simp add: image_at_def)
  have p: "page_ok s" using startup_pos(1) [OF b] s by simp
  have ap: "d + 16 \<noteq> slot s i" if "i < 512" for i using apart_below [OF b _ that, of 16] s by simp
  obtain tbl where tbl: "find_pgtbl_loop m1 (l_entry_pgtbl_end (entry_labels d)) (snd (sbi 4)) (snd (sbi 5)) (snd (sbi 6))
      (l_default_pgtbl (entry_labels d)) (l_entry_pgtbl_start (entry_labels d)) = Some tbl"
    "tbl = d + 24 \<or> tbl = l_entry_pgtbl_start (entry_labels d) + 32"
    unfolding label_simps(4,5) find_pgtbl by (auto split: if_splits)
  let ?m2 = "load_pgtbl (entry_labels d) tbl m1"
  note t = setup_table [OF im s m1 tbl(2)]
  obtain v where v: "set_mmu warl (entry_labels d) (l_startup_pgtbl (entry_labels d) + 1024) (satp, ?m2) = Some (start_satp s, ?m2(d + 16 := v))"
    using set_mmu_ok [OF p t(1) w, of "s + 1024" "entry_labels d" satp] start_page_drop [OF p] mmutest_ok [OF b] ap
    by (auto simp: label_simps(3) s [symmetric])
  have "start_table s (?m2(d + 16 := v))" using t(1) ap [symmetric] by (simp add: start_table_def)
  moreover have "setup_pgtbl sbi warl (entry_labels d) (satp, m1) = Some (start_satp s, ?m2(d + 16 := v))"
    using f tbl(1) v by (simp add: setup_pgtbl_def)
  ultimately show ?thesis using t(2) by auto
qed

lemma entry_hart_ok:
  assumes b: "d < 0xFFFF0000" and s: "s = l_startup_pgtbl (entry_labels d)" and t: "start_table s m" and w: "keeps_sv39 n warl"
    and k: "stk - 8 - K_VADDR_BASE < 0x100000000" "stk - 8 - K_VADDR_BASE \<noteq> d + 16"
  shows "\<exists>v. entry_hart warl (entry_labels d) stk (satp, m) = Some (start_satp s, m(d + 16 := v), m (stk - 8 - K_VADDR_BASE))"
proof -
  have p: "page_ok s" using startup_pos(1) [OF b] s by simp
  have ap: "d + 16 \<noteq> slot s i" if "i < 512" for i using apart_below [OF b _ that, of 16] s by simp
  have t': "start_table s (m(d + 16 := v))" for v using t ap [symmetric] by (simp add: start_table_def)
  obtain v where v: "set_mmu warl (entry_labels d) (l_startup_pgtbl (entry_labels d)) (satp, m) = Some (start_satp s, m(d + 16 := v))"
    using set_mmu_ok [OF p t w, of s "entry_labels d" satp] mmutest_ok [OF b] ap by (auto simp: label_simps(3) s [symmetric])
  have "\<not> stk - 8 < 0x100000000"
  proof
    assume l: "stk - 8 < 0x100000000"
    then have "\<not> K_VADDR_BASE \<le> stk - 8" by (simp add: K_VADDR_BASE_def word_less_nat_alt word_le_nat_alt)
    from below_window [OF this] k(1) show False by (simp add: word_less_nat_alt)
  qed
  then have "data_addr NEED_LOAD (start_satp s) (m(d + 16 := v)) (stk - 8) = Some (stk - 8 - K_VADDR_BASE)"
    using start_data [OF p t', of "stk - 8" NEED_LOAD] k(1) by simp
  then show ?thesis using v k(2) by (auto simp: entry_hart_def)
qed

lemma pre_entry_ok:
  assumes im: "image_at d pc m" and w: "keeps_sv39 n warl" and f: "fst (sbi 4) = 0" "fst (sbi 5) = 0" "fst (sbi 6) = 0"
    and s: "s = l_startup_pgtbl (entry_labels d)"
  obtains m' where "pre_entry sbi warl (entry_labels d) (satp, m) = Some (start_satp s, m', pc)" "start_table s m'" "m' d = 1"
    "\<forall>a. a \<noteq> d \<longrightarrow> a \<noteq> d + 16 \<longrightarrow> (\<forall>i<512. a \<noteq> slot s i) \<longrightarrow> m' a = m a"
proof -
  have b: "d < 0xFFFF0000" "m d = 0" "m (d + 8) = pc" using im by (simp_all add: image_at_def)
  have p: "page_ok s" using startup_pos(1) [OF b(1)] s by simp
  have nd: "d \<noteq> slot s i" "d + 8 \<noteq> slot s i" if "i < 512" for i using apart_below [OF b(1) _ that, of 0] apart_below [OF b(1) _ that, of 8] s by simp_all
  have lot: "amoadd_w d 1 m = (0, m(d := 1))" using b(2) by (simp add: amoadd_w_def)
  obtain m2 where m2: "setup_pgtbl sbi warl (entry_labels d) (satp, m(d := 1)) = Some (start_satp s, m2)" "start_table s m2"
    "\<forall>a. a \<noteq> d + 16 \<longrightarrow> (\<forall>i<512. a \<noteq> slot s i) \<longrightarrow> m2 a = (m(d := 1)) a"
    using setup_ok [OF im w f s refl] by blast
  have v: "m2 d = 1" "m2 (d + 8) = pc" using m2(3) nd mmutest_ok [OF b(1)] b(3) by auto
  have "data_addr NEED_LOAD (start_satp s) m2 (d + 8) = Some (d + 8)"
    using start_data [OF p m2(2), of "d + 8" NEED_LOAD] mmutest_ok [OF b(1)] by simp
  then have e: "pre_entry sbi warl (entry_labels d) (satp, m) = Some (start_satp s, m2, pc)"
    using lot m2(1) v(2) by (simp add: pre_entry_def label_simps(1,2))
  have "\<forall>a. a \<noteq> d \<longrightarrow> a \<noteq> d + 16 \<longrightarrow> (\<forall>i<512. a \<noteq> slot s i) \<longrightarrow> m2 a = m a" using m2(3) by auto
  then show ?thesis using that [OF e m2(2) v(1)] by blast
qed

section \<open>Reaching memory through \<open>satp\<close>\<close>

text \<open>The address a hart reaches for a right it needs, under any root whose walk gives the kernel's flags.\<close>

lemma data_addr_sv39:
  assumes "drop_bit 60 v = 8" "push_bit 12 (take_bit 44 v) = b" "need AND 0xEF = need"
  shows "sv_translate 39 b m va = Some (pa, 0xEF) \<Longrightarrow> data_addr need v m va = Some pa"
    "sv_translate 39 b m va = None \<Longrightarrow> data_addr need v m va = None"
proof -
  have "0xEF AND (need OR 0x10) = (need AND 0xEF) OR (0x10 AND 0xEF)" by (simp only: and.commute [of "0xEF"] bit.conj_disj_distrib2)
  then have "0xEF AND (need OR 0x10) = need" using assms(3) by simp
  then show "sv_translate 39 b m va = Some (pa, 0xEF) \<Longrightarrow> data_addr need v m va = Some pa"
    "sv_translate 39 b m va = None \<Longrightarrow> data_addr need v m va = None"
    by (simp_all add: data_addr_def assms(1,2))
qed

lemma window_high:
  assumes "va - K_VADDR_BASE < (0x100000000 :: u64)"
  shows "sv_canonical 39 va" "\<not> va < 0x100000000"
proof -
  have "K_VADDR_BASE \<le> va" using below_window [of va] assms by (rule_tac ccontr) (simp add: word_less_nat_alt)
  then show "sv_canonical 39 va" "\<not> va < 0x100000000"
    using high_canonical by (auto simp: K_VADDR_BASE_def word_less_nat_alt word_le_nat_alt)
qed

lemma window_low:
  assumes "va < (0x100000000 :: u64)"
  shows "sv_canonical 39 va" "\<not> va - K_VADDR_BASE < 0x100000000"
  using low_canonical [of va] assms window_high(2) [of va] by (auto simp: word_less_nat_alt)

section \<open>Properties\<close>

text \<open>C3: The first hart through \<open>_entry\<close>, on hardware with Sv39 (and any number of bits of address-space identifier) and
  firmware that answers, reaches \<open>_start\<close>,
  whatever the identity of the processor, under a page table that maps the low 4 GiB to themselves and at
  \<open>0xFFFFFFC000000000\<close>, all of it for the supervisor with read, write and execute access, and nothing else;
  memory apart from the table and two words is unchanged. A second hart that comes through \<open>_entry\<close> hangs, and
  one started at \<open>_entry_hart\<close> with a stack in the kernel's window gets the same page table and jumps to the
  address in the double word below its stack.\<close>

theorem preload_enters:
  assumes im: "image_at d pc m" and w: "keeps_sv39 n warl" and f: "fst (sbi 4) = 0" "fst (sbi 5) = 0" "fst (sbi 6) = 0"
    and s: "s = l_startup_pgtbl (entry_labels d)"
  shows "\<exists>m'. pre_entry sbi warl (entry_labels d) (satp, m) = Some (start_satp s, m', pc) \<and>
    (\<forall>va. sv_translate 39 s m' va = (if va < 0x100000000 then Some (va, 0xEF)
       else if va - K_VADDR_BASE < 0x100000000 then Some (va - K_VADDR_BASE, 0xEF) else None)) \<and>
    (\<forall>a. a \<noteq> d \<longrightarrow> a \<noteq> d + 16 \<longrightarrow> (\<forall>i<512. a \<noteq> slot s i) \<longrightarrow> m' a = m a) \<and>
    (\<forall>satp'. pre_entry sbi warl (entry_labels d) (satp', m') = None) \<and>
    (\<forall>satp' m'' stk. (\<forall>i<512. m'' (slot s i) = m' (slot s i)) \<longrightarrow> stk - 8 - K_VADDR_BASE < 0x100000000 \<longrightarrow>
       stk - 8 - K_VADDR_BASE \<noteq> d + 16 \<longrightarrow>
       (\<exists>v. entry_hart warl (entry_labels d) stk (satp', m'') = Some (start_satp s, m''(d + 16 := v), m'' (stk - 8 - K_VADDR_BASE))))"
proof -
  have b: "d < 0xFFFF0000" using im by (simp add: image_at_def)
  obtain m2 where m2: "pre_entry sbi warl (entry_labels d) (satp, m) = Some (start_satp s, m2, pc)" "start_table s m2" "m2 d = 1"
    "\<forall>a. a \<noteq> d \<longrightarrow> a \<noteq> d + 16 \<longrightarrow> (\<forall>i<512. a \<noteq> slot s i) \<longrightarrow> m2 a = m a"
    by (rule pre_entry_ok [OF im w f s])
  have again: "pre_entry sbi warl (entry_labels d) (satp', m2) = None" for satp'
    using m2(3) by (simp add: pre_entry_def label_simps(1) amoadd_w_def)
  have "start_table s m''" if "\<forall>i<512. m'' (slot s i) = m2 (slot s i)" for m'' using m2(2) that by (simp add: start_table_def)
  then have h: "\<forall>satp' m'' stk. (\<forall>i<512. m'' (slot s i) = m2 (slot s i)) \<longrightarrow> stk - 8 - K_VADDR_BASE < 0x100000000 \<longrightarrow>
       stk - 8 - K_VADDR_BASE \<noteq> d + 16 \<longrightarrow>
       (\<exists>v. entry_hart warl (entry_labels d) stk (satp', m'') = Some (start_satp s, m''(d + 16 := v), m'' (stk - 8 - K_VADDR_BASE)))"
    using entry_hart_ok [OF b s _ w] by blast
  show ?thesis using m2 again h start_translate [OF m2(2)] by (intro exI [of _ m2] conjI) auto
qed

text \<open>A kernel loaded at \<open>0x80200000\<close> on a C906.\<close>

definition demo_image :: "u64 \<Rightarrow> u64" where
  "demo_image a = (if a - 0x80201000 < 4096 then 0
     else if a = 0x80200108 then 0xFFFFFFC080202040
     else if a - 0x80200118 < 32 then default_pgtbl ! unat (drop_bit 3 (a - 0x80200118))
     else if a - 0x80202000 < 64 then pgtbl_c906 ! unat (drop_bit 3 (a - 0x80202000)) else 0)"

lemma demo_startup: "l_startup_pgtbl (entry_labels 0x80200100) = 0x80201000" "l_entry_pgtbl_start (entry_labels 0x80200100) = 0x80202000"
  by code_simp+

lemma demo_image_at: "image_at 0x80200100 0xFFFFFFC080202040 demo_image"
proof -
  have "demo_image (slot 0x80201000 i) = 0" if "i < 512" for i
  proof -
    have "unat (8 * i) < 4096" using that by (simp add: word_less_nat_alt unat_word_ariths)
    then show ?thesis by (simp add: demo_image_def slot_def word_less_nat_alt)
  qed
  moreover have "quads_at demo_image 0x80202000 pgtbl_c906" "quads_at demo_image (0x80200100 + 24) default_pgtbl" unfolding quads_at_def by code_simp+
  moreover have "demo_image 0x80200100 = 0" "demo_image (0x80200100 + 8) = 0xFFFFFFC080202040" by code_simp+
  ultimately show ?thesis by (simp add: image_at_def demo_startup)
qed

theorem preload_enters_witness:
  "image_at 0x80200100 0xFFFFFFC080202040 demo_image \<and>
   (\<exists>m'. pre_entry (\<lambda>f. (0, if f = 4 then 0x5B7 else 0)) (warl39 0) (entry_labels 0x80200100) (0, demo_image) =
      Some (0x8000000000080201, m', 0xFFFFFFC080202040) \<and> sv_translate 39 0x80201000 m' 0xFFFFFFC080202040 = Some (0x80202040, 0xEF))"
proof -
  have s: "start_satp 0x80201000 = 0x8000000000080201" by code_simp
  have w: "keeps_sv39 0 (warl39 0)" by (rule warl39_keeps) simp
  show ?thesis using preload_enters [OF demo_image_at w, of "\<lambda>f. (0, if f = 4 then 0x5B7 else 0)" _ 0]
      demo_image_at by (auto simp: demo_startup s K_VADDR_BASE_def)
qed

end
