(* ===== verification/Prep.thy ===== *)
theory Prep
  imports Cxxabi
begin

text \<open>Model of the parts of \<^verbatim>\<open>kernel/main/prepC.S\<close> that prepare memory for C code - clearing \<open>.bss\<close> and
  setting up the stack and the thread-local storage of a hart - and of \<open>k_cleanup\<close> of
  \<^verbatim>\<open>kernel/main/lowerenv.c\<close>. Memory is read and written in double words; the loops compare addresses as
  signed numbers, as \<open>blt\<close> does.\<close>

record kernel_labels =
  l_bss_start :: u64
  l_bss_end :: u64
  l_tbss_start :: u64
  l_tbss_end :: u64
  l_tdata_start :: u64
  l_tdata_end :: u64

record hart_regs =
  r_sp :: u64
  r_tp :: u64
  r_sie :: u64
  r_sip :: u64
  r_sscratch :: u64

partial_function (option) bss_zero :: "u64 \<Rightarrow> u64 \<Rightarrow> (u64 \<Rightarrow> u64) \<Rightarrow> (u64 \<Rightarrow> u64) option" where
  "bss_zero a4 a5 m =
     (let m = m(a4 := 0); a4 = a4 + 8
      in if sint a4 < sint a5 then bss_zero a4 a5 m else Some m)"

partial_function (option) tbss_zero :: "u64 \<Rightarrow> u64 \<Rightarrow> u64 \<Rightarrow> (u64 \<Rightarrow> u64) \<Rightarrow> (u64 \<Rightarrow> u64) option" where
  "tbss_zero a3 a4 a5 m =
     (let m = m(a3 := 0); a3 = a3 + 8; a4 = a4 + 8
      in if sint a4 < sint a5 then tbss_zero a3 a4 a5 m else Some m)"

partial_function (option) tdata_copy :: "u64 \<Rightarrow> u64 \<Rightarrow> u64 \<Rightarrow> (u64 \<Rightarrow> u64) \<Rightarrow> (u64 \<Rightarrow> u64) option" where
  "tdata_copy a3 a4 a5 m =
     (let m = m(a5 := m a3); a3 = a3 + 8; a5 = a5 + 8
      in if sint a3 < sint a4 then tdata_copy a3 a4 a5 m else Some m)"

definition process_tbss :: "kernel_labels \<Rightarrow> hart_regs \<times> (u64 \<Rightarrow> u64) \<Rightarrow> (hart_regs \<times> (u64 \<Rightarrow> u64)) option" where
  "process_tbss sy = (\<lambda>(r, m).
     let a4 = l_tbss_start sy; a5 = l_tbss_end sy in
     if a4 = a5 then Some (r, m)
     else let sp = r_sp r - (a5 - a4) in do {
       m \<leftarrow> tbss_zero sp a4 a5 m;
       Some (r\<lparr>r_sp := sp, r_tp := sp\<rparr>, m)
     })"

definition process_tdata :: "kernel_labels \<Rightarrow> hart_regs \<times> (u64 \<Rightarrow> u64) \<Rightarrow> (hart_regs \<times> (u64 \<Rightarrow> u64)) option" where
  "process_tdata sy = (\<lambda>(r, m).
     let a3 = l_tdata_start sy; a2 = l_tdata_end sy in
     if a3 = a2 then Some (r, m)
     else let sp = r_sp r - (a2 - a3) in do {
       m \<leftarrow> tdata_copy a3 a2 sp m;
       Some (r\<lparr>r_sp := sp, r_tp := sp\<rparr>, m)
     })"

definition setup_hart :: "kernel_labels \<Rightarrow> u64 \<Rightarrow> hart_regs \<times> (u64 \<Rightarrow> u64) \<Rightarrow> (hart_regs \<times> (u64 \<Rightarrow> u64)) option" where
  "setup_hart sy a1 = (\<lambda>(r, m). do {
     s \<leftarrow> process_tbss sy (r\<lparr>r_sie := 0, r_sip := 0, r_sp := a1\<rparr>, m);
     (r, m) \<leftarrow> process_tdata sy s;
     Some (r\<lparr>r_sscratch := 0\<rparr>, m)
   })"

text \<open>The calls \<open>k_cleanup\<close> makes: the destructors, then the functions of \<open>.fini_array\<close>.\<close>

definition k_cleanup :: "u64 list \<Rightarrow> atexit_state \<Rightarrow> (u64 \<times> u64) list \<times> u64 list \<times> atexit_state" where
  "k_cleanup fini s = (let (calls, s) = cxa_finalize 0 s in (calls, fini, s))"

section \<open>The loops\<close>

text \<open>The block of \<open>n\<close> double words at \<open>a\<close>.\<close>

definition blk :: "u64 \<Rightarrow> nat \<Rightarrow> u64 set" where
  "blk a n = (\<lambda>k. a + 8 * of_nat k) ` {..<n}"

lemma blk_Suc: "blk a (Suc n) = insert a (blk (a + 8) n)"
proof -
  have "{..<Suc n} = insert 0 (Suc ` {..<n})" by (rule lessThan_Suc_eq_insert_0)
  then show ?thesis by (simp add: blk_def image_image algebra_simps)
qed

lemma blk_0: "blk a 0 = {}"
  by (simp add: blk_def)

text \<open>The signed order of the addresses of a block that does not cross the middle of the address space.\<close>

lemma sint_step: "sint (a :: u64) + 8 < 2 ^ 63 \<Longrightarrow> sint (a + 8) = sint a + 8"
  using sint_ge [of a] by (simp add: sint_word_ariths signed_take_bit_int_eq_self)

lemma sint_below: "sint (a :: u64) < 2 ^ 63"
  using sint_lt [of a] by simp

lemma tbss_zero_clears:
  "sint a5 = sint a4 + 8 * (int n + 1) \<Longrightarrow> tbss_zero a3 a4 a5 m = Some (\<lambda>x. if x \<in> blk a3 (Suc n) then 0 else m x)"
proof (induction n arbitrary: a3 a4 m)
  case 0
  then have "sint (a4 + 8) = sint a5" using sint_below [of a5] by (subst sint_step) simp_all
  then show ?case by (subst tbss_zero.simps) (auto simp: blk_Suc blk_0 Let_def)
next
  case (Suc n)
  then have s: "sint (a4 + 8) = sint a4 + 8" using sint_below [of a5] by (intro sint_step) simp
  then have "tbss_zero (a3 + 8) (a4 + 8) a5 (m(a3 := 0)) = Some (\<lambda>x. if x \<in> blk (a3 + 8) (Suc n) then 0 else (m(a3 := 0)) x)"
    using Suc.prems by (intro Suc.IH) simp
  then show ?case using s Suc.prems by (subst tbss_zero.simps) (auto simp: blk_Suc [of a3] Let_def)
qed

lemma bss_zero_tbss: "bss_zero a4 a5 m = tbss_zero a4 a4 a5 m" if "sint a5 = sint a4 + 8 * (int n + 1)" for n
  using that
proof (induction n arbitrary: a4 m)
  case 0
  then have "sint (a4 + 8) = sint a5" using sint_below [of a5] by (subst sint_step) simp_all
  then show ?case by (subst bss_zero.simps, subst tbss_zero.simps) (simp add: Let_def)
next
  case (Suc n)
  then have s: "sint (a4 + 8) = sint a4 + 8" using sint_below [of a5] by (intro sint_step) simp
  then show ?case using Suc.IH [of "a4 + 8"] Suc.prems by (subst bss_zero.simps, subst tbss_zero.simps) (simp add: Let_def)
qed

lemma not_in_rest: "8 * (n + 1) < 2 ^ 64 \<Longrightarrow> a \<notin> blk (a + 8) n"
proof
  assume n: "8 * (n + 1) < 2 ^ 64" and "a \<in> blk (a + 8) n"
  then obtain k where k: "k < n" "a = a + 8 + 8 * of_nat k" by (auto simp: blk_def)
  then have "8 + 8 * of_nat k = (0 :: u64)" by (simp add: algebra_simps)
  then have "unat (8 + 8 * of_nat k :: u64) = 0" by simp
  moreover have "unat (8 + 8 * of_nat k :: u64) = 8 + 8 * k" using k(1) n by (simp add: unat_word_ariths unsigned_of_nat take_bit_eq_mod)
  ultimately show False by simp
qed

lemma tdata_copy_copies:
  assumes "sint a4 = sint a3 + 8 * (int n + 1)" "8 * (n + 1) < 2 ^ 64" "blk a3 (Suc n) \<inter> blk a5 (Suc n) = {}"
  shows "\<exists>m'. tdata_copy a3 a4 a5 m = Some m' \<and> (\<forall>k<Suc n. m' (a5 + 8 * of_nat k) = m (a3 + 8 * of_nat k)) \<and>
    (\<forall>x. x \<notin> blk a5 (Suc n) \<longrightarrow> m' x = m x)"
  using assms
proof (induction n arbitrary: a3 a5 m)
  case 0
  then have "sint (a3 + 8) = sint a4" using sint_below [of a4] by (subst sint_step) simp_all
  then show ?case by (subst tdata_copy.simps) (auto simp: blk_Suc blk_0 Let_def)
next
  case (Suc n)
  let ?m = "m(a5 := m a3)"
  have s: "sint (a3 + 8) = sint a3 + 8" using Suc.prems(1) sint_below [of a4] by (intro sint_step) simp
  have d: "blk (a3 + 8) (Suc n) \<inter> blk (a5 + 8) (Suc n) = {}" "a5 \<notin> blk (a3 + 8) (Suc n)" using Suc.prems(3) by (auto simp: blk_Suc [of a3] blk_Suc [of a5])
  have "\<exists>m'. tdata_copy (a3 + 8) a4 (a5 + 8) ?m = Some m' \<and> (\<forall>k<Suc n. m' (a5 + 8 + 8 * of_nat k) = ?m (a3 + 8 + 8 * of_nat k)) \<and>
    (\<forall>x. x \<notin> blk (a5 + 8) (Suc n) \<longrightarrow> m' x = ?m x)"
    using s Suc.prems(1,2) d(1) by (intro Suc.IH) simp_all
  then obtain m' where m': "tdata_copy (a3 + 8) a4 (a5 + 8) ?m = Some m'" "\<And>k. k < Suc n \<Longrightarrow> m' (a5 + 8 + 8 * of_nat k) = ?m (a3 + 8 + 8 * of_nat k)"
    "\<And>x. x \<notin> blk (a5 + 8) (Suc n) \<Longrightarrow> m' x = ?m x"
    by blast
  have "m' (a5 + 8 * of_nat k) = m (a3 + 8 * of_nat k)" if "k < Suc (Suc n)" for k
  proof (cases k)
    case 0
    then show ?thesis using m'(3) [of a5] not_in_rest [of "Suc n" a5] Suc.prems(2) by simp
  next
    case (Suc j)
    then have "a3 + 8 + 8 * of_nat j \<noteq> a5" using d(2) that by (auto simp: blk_def)
    then show ?thesis using m'(2) [of j] that Suc by (simp add: algebra_simps)
  qed
  moreover have "tdata_copy a3 a4 a5 m = Some m'" using s Suc.prems(1) m'(1) by (subst tdata_copy.simps) (simp add: Let_def)
  moreover have "m' x = m x" if "x \<notin> blk a5 (Suc (Suc n))" for x using m'(3) [of x] that by (auto simp: blk_Suc [of a5])
  ultimately show ?case by blast
qed

section \<open>Sections\<close>

text \<open>A section of \<open>n\<close> double words that does not cross the middle of the address space, as those of a kernel in
  the upper half do not.\<close>

definition section_words :: "u64 \<Rightarrow> u64 \<Rightarrow> nat \<Rightarrow> bool" where
  "section_words a e n \<longleftrightarrow> sint e = sint a + 8 * int n"

lemma section_len: "section_words a e n \<Longrightarrow> e - a = 8 * of_nat n" "section_words a e n \<Longrightarrow> 8 * n < 2 ^ 64"
proof -
  assume s: "section_words a e n"
  have "word_of_int (sint e) = (word_of_int (sint a + 8 * int n) :: u64)" using s by (simp add: section_words_def)
  then show "e - a = 8 * of_nat n" by simp
  show "8 * n < 2 ^ 64" using s sint_below [of e] sint_ge [of a] by (simp add: section_words_def)
qed

lemma section_empty: "section_words a e n \<Longrightarrow> a = e \<longleftrightarrow> n = 0"
  using section_len(1) [of a e n] by (auto simp: section_words_def)

lemma process_tbss_ok:
  assumes "section_words (l_tbss_start sy) (l_tbss_end sy) n"
  shows "process_tbss sy (r, m) = Some (if n = 0 then r else r\<lparr>r_sp := r_sp r - 8 * of_nat n, r_tp := r_sp r - 8 * of_nat n\<rparr>,
    \<lambda>x. if x \<in> blk (r_sp r - 8 * of_nat n) n then 0 else m x)"
proof (cases n)
  case 0
  then show ?thesis using section_empty [OF assms] by (simp add: process_tbss_def blk_0)
next
  case (Suc k)
  then have "sint (l_tbss_end sy) = sint (l_tbss_start sy) + 8 * (int k + 1)" using assms by (simp add: section_words_def)
  from tbss_zero_clears [OF this] show ?thesis
    using section_empty [OF assms] section_len(1) [OF assms] Suc by (simp add: process_tbss_def Let_def)
qed

lemma process_tdata_ok:
  assumes "section_words (l_tdata_start sy) (l_tdata_end sy) n" "blk (l_tdata_start sy) n \<inter> blk (r_sp r - 8 * of_nat n) n = {}"
  shows "\<exists>m'. process_tdata sy (r, m) = Some (if n = 0 then r else r\<lparr>r_sp := r_sp r - 8 * of_nat n, r_tp := r_sp r - 8 * of_nat n\<rparr>, m') \<and>
    (\<forall>k<n. m' (r_sp r - 8 * of_nat n + 8 * of_nat k) = m (l_tdata_start sy + 8 * of_nat k)) \<and>
    (\<forall>x. x \<notin> blk (r_sp r - 8 * of_nat n) n \<longrightarrow> m' x = m x)"
proof (cases n)
  case 0
  then show ?thesis using section_empty [OF assms(1)] by (simp add: process_tdata_def blk_0)
next
  case (Suc k)
  then have s: "sint (l_tdata_end sy) = sint (l_tdata_start sy) + 8 * (int k + 1)" using assms(1) by (simp add: section_words_def)
  have "8 * (k + 1) < 2 ^ 64" using section_len(2) [OF assms(1)] Suc by simp
  from tdata_copy_copies [OF s this, of "r_sp r - 8 * of_nat n" m] show ?thesis
    using section_empty [OF assms(1)] section_len(1) [OF assms(1)] assms(2) Suc by (auto simp: process_tdata_def Let_def)
qed

lemma blk_add: "blk a (n + k) = blk a n \<union> blk (a + 8 * of_nat n) k"
proof -
  have "{..<n + k} = {..<n} \<union> (+) n ` {..<k}"
  proof (rule set_eqI)
    fix x show "x \<in> {..<n + k} \<longleftrightarrow> x \<in> {..<n} \<union> (+) n ` {..<k}"
      by (cases "x < n") (auto simp: image_iff intro!: bexI [of _ "x - n"])
  qed
  then show ?thesis by (simp add: blk_def image_Un image_image algebra_simps)
qed

lemma blk_disj: "8 * (n + k) < 2 ^ 64 \<Longrightarrow> blk a n \<inter> blk (a + 8 * of_nat n) k = {}"
proof -
  assume l: "8 * (n + k) < 2 ^ 64"
  have "8 * of_nat i \<noteq> (8 * of_nat (n + j) :: u64)" if "i < n" "j < k" for i j
  proof
    assume "8 * of_nat i = (8 * of_nat (n + j) :: u64)"
    then have "unat (8 * of_nat i :: u64) = unat (8 * of_nat (n + j) :: u64)" by simp
    moreover have "unat (8 * of_nat i' :: u64) = 8 * i'" if "i' < n + k" for i'
      using that l by (simp add: unat_word_ariths unsigned_of_nat take_bit_eq_mod)
    ultimately show False using that by (simp del: of_nat_add)
  qed
  then show ?thesis by (auto simp: blk_def algebra_simps)
qed

section \<open>Properties\<close>

text \<open>C22: \<open>_setup_hart\<close> puts a copy of the thread-local data below the stack it is given: the words of \<open>.tdata\<close>,
  then a zero for every word of \<open>.tbss\<close>, with \<open>tp\<close> and \<open>sp\<close> at the start of the copy. Memory outside the copy is
  unchanged, interrupts are off and \<open>sscratch\<close> is zero.\<close>

theorem setup_hart_tls:
  assumes d: "section_words (l_tdata_start sy) (l_tdata_end sy) nd" and b: "section_words (l_tbss_start sy) (l_tbss_end sy) nb"
    and n: "0 < nd + nb" "8 * (nd + nb) < 2 ^ 64" and tp: "tp = a1 - 8 * of_nat (nd + nb)"
    and ap: "blk (l_tdata_start sy) nd \<inter> blk tp (nd + nb) = {}"
  shows "\<exists>m'. setup_hart sy a1 (r, m) = Some (\<lparr>r_sp = tp, r_tp = tp, r_sie = 0, r_sip = 0, r_sscratch = 0\<rparr>, m') \<and>
    (\<forall>k<nd. m' (tp + 8 * of_nat k) = m (l_tdata_start sy + 8 * of_nat k)) \<and>
    (\<forall>k<nb. m' (tp + 8 * of_nat (nd + k)) = 0) \<and> (\<forall>x. x \<notin> blk tp (nd + nb) \<longrightarrow> m' x = m x)"
proof -
  let ?sp = "a1 - 8 * of_nat nb" and ?r0 = "r\<lparr>r_sie := 0, r_sip := 0, r_sp := a1\<rparr>"
  let ?m1 = "\<lambda>x. if x \<in> blk ?sp nb then 0 else m x"
  let ?r1 = "if nb = 0 then ?r0 else ?r0\<lparr>r_sp := ?sp, r_tp := ?sp\<rparr>"
  have e: "?sp = tp + 8 * of_nat nd" "?sp - 8 * of_nat nd = tp" "r_sp ?r1 = ?sp" by (simp_all add: tp algebra_simps)
  have ap': "blk (l_tdata_start sy) nd \<inter> blk tp nd = {}" "blk (l_tdata_start sy) nd \<inter> blk ?sp nb = {}"
    using ap unfolding blk_add [of tp nd nb] e(1) by auto
  have dj: "blk tp nd \<inter> blk ?sp nb = {}" unfolding e(1) by (rule blk_disj [OF n(2)])
  have p1: "process_tbss sy (?r0, m) = Some (?r1, ?m1)" using process_tbss_ok [OF b, of ?r0 m] by simp
  obtain m' where m': "process_tdata sy (?r1, ?m1) = Some (if nd = 0 then ?r1 else ?r1\<lparr>r_sp := tp, r_tp := tp\<rparr>, m')"
    "\<forall>k<nd. m' (tp + 8 * of_nat k) = ?m1 (l_tdata_start sy + 8 * of_nat k)" "\<forall>x. x \<notin> blk tp nd \<longrightarrow> m' x = ?m1 x"
    using process_tdata_ok [OF d, of ?r1 ?m1] ap'(1) unfolding e(2,3) by blast
  have "setup_hart sy a1 (r, m) = Some (\<lparr>r_sp = tp, r_tp = tp, r_sie = 0, r_sip = 0, r_sscratch = 0\<rparr>, m')"
    unfolding setup_hart_def prod.case p1 bind.bind_lunit m'(1) using n(1) e(2) by (cases r) (auto simp: tp)
  moreover have "m' (tp + 8 * of_nat k) = m (l_tdata_start sy + 8 * of_nat k)" if "k < nd" for k
    using m'(2) that ap'(2) by (auto simp: blk_def)
  moreover have "m' (tp + 8 * of_nat (nd + k)) = 0" if "k < nb" for k
  proof -
    have "tp + 8 * of_nat (nd + k) \<in> blk ?sp nb" using that unfolding e(1) by (simp add: blk_def algebra_simps)
    then show ?thesis using m'(3) dj by auto
  qed
  moreover have "m' x = m x" if "x \<notin> blk tp (nd + nb)" for x using that m'(3) unfolding blk_add [of tp nd nb] e(1) by auto
  ultimately show ?thesis by blast
qed

definition demo_labels :: kernel_labels where
  "demo_labels = \<lparr>l_bss_start = 0xFFFFFFC080210000, l_bss_end = 0xFFFFFFC080211000, l_tbss_start = 0xFFFFFFC080211010,
     l_tbss_end = 0xFFFFFFC080211018, l_tdata_start = 0xFFFFFFC080211000, l_tdata_end = 0xFFFFFFC080211010\<rparr>"

theorem setup_hart_tls_witness:
  "\<exists>m'. setup_hart demo_labels 0xFFFFFFC080200000 (\<lparr>r_sp = 1, r_tp = 2, r_sie = 3, r_sip = 4, r_sscratch = 5\<rparr>, \<lambda>a. drop_bit 3 a) =
     Some (\<lparr>r_sp = 0xFFFFFFC0801FFFE8, r_tp = 0xFFFFFFC0801FFFE8, r_sie = 0, r_sip = 0, r_sscratch = 0\<rparr>, m') \<and>
     map m' [0xFFFFFFC0801FFFE8, 0xFFFFFFC0801FFFF0, 0xFFFFFFC0801FFFF8] = [drop_bit 3 0xFFFFFFC080211000, drop_bit 3 0xFFFFFFC080211008, 0]"
proof -
  have s: "section_words (l_tdata_start demo_labels) (l_tdata_end demo_labels) 2" "section_words (l_tbss_start demo_labels) (l_tbss_end demo_labels) 1"
    unfolding section_words_def by code_simp+
  have "blk a 2 = {a, a + 8}" "blk a (2 + 1) = {a, a + 8, a + 16}" for a by (simp_all add: numeral_2_eq_2 blk_Suc blk_0 add.assoc)
  then have "blk (l_tdata_start demo_labels) 2 \<inter> blk 0xFFFFFFC0801FFFE8 (2 + 1) = {}" by (simp add: demo_labels_def)
  from setup_hart_tls [OF s _ _ _ this, of "0xFFFFFFC080200000" "\<lparr>r_sp = 1, r_tp = 2, r_sie = 3, r_sip = 4, r_sscratch = 5\<rparr>" "\<lambda>a. drop_bit 3 a"]
  obtain m' where m': "setup_hart demo_labels 0xFFFFFFC080200000 (\<lparr>r_sp = 1, r_tp = 2, r_sie = 3, r_sip = 4, r_sscratch = 5\<rparr>, \<lambda>a. drop_bit 3 a) =
     Some (\<lparr>r_sp = 0xFFFFFFC0801FFFE8, r_tp = 0xFFFFFFC0801FFFE8, r_sie = 0, r_sip = 0, r_sscratch = 0\<rparr>, m')"
    "\<forall>k<2. m' (0xFFFFFFC0801FFFE8 + 8 * of_nat k) = drop_bit 3 (l_tdata_start demo_labels + 8 * of_nat k)"
    "\<forall>k<1. m' (0xFFFFFFC0801FFFE8 + 8 * of_nat (2 + k)) = 0" by auto
  have "m' 0xFFFFFFC0801FFFE8 = drop_bit 3 0xFFFFFFC080211000" "m' 0xFFFFFFC0801FFFF0 = drop_bit 3 0xFFFFFFC080211008" "m' 0xFFFFFFC0801FFFF8 = 0"
    using m'(2) [THEN spec, of 0] m'(2) [THEN spec, of 1] m'(3) [THEN spec, of 0] by (simp_all add: demo_labels_def)
  then show ?thesis using m'(1) by (intro exI [of _ m']) simp
qed

text \<open>An empty \<open>.bss\<close> is cleared as well: the loop stores before it tests, so the word behind it is lost.\<close>

lemma bss_zero_empty: "sint a + 8 < 2 ^ 63 \<Longrightarrow> bss_zero a a m = Some (m(a := 0))"
  using sint_step [of a] by (subst bss_zero.simps) (simp add: Let_def)

lemma bss_zero_clears:
  assumes "section_words (l_bss_start sy) (l_bss_end sy) (Suc n)"
  shows "bss_zero (l_bss_start sy) (l_bss_end sy) m = Some (\<lambda>x. if x \<in> blk (l_bss_start sy) (Suc n) then 0 else m x)"
proof -
  have s: "sint (l_bss_end sy) = sint (l_bss_start sy) + 8 * (int n + 1)" using assms by (simp add: section_words_def)
  show ?thesis using tbss_zero_clears [OF s] bss_zero_tbss [OF s] by simp
qed

text \<open>Cleaning up destroys the registered objects in the opposite order, and then runs \<open>.fini_array\<close> from its start.\<close>

lemma k_cleanup_calls:
  assumes "length rs \<le> ATEXIT_MAX_FUNCS" "\<forall>r\<in>set rs. fst r \<noteq> 0"
  shows "k_cleanup fini (register rs atexit_init) = (rev rs, fini, register rs atexit_init)"
proof -
  have r: "atexit_inv (register rs atexit_init)" "registered (register rs atexit_init) = rs"
    using register_facts [OF atexit_inv_init(1), of rs] assms(1) by (simp_all add: atexit_inv_init)
  have "fst (cxa_finalize 0 (register rs atexit_init)) = rev rs"
    using finalize_registered [OF r(1)] assms(2) by (simp add: r(2) filter_id_conv)
  then show ?thesis by (simp add: k_cleanup_def cxa_finalize_def Let_def)
qed

end
