(* ===== verification/Elf.thy ===== *)
theory Elf
  imports Abydos_Prelude
begin

text \<open>Model of the ELF library \<^verbatim>\<open>deps/libelf\<close>: checking a file, reading its header and its tables, and
  loading its segments. The library computes with pointers into the file and loads to arbitrary
  addresses, so memory is a function from 64-bit addresses to bytes that is \<^const>\<open>None\<close> where nothing is
  mapped, and the arithmetic on addresses wraps as it does in the machine. The layout of the tables is
  that of the ELF specification for little-endian files.\<close>

section \<open>Memory\<close>

type_synonym vmem = "u64 \<Rightarrow> u8 option"

definition ld16 :: "vmem \<Rightarrow> u64 \<Rightarrow> u16 option" where
  "ld16 m a = do { b0 \<leftarrow> m a; b1 \<leftarrow> m (a + 1); Some (push_bit 8 (ucast b1) OR ucast b0) }"

definition ld32 :: "vmem \<Rightarrow> u64 \<Rightarrow> u32 option" where
  "ld32 m a = do { h0 \<leftarrow> ld16 m a; h1 \<leftarrow> ld16 m (a + 2); Some (push_bit 16 (ucast h1) OR ucast h0) }"

definition ld64 :: "vmem \<Rightarrow> u64 \<Rightarrow> u64 option" where
  "ld64 m a = do { w0 \<leftarrow> ld32 m a; w1 \<leftarrow> ld32 m (a + 4); Some (push_bit 32 (ucast w1) OR ucast w0) }"

definition ld32w :: "vmem \<Rightarrow> u64 \<Rightarrow> u64 option" where
  "ld32w m a = map_option ucast (ld32 m a)"

fun vbytes :: "vmem \<Rightarrow> u64 \<Rightarrow> nat \<Rightarrow> u8 list option" where
  "vbytes m a 0 = Some []"
| "vbytes m a (Suc n) = do { c \<leftarrow> m a; cs \<leftarrow> vbytes m (a + 1) n; Some (c # cs) }"

fun vstore :: "vmem \<Rightarrow> u64 \<Rightarrow> u8 list \<Rightarrow> vmem option" where
  "vstore m a [] = Some m"
| "vstore m a (c # cs) = (if m a = None then None else vstore (m(a \<mapsto> c)) (a + 1) cs)"

text \<open>\<open>memcpy\<close> of blocks that overlap is undefined, which counts as a trap.\<close>

definition vmemcpy :: "vmem \<Rightarrow> u64 \<Rightarrow> u64 \<Rightarrow> u64 \<Rightarrow> vmem option" where
  "vmemcpy m dst src n =
     (if dst - src < n \<or> src - dst < n then None
      else do { bs \<leftarrow> vbytes m src (unat n); vstore m dst bs })"

definition vmemset0 :: "vmem \<Rightarrow> u64 \<Rightarrow> u64 \<Rightarrow> vmem option" where
  "vmemset0 m dst n = vstore m dst (replicate (unat n) 0)"

text \<open>Whether \<open>strcmp\<close> finds the string \<open>s\<close> at an address; it reads up to the first difference.\<close>

fun vstr_eq :: "vmem \<Rightarrow> u64 \<Rightarrow> u8 list \<Rightarrow> bool option" where
  "vstr_eq m a [] = do { c \<leftarrow> m a; Some (c = 0) }"
| "vstr_eq m a (x # xs) = do { c \<leftarrow> m a; if c = x then vstr_eq m (a + 1) xs else Some False }"

section \<open>Files and headers\<close>

record elf_t =
  elfFile :: u64
  elfSize :: u64
  elfClass :: u8

datatype elf_addr_type = VIRTUAL | PHYSICAL

definition ELFCLASS32 :: u8 where "ELFCLASS32 = 1"
definition ELFCLASS64 :: u8 where "ELFCLASS64 = 2"
definition SHT_STRTAB :: u32 where "SHT_STRTAB = 3"

text \<open>The fields of \<open>Elf32_Ehdr\<close> and \<open>Elf64_Ehdr\<close> that the library uses.\<close>

record elf_ehdr =
  e_class :: u8
  e_entry :: u64
  e_phoff :: u64
  e_shoff :: u64
  e_phentsize :: u16
  e_phnum :: u16
  e_shentsize :: u16
  e_shnum :: u16
  e_shstrndx :: u16

definition elf_isElf32 :: "elf_t \<Rightarrow> bool" where
  "elf_isElf32 e \<longleftrightarrow> elfClass e = ELFCLASS32"

definition elf32_getHeader :: "vmem \<Rightarrow> elf_t \<Rightarrow> elf_ehdr option" where
  "elf32_getHeader m e = do {
     let f = elfFile e;
     cl \<leftarrow> m (f + 4);
     en \<leftarrow> ld32w m (f + 24);
     po \<leftarrow> ld32w m (f + 28);
     so \<leftarrow> ld32w m (f + 32);
     ps \<leftarrow> ld16 m (f + 42);
     pn \<leftarrow> ld16 m (f + 44);
     ss \<leftarrow> ld16 m (f + 46);
     sn \<leftarrow> ld16 m (f + 48);
     sx \<leftarrow> ld16 m (f + 50);
     Some \<lparr>e_class = cl, e_entry = en, e_phoff = po, e_shoff = so, e_phentsize = ps, e_phnum = pn, e_shentsize = ss, e_shnum = sn, e_shstrndx = sx\<rparr>
   }"

definition elf32_getEntryPoint :: "vmem \<Rightarrow> elf_t \<Rightarrow> u64 option" where
  "elf32_getEntryPoint m e = do { h \<leftarrow> elf32_getHeader m e; Some (e_entry h) }"

definition elf32_getProgramHeaderTable :: "vmem \<Rightarrow> elf_t \<Rightarrow> u64 option" where
  "elf32_getProgramHeaderTable m e = do { h \<leftarrow> elf32_getHeader m e; Some (elfFile e + e_phoff h) }"

definition elf32_getSectionTable :: "vmem \<Rightarrow> elf_t \<Rightarrow> u64 option" where
  "elf32_getSectionTable m e = do { h \<leftarrow> elf32_getHeader m e; Some (elfFile e + e_shoff h) }"

definition elf32_getNumProgramHeaders :: "vmem \<Rightarrow> elf_t \<Rightarrow> u64 option" where
  "elf32_getNumProgramHeaders m e = do { h \<leftarrow> elf32_getHeader m e; Some (ucast (e_phnum h)) }"

definition elf32_getNumSections :: "vmem \<Rightarrow> elf_t \<Rightarrow> u64 option" where
  "elf32_getNumSections m e = do { h \<leftarrow> elf32_getHeader m e; Some (ucast (e_shnum h)) }"

definition elf32_getSectionStringTableIndex :: "vmem \<Rightarrow> elf_t \<Rightarrow> u64 option" where
  "elf32_getSectionStringTableIndex m e = do { h \<leftarrow> elf32_getHeader m e; Some (ucast (e_shstrndx h)) }"

definition elf_isElf64 :: "elf_t \<Rightarrow> bool" where
  "elf_isElf64 e \<longleftrightarrow> elfClass e = ELFCLASS64"

definition elf64_getHeader :: "vmem \<Rightarrow> elf_t \<Rightarrow> elf_ehdr option" where
  "elf64_getHeader m e = do {
     let f = elfFile e;
     cl \<leftarrow> m (f + 4);
     en \<leftarrow> ld64 m (f + 24);
     po \<leftarrow> ld64 m (f + 32);
     so \<leftarrow> ld64 m (f + 40);
     ps \<leftarrow> ld16 m (f + 54);
     pn \<leftarrow> ld16 m (f + 56);
     ss \<leftarrow> ld16 m (f + 58);
     sn \<leftarrow> ld16 m (f + 60);
     sx \<leftarrow> ld16 m (f + 62);
     Some \<lparr>e_class = cl, e_entry = en, e_phoff = po, e_shoff = so, e_phentsize = ps, e_phnum = pn, e_shentsize = ss, e_shnum = sn, e_shstrndx = sx\<rparr>
   }"

definition elf64_getEntryPoint :: "vmem \<Rightarrow> elf_t \<Rightarrow> u64 option" where
  "elf64_getEntryPoint m e = do { h \<leftarrow> elf64_getHeader m e; Some (e_entry h) }"

definition elf64_getProgramHeaderTable :: "vmem \<Rightarrow> elf_t \<Rightarrow> u64 option" where
  "elf64_getProgramHeaderTable m e = do { h \<leftarrow> elf64_getHeader m e; Some (elfFile e + e_phoff h) }"

definition elf64_getSectionTable :: "vmem \<Rightarrow> elf_t \<Rightarrow> u64 option" where
  "elf64_getSectionTable m e = do { h \<leftarrow> elf64_getHeader m e; Some (elfFile e + e_shoff h) }"

definition elf64_getNumProgramHeaders :: "vmem \<Rightarrow> elf_t \<Rightarrow> u64 option" where
  "elf64_getNumProgramHeaders m e = do { h \<leftarrow> elf64_getHeader m e; Some (ucast (e_phnum h)) }"

definition elf64_getNumSections :: "vmem \<Rightarrow> elf_t \<Rightarrow> u64 option" where
  "elf64_getNumSections m e = do { h \<leftarrow> elf64_getHeader m e; Some (ucast (e_shnum h)) }"

definition elf64_getSectionStringTableIndex :: "vmem \<Rightarrow> elf_t \<Rightarrow> u64 option" where
  "elf64_getSectionStringTableIndex m e = do { h \<leftarrow> elf64_getHeader m e; Some (ucast (e_shstrndx h)) }"

section \<open>Entries of the tables\<close>

definition elf32_getSectionNameOffset :: "vmem \<Rightarrow> elf_t \<Rightarrow> u64 \<Rightarrow> u64 option" where
  "elf32_getSectionNameOffset m e i = do { t \<leftarrow> elf32_getSectionTable m e; ld32w m (t + 40 * i) }"

definition elf32_getSectionType :: "vmem \<Rightarrow> elf_t \<Rightarrow> u64 \<Rightarrow> u32 option" where
  "elf32_getSectionType m e i = do { t \<leftarrow> elf32_getSectionTable m e; ld32 m (t + 40 * i + 4) }"

definition elf32_getSectionFlags :: "vmem \<Rightarrow> elf_t \<Rightarrow> u64 \<Rightarrow> u64 option" where
  "elf32_getSectionFlags m e i = do { t \<leftarrow> elf32_getSectionTable m e; ld32w m (t + 40 * i + 8) }"

definition elf32_getSectionAddr :: "vmem \<Rightarrow> elf_t \<Rightarrow> u64 \<Rightarrow> u64 option" where
  "elf32_getSectionAddr m e i = do { t \<leftarrow> elf32_getSectionTable m e; ld32w m (t + 40 * i + 12) }"

definition elf32_getSectionOffset :: "vmem \<Rightarrow> elf_t \<Rightarrow> u64 \<Rightarrow> u64 option" where
  "elf32_getSectionOffset m e i = do { t \<leftarrow> elf32_getSectionTable m e; ld32w m (t + 40 * i + 16) }"

definition elf32_getSectionSize :: "vmem \<Rightarrow> elf_t \<Rightarrow> u64 \<Rightarrow> u64 option" where
  "elf32_getSectionSize m e i = do { t \<leftarrow> elf32_getSectionTable m e; ld32w m (t + 40 * i + 20) }"

definition elf32_getSectionLink :: "vmem \<Rightarrow> elf_t \<Rightarrow> u64 \<Rightarrow> u32 option" where
  "elf32_getSectionLink m e i = do { t \<leftarrow> elf32_getSectionTable m e; ld32 m (t + 40 * i + 24) }"

definition elf32_getSectionInfo :: "vmem \<Rightarrow> elf_t \<Rightarrow> u64 \<Rightarrow> u32 option" where
  "elf32_getSectionInfo m e i = do { t \<leftarrow> elf32_getSectionTable m e; ld32 m (t + 40 * i + 28) }"

definition elf32_getSectionAddrAlign :: "vmem \<Rightarrow> elf_t \<Rightarrow> u64 \<Rightarrow> u64 option" where
  "elf32_getSectionAddrAlign m e i = do { t \<leftarrow> elf32_getSectionTable m e; ld32w m (t + 40 * i + 32) }"

definition elf32_getSectionEntrySize :: "vmem \<Rightarrow> elf_t \<Rightarrow> u64 \<Rightarrow> u64 option" where
  "elf32_getSectionEntrySize m e i = do { t \<leftarrow> elf32_getSectionTable m e; ld32w m (t + 40 * i + 36) }"

definition elf32_getProgramHeaderType :: "vmem \<Rightarrow> elf_t \<Rightarrow> u64 \<Rightarrow> u32 option" where
  "elf32_getProgramHeaderType m e i = do { t \<leftarrow> elf32_getProgramHeaderTable m e; ld32 m (t + 32 * i) }"

definition elf32_getProgramHeaderOffset :: "vmem \<Rightarrow> elf_t \<Rightarrow> u64 \<Rightarrow> u64 option" where
  "elf32_getProgramHeaderOffset m e i = do { t \<leftarrow> elf32_getProgramHeaderTable m e; ld32w m (t + 32 * i + 4) }"

definition elf32_getProgramHeaderVaddr :: "vmem \<Rightarrow> elf_t \<Rightarrow> u64 \<Rightarrow> u64 option" where
  "elf32_getProgramHeaderVaddr m e i = do { t \<leftarrow> elf32_getProgramHeaderTable m e; ld32w m (t + 32 * i + 8) }"

definition elf32_getProgramHeaderPaddr :: "vmem \<Rightarrow> elf_t \<Rightarrow> u64 \<Rightarrow> u64 option" where
  "elf32_getProgramHeaderPaddr m e i = do { t \<leftarrow> elf32_getProgramHeaderTable m e; ld32w m (t + 32 * i + 12) }"

definition elf32_getProgramHeaderFileSize :: "vmem \<Rightarrow> elf_t \<Rightarrow> u64 \<Rightarrow> u64 option" where
  "elf32_getProgramHeaderFileSize m e i = do { t \<leftarrow> elf32_getProgramHeaderTable m e; ld32w m (t + 32 * i + 16) }"

definition elf32_getProgramHeaderMemorySize :: "vmem \<Rightarrow> elf_t \<Rightarrow> u64 \<Rightarrow> u64 option" where
  "elf32_getProgramHeaderMemorySize m e i = do { t \<leftarrow> elf32_getProgramHeaderTable m e; ld32w m (t + 32 * i + 20) }"

definition elf32_getProgramHeaderFlags :: "vmem \<Rightarrow> elf_t \<Rightarrow> u64 \<Rightarrow> u32 option" where
  "elf32_getProgramHeaderFlags m e i = do { t \<leftarrow> elf32_getProgramHeaderTable m e; ld32 m (t + 32 * i + 24) }"

definition elf32_getProgramHeaderAlign :: "vmem \<Rightarrow> elf_t \<Rightarrow> u64 \<Rightarrow> u64 option" where
  "elf32_getProgramHeaderAlign m e i = do { t \<leftarrow> elf32_getProgramHeaderTable m e; ld32w m (t + 32 * i + 28) }"

definition elf64_getSectionNameOffset :: "vmem \<Rightarrow> elf_t \<Rightarrow> u64 \<Rightarrow> u64 option" where
  "elf64_getSectionNameOffset m e i = do { t \<leftarrow> elf64_getSectionTable m e; ld32w m (t + 64 * i) }"

definition elf64_getSectionType :: "vmem \<Rightarrow> elf_t \<Rightarrow> u64 \<Rightarrow> u32 option" where
  "elf64_getSectionType m e i = do { t \<leftarrow> elf64_getSectionTable m e; ld32 m (t + 64 * i + 4) }"

definition elf64_getSectionFlags :: "vmem \<Rightarrow> elf_t \<Rightarrow> u64 \<Rightarrow> u64 option" where
  "elf64_getSectionFlags m e i = do { t \<leftarrow> elf64_getSectionTable m e; ld64 m (t + 64 * i + 8) }"

definition elf64_getSectionAddr :: "vmem \<Rightarrow> elf_t \<Rightarrow> u64 \<Rightarrow> u64 option" where
  "elf64_getSectionAddr m e i = do { t \<leftarrow> elf64_getSectionTable m e; ld64 m (t + 64 * i + 16) }"

definition elf64_getSectionOffset :: "vmem \<Rightarrow> elf_t \<Rightarrow> u64 \<Rightarrow> u64 option" where
  "elf64_getSectionOffset m e i = do { t \<leftarrow> elf64_getSectionTable m e; ld64 m (t + 64 * i + 24) }"

definition elf64_getSectionSize :: "vmem \<Rightarrow> elf_t \<Rightarrow> u64 \<Rightarrow> u64 option" where
  "elf64_getSectionSize m e i = do { t \<leftarrow> elf64_getSectionTable m e; ld64 m (t + 64 * i + 32) }"

definition elf64_getSectionLink :: "vmem \<Rightarrow> elf_t \<Rightarrow> u64 \<Rightarrow> u32 option" where
  "elf64_getSectionLink m e i = do { t \<leftarrow> elf64_getSectionTable m e; ld32 m (t + 64 * i + 40) }"

definition elf64_getSectionInfo :: "vmem \<Rightarrow> elf_t \<Rightarrow> u64 \<Rightarrow> u32 option" where
  "elf64_getSectionInfo m e i = do { t \<leftarrow> elf64_getSectionTable m e; ld32 m (t + 64 * i + 44) }"

definition elf64_getSectionAddrAlign :: "vmem \<Rightarrow> elf_t \<Rightarrow> u64 \<Rightarrow> u64 option" where
  "elf64_getSectionAddrAlign m e i = do { t \<leftarrow> elf64_getSectionTable m e; ld64 m (t + 64 * i + 48) }"

definition elf64_getSectionEntrySize :: "vmem \<Rightarrow> elf_t \<Rightarrow> u64 \<Rightarrow> u64 option" where
  "elf64_getSectionEntrySize m e i = do { t \<leftarrow> elf64_getSectionTable m e; ld64 m (t + 64 * i + 56) }"

definition elf64_getProgramHeaderType :: "vmem \<Rightarrow> elf_t \<Rightarrow> u64 \<Rightarrow> u32 option" where
  "elf64_getProgramHeaderType m e i = do { t \<leftarrow> elf64_getProgramHeaderTable m e; ld32 m (t + 56 * i) }"

definition elf64_getProgramHeaderOffset :: "vmem \<Rightarrow> elf_t \<Rightarrow> u64 \<Rightarrow> u64 option" where
  "elf64_getProgramHeaderOffset m e i = do { t \<leftarrow> elf64_getProgramHeaderTable m e; ld64 m (t + 56 * i + 8) }"

definition elf64_getProgramHeaderVaddr :: "vmem \<Rightarrow> elf_t \<Rightarrow> u64 \<Rightarrow> u64 option" where
  "elf64_getProgramHeaderVaddr m e i = do { t \<leftarrow> elf64_getProgramHeaderTable m e; ld64 m (t + 56 * i + 16) }"

definition elf64_getProgramHeaderPaddr :: "vmem \<Rightarrow> elf_t \<Rightarrow> u64 \<Rightarrow> u64 option" where
  "elf64_getProgramHeaderPaddr m e i = do { t \<leftarrow> elf64_getProgramHeaderTable m e; ld64 m (t + 56 * i + 24) }"

definition elf64_getProgramHeaderFileSize :: "vmem \<Rightarrow> elf_t \<Rightarrow> u64 \<Rightarrow> u64 option" where
  "elf64_getProgramHeaderFileSize m e i = do { t \<leftarrow> elf64_getProgramHeaderTable m e; ld64 m (t + 56 * i + 32) }"

definition elf64_getProgramHeaderMemorySize :: "vmem \<Rightarrow> elf_t \<Rightarrow> u64 \<Rightarrow> u64 option" where
  "elf64_getProgramHeaderMemorySize m e i = do { t \<leftarrow> elf64_getProgramHeaderTable m e; ld64 m (t + 56 * i + 40) }"

definition elf64_getProgramHeaderFlags :: "vmem \<Rightarrow> elf_t \<Rightarrow> u64 \<Rightarrow> u32 option" where
  "elf64_getProgramHeaderFlags m e i = do { t \<leftarrow> elf64_getProgramHeaderTable m e; ld32 m (t + 56 * i + 4) }"

definition elf64_getProgramHeaderAlign :: "vmem \<Rightarrow> elf_t \<Rightarrow> u64 \<Rightarrow> u64 option" where
  "elf64_getProgramHeaderAlign m e i = do { t \<leftarrow> elf64_getProgramHeaderTable m e; ld64 m (t + 56 * i + 48) }"

text \<open>The functions for both classes.\<close>

definition elf_getEntryPoint :: "vmem \<Rightarrow> elf_t \<Rightarrow> u64 option" where
  "elf_getEntryPoint m e = (if elf_isElf32 e then elf32_getEntryPoint m e else elf64_getEntryPoint m e)"

definition elf_getNumProgramHeaders :: "vmem \<Rightarrow> elf_t \<Rightarrow> u64 option" where
  "elf_getNumProgramHeaders m e = (if elf_isElf32 e then elf32_getNumProgramHeaders m e else elf64_getNumProgramHeaders m e)"

definition elf_getNumSections :: "vmem \<Rightarrow> elf_t \<Rightarrow> u64 option" where
  "elf_getNumSections m e = (if elf_isElf32 e then elf32_getNumSections m e else elf64_getNumSections m e)"

definition elf_getSectionStringTableIndex :: "vmem \<Rightarrow> elf_t \<Rightarrow> u64 option" where
  "elf_getSectionStringTableIndex m e = (if elf_isElf32 e then elf32_getSectionStringTableIndex m e else elf64_getSectionStringTableIndex m e)"

definition elf_getSectionNameOffset :: "vmem \<Rightarrow> elf_t \<Rightarrow> u64 \<Rightarrow> u64 option" where
  "elf_getSectionNameOffset m e i = (if elf_isElf32 e then elf32_getSectionNameOffset m e i else elf64_getSectionNameOffset m e i)"

definition elf_getSectionType :: "vmem \<Rightarrow> elf_t \<Rightarrow> u64 \<Rightarrow> u32 option" where
  "elf_getSectionType m e i = (if elf_isElf32 e then elf32_getSectionType m e i else elf64_getSectionType m e i)"

definition elf_getSectionFlags :: "vmem \<Rightarrow> elf_t \<Rightarrow> u64 \<Rightarrow> u64 option" where
  "elf_getSectionFlags m e i = (if elf_isElf32 e then elf32_getSectionFlags m e i else elf64_getSectionFlags m e i)"

definition elf_getSectionAddr :: "vmem \<Rightarrow> elf_t \<Rightarrow> u64 \<Rightarrow> u64 option" where
  "elf_getSectionAddr m e i = (if elf_isElf32 e then elf32_getSectionAddr m e i else elf64_getSectionAddr m e i)"

definition elf_getSectionOffset :: "vmem \<Rightarrow> elf_t \<Rightarrow> u64 \<Rightarrow> u64 option" where
  "elf_getSectionOffset m e i = (if elf_isElf32 e then elf32_getSectionOffset m e i else elf64_getSectionOffset m e i)"

definition elf_getSectionSize :: "vmem \<Rightarrow> elf_t \<Rightarrow> u64 \<Rightarrow> u64 option" where
  "elf_getSectionSize m e i = (if elf_isElf32 e then elf32_getSectionSize m e i else elf64_getSectionSize m e i)"

definition elf_getSectionLink :: "vmem \<Rightarrow> elf_t \<Rightarrow> u64 \<Rightarrow> u32 option" where
  "elf_getSectionLink m e i = (if elf_isElf32 e then elf32_getSectionLink m e i else elf64_getSectionLink m e i)"

definition elf_getSectionInfo :: "vmem \<Rightarrow> elf_t \<Rightarrow> u64 \<Rightarrow> u32 option" where
  "elf_getSectionInfo m e i = (if elf_isElf32 e then elf32_getSectionInfo m e i else elf64_getSectionInfo m e i)"

definition elf_getSectionAddrAlign :: "vmem \<Rightarrow> elf_t \<Rightarrow> u64 \<Rightarrow> u64 option" where
  "elf_getSectionAddrAlign m e i = (if elf_isElf32 e then elf32_getSectionAddrAlign m e i else elf64_getSectionAddrAlign m e i)"

definition elf_getSectionEntrySize :: "vmem \<Rightarrow> elf_t \<Rightarrow> u64 \<Rightarrow> u64 option" where
  "elf_getSectionEntrySize m e i = (if elf_isElf32 e then elf32_getSectionEntrySize m e i else elf64_getSectionEntrySize m e i)"

definition elf_getProgramHeaderType :: "vmem \<Rightarrow> elf_t \<Rightarrow> u64 \<Rightarrow> u32 option" where
  "elf_getProgramHeaderType m e i = (if elf_isElf32 e then elf32_getProgramHeaderType m e i else elf64_getProgramHeaderType m e i)"

definition elf_getProgramHeaderOffset :: "vmem \<Rightarrow> elf_t \<Rightarrow> u64 \<Rightarrow> u64 option" where
  "elf_getProgramHeaderOffset m e i = (if elf_isElf32 e then elf32_getProgramHeaderOffset m e i else elf64_getProgramHeaderOffset m e i)"

definition elf_getProgramHeaderVaddr :: "vmem \<Rightarrow> elf_t \<Rightarrow> u64 \<Rightarrow> u64 option" where
  "elf_getProgramHeaderVaddr m e i = (if elf_isElf32 e then elf32_getProgramHeaderVaddr m e i else elf64_getProgramHeaderVaddr m e i)"

definition elf_getProgramHeaderPaddr :: "vmem \<Rightarrow> elf_t \<Rightarrow> u64 \<Rightarrow> u64 option" where
  "elf_getProgramHeaderPaddr m e i = (if elf_isElf32 e then elf32_getProgramHeaderPaddr m e i else elf64_getProgramHeaderPaddr m e i)"

definition elf_getProgramHeaderFileSize :: "vmem \<Rightarrow> elf_t \<Rightarrow> u64 \<Rightarrow> u64 option" where
  "elf_getProgramHeaderFileSize m e i = (if elf_isElf32 e then elf32_getProgramHeaderFileSize m e i else elf64_getProgramHeaderFileSize m e i)"

definition elf_getProgramHeaderMemorySize :: "vmem \<Rightarrow> elf_t \<Rightarrow> u64 \<Rightarrow> u64 option" where
  "elf_getProgramHeaderMemorySize m e i = (if elf_isElf32 e then elf32_getProgramHeaderMemorySize m e i else elf64_getProgramHeaderMemorySize m e i)"

definition elf_getProgramHeaderFlags :: "vmem \<Rightarrow> elf_t \<Rightarrow> u64 \<Rightarrow> u32 option" where
  "elf_getProgramHeaderFlags m e i = (if elf_isElf32 e then elf32_getProgramHeaderFlags m e i else elf64_getProgramHeaderFlags m e i)"

definition elf_getProgramHeaderAlign :: "vmem \<Rightarrow> elf_t \<Rightarrow> u64 \<Rightarrow> u64 option" where
  "elf_getProgramHeaderAlign m e i = (if elf_isElf32 e then elf32_getProgramHeaderAlign m e i else elf64_getProgramHeaderAlign m e i)"

section \<open>Checking a file\<close>

text \<open>\<open>ELFMAG\<close> is \<open>\177ELF\<close>.\<close>

definition elf_check_magic :: "vmem \<Rightarrow> u64 \<Rightarrow> int option" where
  "elf_check_magic m file = do {
     bs \<leftarrow> vbytes m file 4;
     Some (if bs \<noteq> [0x7F, 0x45, 0x4C, 0x46] then -1 else 0)
   }"

definition elf32_checkFile :: "vmem \<Rightarrow> elf_t \<Rightarrow> (int \<times> elf_t) option" where
  "elf32_checkFile m e =
     (if elfSize e < 52 then Some (-1, e)
      else do {
        mg \<leftarrow> elf_check_magic m (elfFile e);
        if mg < 0 then Some (-1, e)
        else do {
          h \<leftarrow> elf32_getHeader m e;
          Some (if e_class h \<noteq> ELFCLASS32 then (-1, e)
                else if e_phentsize h \<noteq> 32 then (-1, e)
                else if e_shentsize h \<noteq> 40 then (-1, e)
                else if e_shstrndx h \<ge> e_shnum h then (-1, e)
                else (0, e\<lparr>elfClass := e_class h\<rparr>))
        }
      })"

text \<open>The sum is computed in the 32 bits of \<open>e_phoff\<close>.\<close>

definition elf32_checkProgramHeaderTable :: "vmem \<Rightarrow> elf_t \<Rightarrow> int option" where
  "elf32_checkProgramHeaderTable m e = do {
     h \<leftarrow> elf32_getHeader m e;
     let en = ucast (ucast (e_phoff h) + ucast (e_phentsize h) * ucast (e_phnum h) :: u32);
     Some (if elfSize e < en \<or> en < e_phoff h then -1 else 0)
   }"

definition elf32_checkSectionTable :: "vmem \<Rightarrow> elf_t \<Rightarrow> int option" where
  "elf32_checkSectionTable m e = do {
     h \<leftarrow> elf32_getHeader m e;
     let en = ucast (ucast (e_shoff h) + ucast (e_shentsize h) * ucast (e_shnum h) :: u32);
     Some (if elfSize e < en \<or> en < e_shoff h then -1 else 0)
   }"

definition elf64_checkFile :: "vmem \<Rightarrow> elf_t \<Rightarrow> (int \<times> elf_t) option" where
  "elf64_checkFile m e =
     (if elfSize e < 64 then Some (-1, e)
      else do {
        mg \<leftarrow> elf_check_magic m (elfFile e);
        if mg < 0 then Some (-1, e)
        else do {
          h \<leftarrow> elf64_getHeader m e;
          Some (if e_class h \<noteq> ELFCLASS64 then (-1, e)
                else if e_phentsize h \<noteq> 56 then (-1, e)
                else if e_shentsize h \<noteq> 64 then (-1, e)
                else if e_shstrndx h \<ge> e_shnum h then (-1, e)
                else (0, e\<lparr>elfClass := e_class h\<rparr>))
        }
      })"

definition elf64_checkProgramHeaderTable :: "vmem \<Rightarrow> elf_t \<Rightarrow> int option" where
  "elf64_checkProgramHeaderTable m e = do {
     h \<leftarrow> elf64_getHeader m e;
     let en = e_phoff h + ucast (e_phentsize h) * ucast (e_phnum h);
     Some (if elfSize e < en \<or> en < e_phoff h then -1 else 0)
   }"

definition elf64_checkSectionTable :: "vmem \<Rightarrow> elf_t \<Rightarrow> int option" where
  "elf64_checkSectionTable m e = do {
     h \<leftarrow> elf64_getHeader m e;
     let en = e_shoff h + ucast (e_shentsize h) * ucast (e_shnum h);
     Some (if elfSize e < en \<or> en < e_shoff h then -1 else 0)
   }"

definition elf_checkFile :: "vmem \<Rightarrow> elf_t \<Rightarrow> (int \<times> elf_t) option" where
  "elf_checkFile m e = do {
     (res, e1) \<leftarrow> elf32_checkFile m e;
     if res = 0 then Some (0, e1)
     else do {
       (res, e2) \<leftarrow> elf64_checkFile m e1;
       Some (if res = 0 then 0 else -1, e2)
     }
   }"

definition elf_checkProgramHeaderTable :: "vmem \<Rightarrow> elf_t \<Rightarrow> int option" where
  "elf_checkProgramHeaderTable m e = (if elf_isElf32 e then elf32_checkProgramHeaderTable m e else elf64_checkProgramHeaderTable m e)"

definition elf_checkSectionTable :: "vmem \<Rightarrow> elf_t \<Rightarrow> int option" where
  "elf_checkSectionTable m e = (if elf_isElf32 e then elf32_checkSectionTable m e else elf64_checkSectionTable m e)"

text \<open>The result is the status and the structure stored through \<open>res\<close>, if one is.\<close>

definition elf_newFile_maybe_unsafe :: "vmem \<Rightarrow> u64 \<Rightarrow> u64 \<Rightarrow> bool \<Rightarrow> bool \<Rightarrow> (int \<times> elf_t option) option" where
  "elf_newFile_maybe_unsafe m file sz check_pht check_st = do {
     (status, e) \<leftarrow> elf_checkFile m \<lparr>elfFile = file, elfSize = sz, elfClass = 0\<rparr>;
     if status < 0 then Some (status, None)
     else do {
       status \<leftarrow> (if check_pht then elf_checkProgramHeaderTable m e else Some status);
       if status < 0 then Some (status, None)
       else do {
         status \<leftarrow> (if check_st then elf_checkSectionTable m e else Some status);
         Some (if status < 0 then (status, None) else (status, Some e))
       }
     }
   }"

definition elf_newFile :: "vmem \<Rightarrow> u64 \<Rightarrow> u64 \<Rightarrow> (int \<times> elf_t option) option" where
  "elf_newFile m file sz = elf_newFile_maybe_unsafe m file sz True True"

section \<open>Sections and segments\<close>

text \<open>The inner \<^const>\<open>None\<close> is the pointer \<open>NULL\<close>.\<close>

definition elf_getSection :: "vmem \<Rightarrow> elf_t \<Rightarrow> u64 \<Rightarrow> u64 option option" where
  "elf_getSection m e i =
     (if i = 0 then Some None
      else do {
        n \<leftarrow> elf_getNumSections m e;
        if i \<ge> n then Some None
        else do {
          section_offset \<leftarrow> elf_getSectionOffset m e i;
          section_size \<leftarrow> elf_getSectionSize m e i;
          let section_end = section_offset + section_size;
          Some (if section_size = 0 then None
                else if section_end > elfSize e \<or> section_end < section_offset then None
                else Some (elfFile e + section_offset))
        }
      })"

definition elf_getStringTable :: "vmem \<Rightarrow> elf_t \<Rightarrow> u64 \<Rightarrow> u64 option option" where
  "elf_getStringTable m e i = do {
     sec \<leftarrow> elf_getSection m e i;
     (case sec of
        None \<Rightarrow> Some None
      | Some string_table \<Rightarrow> do {
          ty \<leftarrow> elf_getSectionType m e i;
          if ty \<noteq> SHT_STRTAB then Some None
          else do {
            sz \<leftarrow> elf_getSectionSize m e i;
            c \<leftarrow> m (string_table + (sz - 1));
            Some (if c \<noteq> 0 then None else Some string_table)
          }
        })
   }"

definition elf_getSectionStringTable :: "vmem \<Rightarrow> elf_t \<Rightarrow> u64 option option" where
  "elf_getSectionStringTable m e = do { i \<leftarrow> elf_getSectionStringTableIndex m e; elf_getStringTable m e i }"

text \<open>A name is a pointer into the string table, or the literal \<open><corrupted>\<close>, which is \<^const>\<open>None\<close>.\<close>

definition elf_getSectionName :: "vmem \<Rightarrow> elf_t \<Rightarrow> u64 \<Rightarrow> u64 option option" where
  "elf_getSectionName m e i = do {
     str_table_idx \<leftarrow> elf_getSectionStringTableIndex m e;
     str_table \<leftarrow> elf_getStringTable m e str_table_idx;
     offset \<leftarrow> elf_getSectionNameOffset m e i;
     sz \<leftarrow> elf_getSectionSize m e str_table_idx;
     Some (case str_table of None \<Rightarrow> None | Some t \<Rightarrow> if offset > sz then None else Some (t + offset))
   }"

fun section_named_loop :: "vmem \<Rightarrow> elf_t \<Rightarrow> u8 list \<Rightarrow> nat list \<Rightarrow> (u64 option \<times> u64 option) option" where
  "section_named_loop m e str [] = Some (None, None)"
| "section_named_loop m e str (i # is) = do {
     nm \<leftarrow> elf_getSectionName m e (of_nat i);
     eq \<leftarrow> (case nm of None \<Rightarrow> Some (str = map of_char ''<corrupted>'') | Some a \<Rightarrow> vstr_eq m a str);
     if eq then do { s \<leftarrow> elf_getSection m e (of_nat i); Some (s, Some (of_nat i)) }
     else section_named_loop m e str is
   }"

text \<open>The section and the number stored through \<open>id\<close>.\<close>

definition elf_getSectionNamed :: "vmem \<Rightarrow> elf_t \<Rightarrow> u8 list \<Rightarrow> (u64 option \<times> u64 option) option" where
  "elf_getSectionNamed m e str = do { n \<leftarrow> elf_getNumSections m e; section_named_loop m e str [0..<unat n] }"

definition elf_getProgramSegment :: "vmem \<Rightarrow> elf_t \<Rightarrow> u64 \<Rightarrow> u64 option option" where
  "elf_getProgramSegment m e ph = do {
     offset \<leftarrow> elf_getProgramHeaderOffset m e ph;
     file_size \<leftarrow> elf_getProgramHeaderFileSize m e ph;
     let segment_end = offset + file_size;
     Some (if elfSize e < segment_end \<or> segment_end < offset then None else Some (elfFile e + offset))
   }"

definition segment_addr :: "elf_addr_type \<Rightarrow> vmem \<Rightarrow> elf_t \<Rightarrow> u64 \<Rightarrow> u64 option" where
  "segment_addr ty m e i = (if ty = PHYSICAL then elf_getProgramHeaderPaddr m e i else elf_getProgramHeaderVaddr m e i)"

fun bounds_loop :: "vmem \<Rightarrow> elf_t \<Rightarrow> elf_addr_type \<Rightarrow> nat list \<Rightarrow> u64 \<times> u64 \<Rightarrow> (u64 \<times> u64) option" where
  "bounds_loop m e ty [] b = Some b"
| "bounds_loop m e ty (i # is) (mem_min, mem_max) = do {
     sz \<leftarrow> elf_getProgramHeaderMemorySize m e (of_nat i);
     if sz = 0 then bounds_loop m e ty is (mem_min, mem_max)
     else do {
       sect_min \<leftarrow> segment_addr ty m e (of_nat i);
       let sect_max = sect_min + sz;
       bounds_loop m e ty is (if sect_min < mem_min then sect_min else mem_min, if sect_max > mem_max then sect_max else mem_max)
     }
   }"

definition elf_getMemoryBounds :: "vmem \<Rightarrow> elf_t \<Rightarrow> elf_addr_type \<Rightarrow> (int \<times> u64 \<times> u64) option" where
  "elf_getMemoryBounds m e ty = do {
     n \<leftarrow> elf_getNumProgramHeaders m e;
     (mn, mx) \<leftarrow> bounds_loop m e ty [0..<unat n] (- 1, 0);
     Some (1, mn, mx)
   }"

definition elf_vaddrInProgramHeader :: "vmem \<Rightarrow> elf_t \<Rightarrow> u64 \<Rightarrow> u64 \<Rightarrow> int option" where
  "elf_vaddrInProgramHeader m e ph vaddr = do {
     mn \<leftarrow> elf_getProgramHeaderVaddr m e ph;
     sz \<leftarrow> elf_getProgramHeaderMemorySize m e ph;
     Some (if vaddr \<ge> mn \<and> vaddr < mn + sz then 1 else 0)
   }"

definition elf_vtopProgramHeader :: "vmem \<Rightarrow> elf_t \<Rightarrow> u64 \<Rightarrow> u64 \<Rightarrow> u64 option" where
  "elf_vtopProgramHeader m e ph vaddr = do {
     ph_phys \<leftarrow> elf_getProgramHeaderPaddr m e ph;
     ph_virt \<leftarrow> elf_getProgramHeaderVaddr m e ph;
     Some (vaddr - ph_virt + ph_phys)
   }"

text \<open>One round of \<open>elf_loadFile\<close>, and the loop, which reads the number of segments again in every round. The
  number has 16 bits, which bounds the rounds.\<close>

definition load_segment :: "elf_t \<Rightarrow> elf_addr_type \<Rightarrow> u64 \<Rightarrow> vmem \<Rightarrow> vmem option" where
  "load_segment e ty i m = do {
     dest \<leftarrow> segment_addr ty m e i;
     len \<leftarrow> elf_getProgramHeaderFileSize m e i;
     off \<leftarrow> elf_getProgramHeaderOffset m e i;
     m1 \<leftarrow> vmemcpy m dest (elfFile e + off) len;
     msz \<leftarrow> elf_getProgramHeaderMemorySize m1 e i;
     vmemset0 m1 (dest + len) (msz - len)
   }"

lemma num_headers_bound: "elf_getNumProgramHeaders m e = Some n \<Longrightarrow> unat n < 65536"
proof -
  have "unat x < 2 ^ LENGTH(16)" for x :: u16 by (rule unsigned_less)
  then have "unat (ucast (x :: u16) :: u64) < 65536" for x 
    by (simp add: unsigned_ucast_eq le_less_trans [OF take_bit_nat_less_eq_self])
  then show "elf_getNumProgramHeaders m e = Some n \<Longrightarrow> unat n < 65536"
    by (auto simp: elf_getNumProgramHeaders_def elf32_getNumProgramHeaders_def elf64_getNumProgramHeaders_def split: if_splits bind_splits)
qed

function load_loop :: "elf_t \<Rightarrow> elf_addr_type \<Rightarrow> u64 \<Rightarrow> vmem \<Rightarrow> vmem option" where
  "load_loop e ty i m = do {
     n \<leftarrow> elf_getNumProgramHeaders m e;
     if i < n then do { m' \<leftarrow> load_segment e ty i m; load_loop e ty (i + 1) m' } else Some m
   }"
  by pat_completeness auto
termination
proof (relation "measure (\<lambda>(e, ty, i, m). 65536 - unat i)", goal_cases)
  case (2 e ty i m n m')
  then have "unat i < 65536" using num_headers_bound [of m e n] by (simp add: word_less_nat_alt)
  then have "unat (i + 1) = unat i + 1" by (simp add: unat_word_ariths)
  with \<open>unat i < 65536\<close> show ?case by simp
qed simp

definition elf_loadFile :: "vmem \<Rightarrow> elf_t \<Rightarrow> elf_addr_type \<Rightarrow> (int \<times> vmem) option" where
  "elf_loadFile m e ty = do { m' \<leftarrow> load_loop e ty 0 m; Some (1, m') }"

declare load_loop.simps [simp del]

end
