(* ===== verification/Elf_Props.thy ===== *)
theory Elf_Props
  imports Elf
begin

text \<open>What checking a file buys: once \<open>elf_newFile\<close> has accepted it, the tables and what they point to are
  read inside the file, and \<open>elf_loadFile\<close> puts the image of the file into memory.\<close>

section \<open>Reading inside a block\<close>

definition mapped :: "vmem \<Rightarrow> u64 \<Rightarrow> nat \<Rightarrow> bool" where
  "mapped m a n \<longleftrightarrow> (\<forall>i<n. m (a + of_nat i) \<noteq> None)"

definition same_at :: "vmem \<Rightarrow> vmem \<Rightarrow> u64 \<Rightarrow> nat \<Rightarrow> bool" where
  "same_at m m' a n \<longleftrightarrow> (\<forall>i<n. m' (a + of_nat i) = m (a + of_nat i))"

lemma mappedD: "mapped m a n \<Longrightarrow> unat off < n \<Longrightarrow> \<exists>c. m (a + off) = Some c"
  unfolding mapped_def by (drule spec [of _ "unat off"]) auto

lemma sameD: "same_at m m' a n \<Longrightarrow> unat off < n \<Longrightarrow> m' (a + off) = m (a + off)"
  unfolding same_at_def by (drule spec [of _ "unat off"]) auto

lemma unat_add_le: "unat (a + b) \<le> unat a + unat (b :: u64)"
  by (simp add: unat_word_ariths)

lemma unat_mul_le: "unat (a * b) \<le> unat a * unat (b :: u64)"
  by (simp add: unat_word_ariths)

lemma below_add: "unat (off :: u64) + (unat k + w) \<le> n \<Longrightarrow> unat (off + k) + w \<le> n"
  using unat_add_le [of off k] by linarith

lemma ld16_ok: "mapped m a n \<Longrightarrow> unat off + 2 \<le> n \<Longrightarrow> \<exists>v. ld16 m (a + off) = Some v"
  using mappedD [of m a n off] mappedD [of m a n "off + 1"] below_add [of off 1 1 n]
  by (auto simp: ld16_def add.assoc)

lemma ld32_ok: "mapped m a n \<Longrightarrow> unat off + 4 \<le> n \<Longrightarrow> \<exists>v. ld32 m (a + off) = Some v"
  using ld16_ok [of m a n off] ld16_ok [of m a n "off + 2"] below_add [of off 2 2 n]
  by (auto simp: ld32_def add.assoc)

lemma ld64_ok: "mapped m a n \<Longrightarrow> unat off + 8 \<le> n \<Longrightarrow> \<exists>v. ld64 m (a + off) = Some v"
  using ld32_ok [of m a n off] ld32_ok [of m a n "off + 4"] below_add [of off 4 4 n]
  by (auto simp: ld64_def add.assoc)

lemma ld32w_ok: "mapped m a n \<Longrightarrow> unat off + 4 \<le> n \<Longrightarrow> \<exists>v. ld32w m (a + off) = Some v"
  using ld32_ok [of m a n off] by (auto simp: ld32w_def)

lemma ld16_same: "same_at m m' a n \<Longrightarrow> unat off + 2 \<le> n \<Longrightarrow> ld16 m' (a + off) = ld16 m (a + off)"
  using sameD [of m m' a n off] sameD [of m m' a n "off + 1"] below_add [of off 1 1 n]
  by (simp add: ld16_def add.assoc)

lemma ld32_same: "same_at m m' a n \<Longrightarrow> unat off + 4 \<le> n \<Longrightarrow> ld32 m' (a + off) = ld32 m (a + off)"
  using ld16_same [of m m' a n off] ld16_same [of m m' a n "off + 2"] below_add [of off 2 2 n]
  by (simp add: ld32_def add.assoc)

lemma ld64_same: "same_at m m' a n \<Longrightarrow> unat off + 8 \<le> n \<Longrightarrow> ld64 m' (a + off) = ld64 m (a + off)"
  using ld32_same [of m m' a n off] ld32_same [of m m' a n "off + 4"] below_add [of off 4 4 n]
  by (simp add: ld64_def add.assoc)

lemma ld32w_same: "same_at m m' a n \<Longrightarrow> unat off + 4 \<le> n \<Longrightarrow> ld32w m' (a + off) = ld32w m (a + off)"
  using ld32_same [of m m' a n off] by (simp add: ld32w_def)

section \<open>Accepted files\<close>

definition elf_header :: "vmem \<Rightarrow> elf_t \<Rightarrow> elf_ehdr option" where
  "elf_header m e = (if elf_isElf32 e then elf32_getHeader m e else elf64_getHeader m e)"

definition phsz :: "elf_t \<Rightarrow> nat" where "phsz e = (if elf_isElf32 e then 32 else 56)"
definition shsz :: "elf_t \<Rightarrow> nat" where "shsz e = (if elf_isElf32 e then 40 else 64)"

definition elf_valid :: "vmem \<Rightarrow> elf_t \<Rightarrow> bool" where
  "elf_valid m e \<longleftrightarrow> mapped m (elfFile e) (unat (elfSize e)) \<and> (if elf_isElf32 e then 52 else 64) \<le> unat (elfSize e) \<and>
     (\<exists>h. elf_header m e = Some h \<and> unat (e_phoff h) + phsz e * unat (e_phnum h) \<le> unat (elfSize e) \<and>
        unat (e_shoff h) + shsz e * unat (e_shnum h) \<le> unat (elfSize e) \<and> e_shstrndx h < e_shnum h)"

lemma getHeader_ok:
  assumes "mapped m (elfFile e) n"
  shows "52 \<le> n \<Longrightarrow> \<exists>h. elf32_getHeader m e = Some h \<and> unat (e_phoff h) < 2 ^ 32 \<and> unat (e_shoff h) < 2 ^ 32"
    "64 \<le> n \<Longrightarrow> \<exists>h. elf64_getHeader m e = Some h"
proof -
  have w: "\<exists>v. ld32w m (elfFile e + off) = Some v \<and> unat v < 2 ^ 32" if o: "unat off + 4 \<le> n" for off
  proof -
    obtain v where "ld32 m (elfFile e + off) = Some v" using ld32_ok [OF assms o] by blast
    moreover have "unat v < 2 ^ LENGTH(32)" by (rule unsigned_less)
    ultimately show ?thesis by (simp add: ld32w_def unsigned_ucast_eq le_less_trans [OF take_bit_nat_less_eq_self])
  qed
  show "\<exists>h. elf32_getHeader m e = Some h \<and> unat (e_phoff h) < 2 ^ 32 \<and> unat (e_shoff h) < 2 ^ 32" if n: "52 \<le> n"
    using mappedD [OF assms, of 4] w [of 24] w [of 28] w [of 32] ld16_ok [OF assms, of 42] ld16_ok [OF assms, of 44]
      ld16_ok [OF assms, of 46] ld16_ok [OF assms, of 48] ld16_ok [OF assms, of 50] n
    by (auto simp: elf32_getHeader_def Let_def)
  show "\<exists>h. elf64_getHeader m e = Some h" if n: "64 \<le> n"
    using mappedD [OF assms, of 4] ld64_ok [OF assms, of 24] ld64_ok [OF assms, of 32] ld64_ok [OF assms, of 40] ld16_ok [OF assms, of 54]
      ld16_ok [OF assms, of 56] ld16_ok [OF assms, of 58] ld16_ok [OF assms, of 60] ld16_ok [OF assms, of 62] n
    by (auto simp: elf64_getHeader_def Let_def)
qed

lemma getHeader_same:
  assumes "same_at m m' (elfFile e) n"
  shows "52 \<le> n \<Longrightarrow> elf32_getHeader m' e = elf32_getHeader m e" "64 \<le> n \<Longrightarrow> elf64_getHeader m' e = elf64_getHeader m e"
  using sameD [OF assms] ld16_same [OF assms] ld32w_same [OF assms] ld64_same [OF assms]
  by (simp_all add: elf32_getHeader_def elf64_getHeader_def Let_def)

lemma mapped_Suc: "mapped m a (Suc n) \<longleftrightarrow> m a \<noteq> None \<and> mapped m (a + 1) n"
proof
  assume s: "mapped m a (Suc n)"
  have "m (a + 1 + of_nat i) \<noteq> None" if "i < n" for i using s that unfolding mapped_def by (auto dest!: spec [of _ "Suc i"] simp: add.assoc)
  moreover have "m a \<noteq> None" using s unfolding mapped_def by (auto dest!: spec [of _ 0])
  ultimately show "m a \<noteq> None \<and> mapped m (a + 1) n" by (simp add: mapped_def)
next
  assume s: "m a \<noteq> None \<and> mapped m (a + 1) n"
  have "m (a + of_nat i) \<noteq> None" if "i < Suc n" for i
    using s that by (cases i) (auto simp: mapped_def add.assoc dest!: spec [of _ "i - 1"])
  then show "mapped m a (Suc n)" by (simp add: mapped_def)
qed

lemma vbytes_ok: "mapped m a n \<Longrightarrow> vbytes m a n = Some (map (\<lambda>i. the (m (a + of_nat i))) [0..<n])"
proof (induction n arbitrary: a)
  case (Suc n)
  then obtain c where c: "m a = Some c" "mapped m (a + 1) n" by (auto simp: mapped_Suc)
  have "map (\<lambda>i. the (m (a + of_nat i))) [0..<Suc n] = c # map (\<lambda>i. the (m (a + 1 + of_nat i))) [0..<n]"
    using c(1) by (simp add: map_upt_Suc add.assoc del: upt_Suc)
  then show ?case using Suc.IH [OF c(2)] c(1) by (simp del: upt_Suc)
qed simp

lemma mapped_mono: "mapped m a n \<Longrightarrow> k \<le> n \<Longrightarrow> mapped m a k"
  by (simp add: mapped_def)

lemma check_magic_ok: "mapped m a n \<Longrightarrow> 4 \<le> n \<Longrightarrow> \<exists>r. elf_check_magic m a = Some r"
  using vbytes_ok [OF mapped_mono, of m a n 4] by (simp add: elf_check_magic_def)

text \<open>A sum that is not below its first summand has not wrapped.\<close>

lemma sum_32:
  assumes "unat (x :: u64) < 2 ^ 32" "s = ucast (ucast x + ucast a * ucast b :: u32)" "\<not> s < x"
  shows "unat s = unat x + unat (a :: u16) * unat (b :: u16)"
proof -
  let ?x = "ucast x :: u32" and ?y = "ucast a * ucast b :: u32"
  have a: "unat a < 2 ^ LENGTH(16)" "unat b < 2 ^ LENGTH(16)" by (rule unsigned_less)+
  then have "unat a * unat b < 2 ^ 16 * 2 ^ 16" by (intro mult_strict_mono) auto
  then have y: "unat ?y = unat a * unat b" using a by (simp add: unat_word_ariths unsigned_ucast_eq take_bit_nat_eq_self)
  have x: "unat ?x = unat x" using assms(1) by (simp add: unsigned_ucast_eq take_bit_nat_eq_self)
  have s: "unat s = unat (?x + ?y)" unfolding assms(2) using unsigned_less [of "?x + ?y", where ?'a = nat]
    by (simp add: unsigned_ucast_eq take_bit_nat_eq_self)
  then have "?x \<le> ?x + ?y" using assms(3) x by (simp add: word_less_nat_alt word_le_nat_alt)
  then show ?thesis using s x y unat_plus_simple [of ?x ?y] by simp
qed

lemma sum_64:
  assumes "s = x + ucast a * ucast b" "\<not> s < (x :: u64)"
  shows "unat s = unat x + unat (a :: u16) * unat (b :: u16)"
proof -
  let ?y = "ucast a * ucast b :: u64"
  have a: "unat a < 2 ^ LENGTH(16)" "unat b < 2 ^ LENGTH(16)" by (rule unsigned_less)+
  then have "unat a * unat b < 2 ^ 16 * 2 ^ 16" by (intro mult_strict_mono) auto
  then have "unat ?y = unat a * unat b" using a by (simp add: unat_word_ariths unsigned_ucast_eq take_bit_nat_eq_self)
  then show ?thesis using assms unat_plus_simple [of x ?y] by (simp add: not_less)
qed

lemma getHeader_class [simp]:
  "elf32_getHeader m (e\<lparr>elfClass := c\<rparr>) = elf32_getHeader m e" "elf64_getHeader m (e\<lparr>elfClass := c\<rparr>) = elf64_getHeader m e"
  by (simp_all add: elf32_getHeader_def elf64_getHeader_def)

lemma checkFile32:
  assumes m: "mapped m (elfFile e) (unat (elfSize e))"
  obtains (bad) "elf32_checkFile m e = Some (-1, e)"
  | (good) h where "elf32_checkFile m e = Some (0, e\<lparr>elfClass := ELFCLASS32\<rparr>)" "52 \<le> unat (elfSize e)" "elf32_getHeader m e = Some h"
      "e_phentsize h = 32" "e_shentsize h = 40" "e_shstrndx h < e_shnum h" "unat (e_phoff h) < 2 ^ 32" "unat (e_shoff h) < 2 ^ 32"
proof (cases "elfSize e < 52")
  case True
  then show ?thesis by (intro bad) (simp add: elf32_checkFile_def)
next
  case False
  then have s: "52 \<le> unat (elfSize e)" by (simp add: word_less_nat_alt)
  obtain h where h: "elf32_getHeader m e = Some h" "unat (e_phoff h) < 2 ^ 32" "unat (e_shoff h) < 2 ^ 32" using getHeader_ok(1) [OF m s] by blast
  obtain r where r: "elf_check_magic m (elfFile e) = Some r" using check_magic_ok [OF m] s by auto
  show ?thesis
  proof (cases "r < 0 \<or> e_class h \<noteq> ELFCLASS32 \<or> e_phentsize h \<noteq> 32 \<or> e_shentsize h \<noteq> 40 \<or> e_shstrndx h \<ge> e_shnum h")
    case True
    then show ?thesis using False h r by (intro bad) (auto simp: elf32_checkFile_def)
  next
    case ok: False
    then show ?thesis using False h r s by (intro good [of h]) (auto simp: elf32_checkFile_def)
  qed
qed

lemma checkFile64:
  assumes m: "mapped m (elfFile e) (unat (elfSize e))"
  obtains (bad) "elf64_checkFile m e = Some (-1, e)"
  | (good) h where "elf64_checkFile m e = Some (0, e\<lparr>elfClass := ELFCLASS64\<rparr>)" "64 \<le> unat (elfSize e)" "elf64_getHeader m e = Some h"
      "e_phentsize h = 56" "e_shentsize h = 64" "e_shstrndx h < e_shnum h"
proof (cases "elfSize e < 64")
  case True
  then show ?thesis by (intro bad) (simp add: elf64_checkFile_def)
next
  case False
  then have s: "64 \<le> unat (elfSize e)" by (simp add: word_less_nat_alt)
  obtain h where h: "elf64_getHeader m e = Some h" using getHeader_ok(2) [OF m s] by blast
  obtain r where r: "elf_check_magic m (elfFile e) = Some r" using check_magic_ok [OF m] s by auto
  show ?thesis
  proof (cases "r < 0 \<or> e_class h \<noteq> ELFCLASS64 \<or> e_phentsize h \<noteq> 56 \<or> e_shentsize h \<noteq> 64 \<or> e_shstrndx h \<ge> e_shnum h")
    case True
    then show ?thesis using False h r by (intro bad) (auto simp: elf64_checkFile_def)
  next
    case ok: False
    then show ?thesis using False h r s by (intro good [of h]) (auto simp: elf64_checkFile_def)
  qed
qed

lemma class_neq [simp]: "ELFCLASS64 \<noteq> ELFCLASS32" "ELFCLASS32 \<noteq> ELFCLASS64"
  by (simp_all add: ELFCLASS32_def ELFCLASS64_def)

lemma newFile32:
  assumes e: "e = \<lparr>elfFile = file, elfSize = sz, elfClass = ELFCLASS32\<rparr>" and m: "mapped m file (unat sz)" "52 \<le> unat sz"
    and h: "elf32_getHeader m e = Some h" "e_phentsize h = 32" "e_shentsize h = 40" "e_shstrndx h < e_shnum h" "unat (e_phoff h) < 2 ^ 32" "unat (e_shoff h) < 2 ^ 32"
  shows "\<exists>p s. elf_checkProgramHeaderTable m e = Some p \<and> elf_checkSectionTable m e = Some s \<and> p \<in> {-1, 0} \<and> s \<in> {-1, 0} \<and> (p = 0 \<and> s = 0 \<longrightarrow> elf_valid m e)"
proof -
  have k: "elf_isElf32 e" using e by (simp add: elf_isElf32_def)
  define p where "p = (ucast (ucast (e_phoff h) + ucast (e_phentsize h) * ucast (e_phnum h) :: u32) :: u64)"
  define s where "s = (ucast (ucast (e_shoff h) + ucast (e_shentsize h) * ucast (e_shnum h) :: u32) :: u64)"
  have "\<not> p < e_phoff h \<Longrightarrow> unat p = unat (e_phoff h) + 32 * unat (e_phnum h)" "\<not> s < e_shoff h \<Longrightarrow> unat s = unat (e_shoff h) + 40 * unat (e_shnum h)"
    using sum_32 [OF h(5) p_def] sum_32 [OF h(6) s_def] h(2,3) by simp_all
  then have "\<not> sz < p \<Longrightarrow> \<not> p < e_phoff h \<Longrightarrow> \<not> sz < s \<Longrightarrow> \<not> s < e_shoff h \<Longrightarrow> elf_valid m e"
    using m h k e by (simp add: elf_valid_def elf_header_def phsz_def shsz_def word_less_nat_alt not_less)
  then show ?thesis using k h(1) e
    by (auto simp: elf_checkProgramHeaderTable_def elf_checkSectionTable_def elf32_checkProgramHeaderTable_def elf32_checkSectionTable_def p_def s_def Let_def)
qed

lemma newFile64:
  assumes e: "e = \<lparr>elfFile = file, elfSize = sz, elfClass = ELFCLASS64\<rparr>" and m: "mapped m file (unat sz)" "64 \<le> unat sz"
    and h: "elf64_getHeader m e = Some h" "e_phentsize h = 56" "e_shentsize h = 64" "e_shstrndx h < e_shnum h"
  shows "\<exists>p s. elf_checkProgramHeaderTable m e = Some p \<and> elf_checkSectionTable m e = Some s \<and> p \<in> {-1, 0} \<and> s \<in> {-1, 0} \<and> (p = 0 \<and> s = 0 \<longrightarrow> elf_valid m e)"
proof -
  have k: "\<not> elf_isElf32 e" using e by (simp add: elf_isElf32_def)
  define p where "p = e_phoff h + ucast (e_phentsize h) * ucast (e_phnum h)"
  define s where "s = e_shoff h + ucast (e_shentsize h) * ucast (e_shnum h)"
  have "\<not> p < e_phoff h \<Longrightarrow> unat p = unat (e_phoff h) + 56 * unat (e_phnum h)" "\<not> s < e_shoff h \<Longrightarrow> unat s = unat (e_shoff h) + 64 * unat (e_shnum h)"
    using sum_64 [OF p_def] sum_64 [OF s_def] h(2,3) by simp_all
  then have "\<not> sz < p \<Longrightarrow> \<not> p < e_phoff h \<Longrightarrow> \<not> sz < s \<Longrightarrow> \<not> s < e_shoff h \<Longrightarrow> elf_valid m e"
    using m h k e by (simp add: elf_valid_def elf_header_def phsz_def shsz_def word_less_nat_alt not_less)
  then show ?thesis using k h(1) e
    by (auto simp: elf_checkProgramHeaderTable_def elf_checkSectionTable_def elf64_checkProgramHeaderTable_def elf64_checkSectionTable_def p_def s_def Let_def)
qed

lemma newFile_tables:
  assumes "elf_checkFile m \<lparr>elfFile = file, elfSize = sz, elfClass = 0\<rparr> = Some (0, e)" "elfFile e = file" "elfSize e = sz"
    "\<exists>p s. elf_checkProgramHeaderTable m e = Some p \<and> elf_checkSectionTable m e = Some s \<and> p \<in> {-1, 0} \<and> s \<in> {-1, 0} \<and> (p = 0 \<and> s = 0 \<longrightarrow> elf_valid m e)"
  shows "\<exists>st r. elf_newFile m file sz = Some (st, r) \<and> (st = 0 \<or> st = -1) \<and> (st = 0 \<longleftrightarrow> r \<noteq> None) \<and>
    (\<forall>e. r = Some e \<longrightarrow> elfFile e = file \<and> elfSize e = sz \<and> elf_valid m e)"
  using assms by (auto simp: elf_newFile_def elf_newFile_maybe_unsafe_def)

text \<open>Checking a file reads inside it, whatever its bytes are.\<close>

lemma newFile_valid:
  assumes "mapped m file (unat sz)"
  shows "\<exists>st r. elf_newFile m file sz = Some (st, r) \<and> (st = 0 \<or> st = -1) \<and> (st = 0 \<longleftrightarrow> r \<noteq> None) \<and>
    (\<forall>e. r = Some e \<longrightarrow> elfFile e = file \<and> elfSize e = sz \<and> elf_valid m e)"
proof -
  let ?e = "\<lparr>elfFile = file, elfSize = sz, elfClass = 0\<rparr>"
  have m: "mapped m (elfFile ?e) (unat (elfSize ?e))" using assms by simp
  from m show ?thesis
  proof (cases rule: checkFile32)
    case (good h)
    have "elf32_getHeader m (?e\<lparr>elfClass := ELFCLASS32\<rparr>) = Some h" using good(3) by (simp only: getHeader_class)
    note g = newFile32 [OF _ assms _ this]
    show ?thesis using good g by (intro newFile_tables [where e = "?e\<lparr>elfClass := ELFCLASS32\<rparr>"]) (auto simp: elf_checkFile_def)
  next
    case bad
    from m show ?thesis
    proof (cases rule: checkFile64)
      case (good h)
      have "elf64_getHeader m (?e\<lparr>elfClass := ELFCLASS64\<rparr>) = Some h" using good(3) by (simp only: getHeader_class)
    note g = newFile64 [OF _ assms _ this]
      show ?thesis using bad good g by (intro newFile_tables [where e = "?e\<lparr>elfClass := ELFCLASS64\<rparr>"]) (auto simp: elf_checkFile_def)
    next
      case bad64: bad
      then show ?thesis using bad by (simp add: elf_newFile_def elf_newFile_maybe_unsafe_def elf_checkFile_def)
    qed
  qed
qed

section \<open>Entries of accepted files\<close>

lemma entry_in:
  assumes "unat (tab :: u64) + es * unat (n :: u16) \<le> S" "i < ucast n" "unat c = es" "unat off + w \<le> es"
  shows "unat (tab + (c * i + off)) + w \<le> S"
proof -
  have "unat (ucast n :: u64) = unat n" by (simp add: unsigned_ucast_eq take_bit_nat_eq_self less_trans [OF unsigned_less])
  then have i: "unat i + 1 \<le> unat n" using assms(2) by (simp add: word_less_nat_alt)
  have "unat (tab + (c * i + off)) \<le> unat tab + (es * unat i + unat off)"
    using unat_add_le [of tab "c * i + off"] unat_add_le [of "c * i" off] unat_mul_le [of c i] unfolding assms(3) by linarith
  moreover have "es * unat i + es \<le> es * unat n" using mult_le_mono2 [OF i, of es] by (simp add: algebra_simps)
  ultimately show ?thesis using assms(1,4) by linarith
qed

lemmas elf_table_defs = elf_header_def elf32_getSectionTable_def elf64_getSectionTable_def elf32_getProgramHeaderTable_def
  elf64_getProgramHeaderTable_def
lemmas elf_num_defs = elf_getNumSections_def elf_getNumProgramHeaders_def elf_getSectionStringTableIndex_def elf32_getNumSections_def
  elf64_getNumSections_def elf32_getNumProgramHeaders_def elf64_getNumProgramHeaders_def elf32_getSectionStringTableIndex_def
  elf64_getSectionStringTableIndex_def
lemmas elf_section_defs = elf_getSectionNameOffset_def elf32_getSectionNameOffset_def elf64_getSectionNameOffset_def elf_getSectionType_def elf32_getSectionType_def elf64_getSectionType_def elf_getSectionFlags_def elf32_getSectionFlags_def elf64_getSectionFlags_def elf_getSectionAddr_def elf32_getSectionAddr_def elf64_getSectionAddr_def elf_getSectionOffset_def elf32_getSectionOffset_def elf64_getSectionOffset_def elf_getSectionSize_def elf32_getSectionSize_def elf64_getSectionSize_def elf_getSectionLink_def elf32_getSectionLink_def elf64_getSectionLink_def elf_getSectionInfo_def elf32_getSectionInfo_def elf64_getSectionInfo_def elf_getSectionAddrAlign_def elf32_getSectionAddrAlign_def elf64_getSectionAddrAlign_def elf_getSectionEntrySize_def elf32_getSectionEntrySize_def elf64_getSectionEntrySize_def
lemmas elf_segment_defs = elf_getProgramHeaderType_def elf32_getProgramHeaderType_def elf64_getProgramHeaderType_def elf_getProgramHeaderOffset_def elf32_getProgramHeaderOffset_def elf64_getProgramHeaderOffset_def elf_getProgramHeaderVaddr_def elf32_getProgramHeaderVaddr_def elf64_getProgramHeaderVaddr_def elf_getProgramHeaderPaddr_def elf32_getProgramHeaderPaddr_def elf64_getProgramHeaderPaddr_def elf_getProgramHeaderFileSize_def elf32_getProgramHeaderFileSize_def elf64_getProgramHeaderFileSize_def elf_getProgramHeaderMemorySize_def elf32_getProgramHeaderMemorySize_def elf64_getProgramHeaderMemorySize_def elf_getProgramHeaderFlags_def elf32_getProgramHeaderFlags_def elf64_getProgramHeaderFlags_def elf_getProgramHeaderAlign_def elf32_getProgramHeaderAlign_def elf64_getProgramHeaderAlign_def

lemma elf_numbers:
  assumes "elf_header m e = Some h"
  shows "elf_getNumSections m e = Some (ucast (e_shnum h))" "elf_getNumProgramHeaders m e = Some (ucast (e_phnum h))"
    "elf_getSectionStringTableIndex m e = Some (ucast (e_shstrndx h))"
  using assms by (simp_all add: elf_num_defs elf_header_def split: if_splits)

text \<open>All the fields of an entry can be read.\<close>

definition section_readable :: "vmem \<Rightarrow> elf_t \<Rightarrow> u64 \<Rightarrow> bool" where
  "section_readable m e i \<longleftrightarrow> elf_getSectionNameOffset m e i \<noteq> None \<and> elf_getSectionType m e i \<noteq> None \<and> elf_getSectionFlags m e i \<noteq> None \<and> elf_getSectionAddr m e i \<noteq> None \<and> elf_getSectionOffset m e i \<noteq> None \<and> elf_getSectionSize m e i \<noteq> None \<and> elf_getSectionLink m e i \<noteq> None \<and> elf_getSectionInfo m e i \<noteq> None \<and> elf_getSectionAddrAlign m e i \<noteq> None \<and> elf_getSectionEntrySize m e i \<noteq> None"

definition segment_readable :: "vmem \<Rightarrow> elf_t \<Rightarrow> u64 \<Rightarrow> bool" where
  "segment_readable m e i \<longleftrightarrow> elf_getProgramHeaderType m e i \<noteq> None \<and> elf_getProgramHeaderOffset m e i \<noteq> None \<and> elf_getProgramHeaderVaddr m e i \<noteq> None \<and> elf_getProgramHeaderPaddr m e i \<noteq> None \<and> elf_getProgramHeaderFileSize m e i \<noteq> None \<and> elf_getProgramHeaderMemorySize m e i \<noteq> None \<and> elf_getProgramHeaderFlags m e i \<noteq> None \<and> elf_getProgramHeaderAlign m e i \<noteq> None"

lemma section_ok:
  assumes v: "elf_valid m e" and h: "elf_header m e = Some h" and i: "i < ucast (e_shnum h)"
  shows "section_readable m e i"
proof -
  have m: "mapped m (elfFile e) (unat (elfSize e))" and s: "unat (e_shoff h) + shsz e * unat (e_shnum h) \<le> unat (elfSize e)"
    using v h by (auto simp: elf_valid_def)
  note b = entry_in [OF s i]
  show ?thesis
  proof (cases "elf_isElf32 e")
    case True
    have r: "\<exists>v. ld32 m (elfFile e + (e_shoff h + (40 * i + off))) = Some v" if "unat off + 4 \<le> 40" for off
      using b [of 40 off 4] that True by (intro ld32_ok [OF m]) (simp add: shsz_def)
    show ?thesis using h True r [of 0] r [of 4] r [of 8] r [of 12] r [of 16] r [of 20] r [of 24] r [of 28] r [of 32] r [of 36]
      by (auto simp: section_readable_def elf_section_defs elf_table_defs add.assoc ld32w_def)
  next
    case False
    have r: "\<exists>v. ld32 m (elfFile e + (e_shoff h + (64 * i + off))) = Some v" if "unat off + 4 \<le> 64" for off
      using b [of 64 off 4] that False by (intro ld32_ok [OF m]) (simp add: shsz_def)
    have r8: "\<exists>v. ld64 m (elfFile e + (e_shoff h + (64 * i + off))) = Some v" if "unat off + 8 \<le> 64" for off
      using b [of 64 off 8] that False by (intro ld64_ok [OF m]) (simp add: shsz_def)
    show ?thesis using h False r [of 0] r [of 4] r8 [of 8] r8 [of 16] r8 [of 24] r8 [of 32] r [of 40] r [of 44] r8 [of 48] r8 [of 56]
      by (auto simp: section_readable_def elf_section_defs elf_table_defs add.assoc ld32w_def)
  qed
qed

lemma segment_ok:
  assumes v: "elf_valid m e" and h: "elf_header m e = Some h" and i: "i < ucast (e_phnum h)"
  shows "segment_readable m e i"
proof -
  have m: "mapped m (elfFile e) (unat (elfSize e))" and s: "unat (e_phoff h) + phsz e * unat (e_phnum h) \<le> unat (elfSize e)"
    using v h by (auto simp: elf_valid_def)
  note b = entry_in [OF s i]
  show ?thesis
  proof (cases "elf_isElf32 e")
    case True
    have r: "\<exists>v. ld32 m (elfFile e + (e_phoff h + (32 * i + off))) = Some v" if "unat off + 4 \<le> 32" for off
      using b [of 32 off 4] that True by (intro ld32_ok [OF m]) (simp add: phsz_def)
    show ?thesis using h True r [of 0] r [of 4] r [of 8] r [of 12] r [of 16] r [of 20] r [of 24] r [of 28]
      by (auto simp: segment_readable_def elf_segment_defs elf_table_defs add.assoc ld32w_def)
  next
    case False
    have r: "\<exists>v. ld32 m (elfFile e + (e_phoff h + (56 * i + off))) = Some v" if "unat off + 4 \<le> 56" for off
      using b [of 56 off 4] that False by (intro ld32_ok [OF m]) (simp add: phsz_def)
    have r8: "\<exists>v. ld64 m (elfFile e + (e_phoff h + (56 * i + off))) = Some v" if "unat off + 8 \<le> 56" for off
      using b [of 56 off 8] that False by (intro ld64_ok [OF m]) (simp add: phsz_def)
    show ?thesis using h False r [of 0] r [of 4] r8 [of 8] r8 [of 16] r8 [of 24] r8 [of 32] r8 [of 40] r8 [of 48]
      by (auto simp: segment_readable_def elf_segment_defs elf_table_defs add.assoc ld32w_def)
  qed
qed

text \<open>Where a pointer the library hands out may lead: \<open>n\<close> bytes inside the file.\<close>

definition in_file :: "elf_t \<Rightarrow> u64 \<Rightarrow> u64 \<Rightarrow> bool" where
  "in_file e a n \<longleftrightarrow> (\<exists>off. a = elfFile e + off \<and> unat off + unat n \<le> unat (elfSize e))"

lemma end_in: "\<not> off + len < (off :: u64) \<Longrightarrow> \<not> S < off + len \<Longrightarrow> unat off + unat len \<le> unat S"
  using unat_plus_simple [of off len] by (simp add: not_less word_le_nat_alt)

lemma getSection_ok:
  assumes v: "elf_valid m e"
  shows "\<exists>p. elf_getSection m e i = Some p \<and> (\<forall>a. p = Some a \<longrightarrow> (\<exists>n. elf_getSectionSize m e i = Some n \<and> n \<noteq> 0 \<and> in_file e a n \<and> section_readable m e i))"
proof -
  obtain h where h: "elf_header m e = Some h" using v by (auto simp: elf_valid_def)
  show ?thesis
  proof (cases "i = 0 \<or> i \<ge> ucast (e_shnum h)")
    case True
    then show ?thesis using elf_numbers [OF h] by (auto simp: elf_getSection_def)
  next
    case False
    then have r: "section_readable m e i" using section_ok [OF v h] by auto
    then obtain off n where o: "elf_getSectionOffset m e i = Some off" "elf_getSectionSize m e i = Some n" by (auto simp: section_readable_def)
    then show ?thesis using False elf_numbers [OF h] r end_in [of off n "elfSize e"] by (auto simp: elf_getSection_def Let_def in_file_def)
  qed
qed

lemma getProgramSegment_ok:
  assumes "segment_readable m e ph"
  shows "\<exists>p. elf_getProgramSegment m e ph = Some p \<and> (\<forall>a. p = Some a \<longrightarrow> (\<exists>n. elf_getProgramHeaderFileSize m e ph = Some n \<and> in_file e a n))"
proof -
  obtain off n where "elf_getProgramHeaderOffset m e ph = Some off" "elf_getProgramHeaderFileSize m e ph = Some n"
    using assms by (auto simp: segment_readable_def)
  then show ?thesis using end_in [of off n "elfSize e"] by (auto simp: elf_getProgramSegment_def Let_def in_file_def)
qed

lemma getStringTable_ok:
  assumes v: "elf_valid m e"
  shows "\<exists>p. elf_getStringTable m e i = Some p \<and> (\<forall>a. p = Some a \<longrightarrow> (\<exists>n. elf_getSectionSize m e i = Some n \<and> in_file e a n \<and> m (a + (n - 1)) = Some 0))"
proof -
  obtain p where p: "elf_getSection m e i = Some p"
    "\<forall>a. p = Some a \<longrightarrow> (\<exists>n. elf_getSectionSize m e i = Some n \<and> n \<noteq> 0 \<and> in_file e a n \<and> section_readable m e i)" using getSection_ok [OF v] by blast
  show ?thesis
  proof (cases p)
    case None
    then show ?thesis using p(1) by (simp add: elf_getStringTable_def)
  next
    case (Some a)
    then obtain n ty where n: "elf_getSectionSize m e i = Some n" "n \<noteq> 0" "in_file e a n" "elf_getSectionType m e i = Some ty"
      using p(2) by (auto simp: section_readable_def)
    then obtain off where off: "a = elfFile e + off" "unat off + unat n \<le> unat (elfSize e)" by (auto simp: in_file_def)
    have "unat (n - 1) = unat n - 1" "0 < unat n" using n(2) by (simp_all add: unat_minus_one unat_gt_0)
    then have "unat (off + (n - 1)) < unat (elfSize e)" using off(2) unat_add_le [of off "n - 1"] by linarith
    then obtain c where "m (a + (n - 1)) = Some c"
      using mappedD [of m "elfFile e" _ "off + (n - 1)"] v off(1) by (auto simp: elf_valid_def add.assoc)
    then show ?thesis using p(1) Some n by (simp add: elf_getStringTable_def)
  qed
qed

section \<open>The loader\<close>

text \<open>Memory with a block of bytes put at an address.\<close>

definition put :: "vmem \<Rightarrow> u64 \<Rightarrow> u8 list \<Rightarrow> vmem" where
  "put m a bs = (\<lambda>x. if unat (x - a) < length bs then Some (bs ! unat (x - a)) else m x)"

lemma put_Cons:
  assumes "length cs < 2 ^ 64"
  shows "put (m(a \<mapsto> c)) (a + 1) cs = put m a (c # cs)"
proof
  fix x :: u64
  show "put (m(a \<mapsto> c)) (a + 1) cs x = put m a (c # cs) x"
  proof (cases "x = a")
    case True
    have "unat (- 1 :: u64) = 2 ^ 64 - 1" by (simp add: unsigned_minus_1_eq_mask mask_eq_exp_minus_1)
    then show ?thesis using True assms by (simp add: put_def)
  next
    case False
    then have "unat (x - a) = Suc (unat (x - a - 1))" using unat_minus_one [of "x - a"] by (simp add: unat_gt_0)
    then show ?thesis using False by (simp add: put_def diff_diff_eq)
  qed
qed

lemma vstore_put: "mapped m a (length bs) \<Longrightarrow> length bs < 2 ^ 64 \<Longrightarrow> vstore m a bs = Some (put m a bs)"
proof (induction bs arbitrary: m a)
  case Nil
  then show ?case by (simp add: put_def)
next
  case (Cons c cs)
  then have "m a \<noteq> None" "mapped m (a + 1) (length cs)" by (simp_all add: mapped_Suc)
  then have "m a \<noteq> None" "mapped (m(a \<mapsto> c)) (a + 1) (length cs)" by (simp_all add: mapped_def)
  then show ?case using Cons.IH [of "m(a \<mapsto> c)" "a + 1"] put_Cons [of cs m a c] Cons.prems(2) by (simp del: fun_upd_apply)
qed

lemma put_append:
  assumes "length bs + length cs < 2 ^ 64" "unat n = length bs"
  shows "put (put m a bs) (a + n) cs = put m a (bs @ cs)"
proof
  fix x :: u64
  have e: "x - (a + n) = x - a - n" by simp
  show "put (put m a bs) (a + n) cs x = put m a (bs @ cs) x"
  proof (cases "n \<le> x - a")
    case True
    then have "unat (x - a - n) = unat (x - a) - length bs" "length bs \<le> unat (x - a)"
      using assms(2) by (simp_all add: unat_sub word_le_nat_alt)
    then show ?thesis by (auto simp: put_def e nth_append)
  next
    case False
    then have l: "unat (x - a) < length bs" using assms(2) by (simp add: word_le_nat_alt)
    have "unat (x - a) = unat (x - a - n + n)" by simp
    also have "\<dots> = (unat (x - a - n) + length bs) mod 2 ^ 64" unfolding unat_word_ariths assms(2) by simp
    finally have u: "unat (x - a) = (unat (x - a - n) + length bs) mod 2 ^ 64" .
    have "\<not> unat (x - a - n) < length cs"
    proof
      assume "unat (x - a - n) < length cs"
      then have "(unat (x - a - n) + length bs) mod 2 ^ 64 = unat (x - a - n) + length bs" using assms(1) by (intro mod_less) linarith
      then show False using u l by linarith
    qed
    then show ?thesis using l by (simp add: put_def e nth_append)
  qed
qed

lemma put_keeps: "m x \<noteq> None \<Longrightarrow> put m a bs x \<noteq> None"
  by (simp add: put_def)

lemma put_apart: "(\<And>j. unat j < length bs \<Longrightarrow> a + j \<noteq> x) \<Longrightarrow> put m a bs x = m x"
  using add_diff_cancel_left' [of a "x - a"] by (force simp: put_def)

text \<open>What a segment contributes: its bytes of the file, then zeroes up to its size in memory. It is loadable
  when its bytes lie in the file, it is not larger in the file than in memory, and its place is mapped and
  apart from the file.\<close>

definition segment_image :: "elf_addr_type \<Rightarrow> vmem \<Rightarrow> elf_t \<Rightarrow> u64 \<Rightarrow> u64 \<times> u8 list" where
  "segment_image ty m e i =
     (let off = the (elf_getProgramHeaderOffset m e i); len = unat (the (elf_getProgramHeaderFileSize m e i));
          msz = unat (the (elf_getProgramHeaderMemorySize m e i))
      in (the (segment_addr ty m e i),
          map (\<lambda>k. the (m (elfFile e + off + of_nat k))) [0..<len] @ replicate (msz - len) 0))"

definition loadable :: "elf_addr_type \<Rightarrow> vmem \<Rightarrow> elf_t \<Rightarrow> u64 \<Rightarrow> bool" where
  "loadable ty m e i \<longleftrightarrow>
     (let off = the (elf_getProgramHeaderOffset m e i); len = the (elf_getProgramHeaderFileSize m e i);
          msz = the (elf_getProgramHeaderMemorySize m e i); dest = the (segment_addr ty m e i)
      in unat off + unat len \<le> unat (elfSize e) \<and> len \<le> msz \<and> mapped m dest (unat msz) \<and>
        (\<forall>j<unat msz. \<not> dest + of_nat j - elfFile e < elfSize e))"

definition put_segment :: "elf_addr_type \<Rightarrow> vmem \<Rightarrow> elf_t \<Rightarrow> nat \<Rightarrow> vmem \<Rightarrow> vmem" where
  "put_segment ty m e i m' = put m' (fst (segment_image ty m e (of_nat i))) (snd (segment_image ty m e (of_nat i)))"

text \<open>The memory in which the loader works: the file as it was, and everything still mapped.\<close>

definition loading :: "vmem \<Rightarrow> elf_t \<Rightarrow> vmem \<Rightarrow> bool" where
  "loading m e m' \<longleftrightarrow> same_at m m' (elfFile e) (unat (elfSize e)) \<and> (\<forall>x. m x \<noteq> None \<longrightarrow> m' x \<noteq> None)"

lemma segment_same:
  assumes v: "elf_valid m e" and h: "elf_header m e = Some h" and i: "i < ucast (e_phnum h)"
    and l: "same_at m m' (elfFile e) (unat (elfSize e))"
  shows "segment_addr ty m' e i = segment_addr ty m e i" "elf_getProgramHeaderOffset m' e i = elf_getProgramHeaderOffset m e i"
    "elf_getProgramHeaderFileSize m' e i = elf_getProgramHeaderFileSize m e i"
    "elf_getProgramHeaderMemorySize m' e i = elf_getProgramHeaderMemorySize m e i"
proof -
  have s: "unat (e_phoff h) + phsz e * unat (e_phnum h) \<le> unat (elfSize e)" and n: "(if elf_isElf32 e then 52 else 64) \<le> unat (elfSize e)"
    using v h by (auto simp: elf_valid_def)
  have h': "elf_header m' e = Some h" using h getHeader_same [OF l] n by (simp add: elf_header_def split: if_splits)
  have r: "ld32w m' (elfFile e + (e_phoff h + (32 * i + off))) = ld32w m (elfFile e + (e_phoff h + (32 * i + off)))"
    if "elf_isElf32 e" "unat off + 4 \<le> 32" for off
    using entry_in [OF s i, of 32 off 4] that by (intro ld32w_same [OF l]) (simp add: phsz_def)
  have r8: "ld64 m' (elfFile e + (e_phoff h + (56 * i + off))) = ld64 m (elfFile e + (e_phoff h + (56 * i + off)))"
    if "\<not> elf_isElf32 e" "unat off + 8 \<le> 56" for off
    using entry_in [OF s i, of 56 off 8] that by (intro ld64_same [OF l]) (simp add: phsz_def)
  note d = segment_addr_def elf_segment_defs elf_table_defs add.assoc
  show "segment_addr ty m' e i = segment_addr ty m e i" "elf_getProgramHeaderOffset m' e i = elf_getProgramHeaderOffset m e i"
    "elf_getProgramHeaderFileSize m' e i = elf_getProgramHeaderFileSize m e i"
    "elf_getProgramHeaderMemorySize m' e i = elf_getProgramHeaderMemorySize m e i"
    using h h' r r8 by (auto simp: d split: if_splits)
qed

lemma loading_header:
  assumes "elf_valid m e" "loading m e m'"
  shows "elf_header m' e = elf_header m e" "mapped m' (elfFile e) (unat (elfSize e))"
proof -
  note l = assms(2) [unfolded loading_def, THEN conjunct1]
  show "elf_header m' e = elf_header m e" using assms(1) getHeader_same [OF l] by (simp add: elf_header_def elf_valid_def split: if_splits)
  show "mapped m' (elfFile e) (unat (elfSize e))" using assms by (simp add: elf_valid_def mapped_def loading_def del: not_None_eq)
qed

lemma of_nat_below:
  assumes "k < unat (s :: u64)"
  shows "unat (of_nat k :: u64) = k"
proof -
  have "unat s < 2 ^ LENGTH(64)" by (rule unsigned_less)
  then have "k < 2 ^ 64" using assms by simp
  then show ?thesis by (simp add: unsigned_of_nat take_bit_nat_eq_self)
qed

lemma put_loading:
  assumes "loading m e m'" "\<And>j. unat j < length bs \<Longrightarrow> \<not> dest + j - elfFile e < elfSize e"
  shows "loading m e (put m' dest bs)"
proof -
  have "put m' dest bs (elfFile e + of_nat k) = m' (elfFile e + of_nat k)" if "k < unat (elfSize e)" for k
  proof (rule put_apart)
    fix j :: u64 assume "unat j < length bs"
    moreover have "unat (of_nat k :: u64) = k" using that by (rule of_nat_below)
    ultimately show "dest + j \<noteq> elfFile e + of_nat k" using assms(2) [of j] that by (auto simp: word_less_nat_alt)
  qed
  then show ?thesis using assms(1) by (auto simp: loading_def same_at_def put_def)
qed

lemma memcpy_put:
  assumes m: "mapped m' file (unat sz)" and o: "unat off + unat len \<le> unat sz" and d: "mapped m' dest (unat len)"
    and a: "\<And>j. j < len \<Longrightarrow> \<not> dest + j - file < sz"
  shows "vmemcpy m' dest (file + off) len = Some (put m' dest (map (\<lambda>k. the (m' (file + off + of_nat k))) [0..<unat len]))"
proof -
  have "\<not> dest - (file + off) < len"
  proof
    assume l: "dest - (file + off) < len"
    then have "unat (off + (dest - (file + off))) < unat sz"
      using o unat_add_le [of off "dest - (file + off)"] by (simp add: word_less_nat_alt)
    moreover have "off + (dest - (file + off)) = dest + 0 - file" by (simp add: algebra_simps)
    moreover have "0 < len" using l by (simp add: word_less_nat_alt)
    ultimately show False using a [of 0] by (simp add: word_less_nat_alt)
  qed
  moreover have "\<not> file + off - dest < len"
  proof
    assume l: "file + off - dest < len"
    have "dest + (file + off - dest) - file = off" by (simp add: algebra_simps)
    then show False using a [OF l] l o by (simp add: word_less_nat_alt)
  qed
  moreover have "mapped m' (file + off) (unat len)"
  proof -
    have "\<exists>c. m' (file + (off + of_nat i)) = Some c" if "i < unat len" for i
      using o that unat_add_le [of off "of_nat i"] of_nat_below [OF that] by (intro mappedD [OF m]) linarith
    then show ?thesis by (simp add: mapped_def add.assoc)
  qed
  ultimately show ?thesis using vbytes_ok [of m' "file + off" "unat len"] d unsigned_less [of len, where ?'a = nat]
    by (simp add: vmemcpy_def vstore_put)
qed

lemma loading_mapped: "loading m e m' \<Longrightarrow> mapped m a n \<Longrightarrow> mapped m' a n"
  by (simp add: loading_def mapped_def del: not_None_eq)

text \<open>The tail of a mapped block, and the bytes of the file, in the memory of the loader.\<close>

lemma mapped_tail:
  assumes "mapped m a (unat n)" "k \<le> n"
  shows "mapped m (a + k) (unat (n - k))"
proof -
  have "\<exists>c. m (a + (k + of_nat i)) = Some c" if "i < unat (n - k)" for i
    using that assms(2) unat_add_le [of k "of_nat i"] of_nat_below [OF that]
    by (intro mappedD [OF assms(1)]) (simp add: unat_sub word_le_nat_alt)
  then show ?thesis by (simp add: mapped_def add.assoc)
qed

lemma loading_bytes:
  assumes "loading m e m'" "unat off + unat (len :: u64) \<le> unat (elfSize e)"
  shows "map (\<lambda>k. the (m' (elfFile e + off + of_nat k))) [0..<unat len] = map (\<lambda>k. the (m (elfFile e + off + of_nat k))) [0..<unat len]"
proof -
  have "m' (elfFile e + (off + of_nat k)) = m (elfFile e + (off + of_nat k))" if "k < unat len" for k
    using assms that unat_add_le [of off "of_nat k"] of_nat_below [OF that] by (intro sameD [where n = "unat (elfSize e)"]) (auto simp: loading_def)
  then show ?thesis by (simp add: add.assoc)
qed

text \<open>One round of the loader puts the image of the segment.\<close>

lemma load_segment_put:
  assumes v: "elf_valid m e" and h: "elf_header m e = Some h" and i: "(of_nat i :: u64) < ucast (e_phnum h)"
    and l: "loading m e m'" and ok: "loadable ty m e (of_nat i)"
  shows "load_segment e ty (of_nat i) m' = Some (put_segment ty m e i m')" "loading m e (put_segment ty m e i m')"
proof -
  note same = segment_same [OF v h i loading_def [THEN iffD1, THEN conjunct1]]
  obtain off len msz dest where f: "elf_getProgramHeaderOffset m e (of_nat i) = Some off"
    "elf_getProgramHeaderFileSize m e (of_nat i) = Some len" "elf_getProgramHeaderMemorySize m e (of_nat i) = Some msz"
    "segment_addr ty m e (of_nat i) = Some dest"
    using segment_ok [OF v h i] by (cases ty) (auto simp: segment_readable_def segment_addr_def)
  have o: "unat off + unat len \<le> unat (elfSize e)" "len \<le> msz" "mapped m dest (unat msz)"
    and a: "\<forall>j<unat msz. \<not> dest + of_nat j - elfFile e < elfSize e"
    using ok f by (simp_all add: loadable_def Let_def)
  have ap: "\<not> dest + j - elfFile e < elfSize e" if "unat j < unat msz" for j using a that by (auto dest: spec [of _ "unat j"])
  have n: "unat len \<le> unat msz" "unat (msz - len) = unat msz - unat len" using o(2) by (simp_all add: word_le_nat_alt unat_sub)
  define bs where "bs = map (\<lambda>k. the (m (elfFile e + off + of_nat k))) [0..<unat len]"
  have L: "length bs = unat len" by (simp add: bs_def)
  let ?m1 = "put m' dest bs"
  have c: "vmemcpy m' dest (elfFile e + off) len = Some ?m1"
    using memcpy_put [OF loading_header(2) [OF v l] o(1) mapped_mono [OF loading_mapped [OF l o(3)] n(1)]] ap n(1) 
    by (simp add: loading_bytes [OF l o(1)] bs_def word_less_nat_alt)
  have l1: "loading m e ?m1" using ap n(1) L by (intro put_loading [OF l]) simp
  have w: "unat msz < 2 ^ LENGTH(64)" by (rule unsigned_less)
  have q: "put_segment ty m e i m' = put m' dest (bs @ replicate (unat msz - unat len) 0)" using f by (simp add: put_segment_def segment_image_def Let_def bs_def)
  have p: "put ?m1 (dest + len) (replicate (unat (msz - len)) 0) = put_segment ty m e i m'"
    unfolding q n(2) by (rule put_append) (use w L n(1) in simp_all)
  have "vmemset0 ?m1 (dest + len) (msz - len) = Some (put_segment ty m e i m')"
    using vstore_put [of ?m1 "dest + len" "replicate (unat (msz - len)) 0"] mapped_tail [OF loading_mapped [OF l1 o(3)] o(2)] w n p
    by (simp add: vmemset0_def)
  then show "load_segment e ty (of_nat i) m' = Some (put_segment ty m e i m')"
    using f c same [OF l] same [OF l1] by (simp add: load_segment_def)
  show "loading m e (put_segment ty m e i m')" using q ap n(1) L by (auto intro!: put_loading [OF l])
qed

text \<open>The rounds of the loop, from the memory it starts in to the image.\<close>

lemma load_loop_put:
  assumes v: "elf_valid m e" and h: "elf_header m e = Some h" and ok: "\<forall>i<unat (e_phnum h). loadable ty m e (of_nat i)"
  shows "loading m e m' \<Longrightarrow> i \<le> unat (e_phnum h) \<Longrightarrow>
    load_loop e ty (of_nat i) m' = Some (fold (put_segment ty m e) [i..<unat (e_phnum h)] m')"
proof (induction "unat (e_phnum h) - i" arbitrary: i m')
  case 0
  then have n: "elf_getNumProgramHeaders m' e = Some (ucast (e_phnum h))" "i = unat (e_phnum h)"
    using elf_numbers loading_header(1) [OF v] h by auto
  then show ?case by (subst load_loop.simps) (simp add: of_nat_unat)
next
  case (Suc d)
  then have n: "elf_getNumProgramHeaders m' e = Some (ucast (e_phnum h))" "i < unat (e_phnum h)"
    using elf_numbers loading_header(1) [OF v] h by auto
  have w: "unat (e_phnum h) < 2 ^ LENGTH(16)" by (rule unsigned_less)
  then have i: "(of_nat i :: u64) < ucast (e_phnum h)" using n(2)
    by (simp add: word_less_nat_alt unsigned_of_nat unsigned_ucast_eq take_bit_nat_eq_self)
  note r = load_segment_put [OF v h i Suc.prems(1)] ok [rule_format, OF n(2)]
  have "load_loop e ty (of_nat i) m' = load_loop e ty (of_nat (Suc i)) (put_segment ty m e i m')"
    using n(1) i r by (subst load_loop.simps) (simp add: add.commute)
  also have "\<dots> = Some (fold (put_segment ty m e) [Suc i..<unat (e_phnum h)] (put_segment ty m e i m'))"
    using Suc.hyps(2) n(2) r by (intro Suc.hyps(1)) auto
  finally show ?case using n(2) by (simp add: upt_conv_Cons)
qed

section \<open>A file in memory\<close>

text \<open>A 32-bit file of 168 bytes at \<open>0x1000\<close> with one segment of four bytes that takes six at \<open>0x2000\<close>, and two
  sections, the second its string table.\<close>

definition elf_demo_file :: "u8 list" where
  "elf_demo_file = [127, 69, 76, 70, 1, 1, 1, 0, 0, 0, 0, 0, 0, 0, 0, 0, 2, 0, 243, 0,
      1, 0, 0, 0, 0, 32, 0, 0, 52, 0, 0, 0, 84, 0, 0, 0, 0, 0, 0, 0,
      52, 0, 32, 0, 1, 0, 40, 0, 2, 0, 1, 0,
      1, 0, 0, 0, 164, 0, 0, 0, 0, 32, 0, 0, 0, 32, 0, 0, 4, 0, 0, 0,
      6, 0, 0, 0, 7, 0, 0, 0, 1, 0, 0, 0,
      0, 0, 0, 0, 0, 0, 0, 0, 0, 0, 0, 0, 0, 0, 0, 0, 0, 0, 0, 0,
      0, 0, 0, 0, 0, 0, 0, 0, 0, 0, 0, 0, 0, 0, 0, 0, 0, 0, 0, 0,
      1, 0, 0, 0, 3, 0, 0, 0, 0, 0, 0, 0, 0, 0, 0, 0, 164, 0, 0, 0,
      4, 0, 0, 0, 0, 0, 0, 0, 0, 0, 0, 0, 1, 0, 0, 0, 0, 0, 0, 0,
      0, 46, 115, 0]"

definition elf_demo_mem :: vmem where
  "elf_demo_mem a = (if a - 0x1000 < 168 then Some (elf_demo_file ! unat (a - 0x1000)) else if a - 0x2000 < 8 then Some 0xAA else None)"

definition demo_elf :: elf_t where
  "demo_elf = \<lparr>elfFile = 0x1000, elfSize = 168, elfClass = 1\<rparr>"

lemma demo_mapped: "mapped elf_demo_mem 0x1000 168" "mapped elf_demo_mem 0x2000 8"
  by (auto simp: mapped_def elf_demo_mem_def word_less_nat_alt unsigned_of_nat take_bit_nat_eq_self)

lemma demo_new: "elf_newFile elf_demo_mem 0x1000 168 = Some (0, Some demo_elf)"
  by code_simp

lemma demo_segment:
  "elf_getNumProgramHeaders elf_demo_mem demo_elf = Some 1" "elf_getProgramHeaderOffset elf_demo_mem demo_elf 0 = Some 164"
  "elf_getProgramHeaderFileSize elf_demo_mem demo_elf 0 = Some 4" "elf_getProgramHeaderMemorySize elf_demo_mem demo_elf 0 = Some 6"
  "segment_addr VIRTUAL elf_demo_mem demo_elf 0 = Some 0x2000"
  by code_simp+

section \<open>Properties\<close>

text \<open>C12: \<open>elf_newFile\<close> returns for every mapped file, reading nothing outside it, and what it accepts can be used
  safely: every field of every entry of both tables is read inside the file, \<open>elf_getSection\<close>,
  \<open>elf_getProgramSegment\<close> and the section string table are answered for every index with \<open>NULL\<close> or with a
  pointer to a block that lies in the file as a whole, and a string table ends with a zero byte.\<close>

theorem elf_validated_safe:
  assumes "mapped m file (unat sz)"
  shows "\<exists>st r. elf_newFile m file sz = Some (st, r) \<and> (st = 0 \<longleftrightarrow> r \<noteq> None) \<and>
    (\<forall>e. r = Some e \<longrightarrow> (\<exists>ns np. elf_getNumSections m e = Some ns \<and> elf_getNumProgramHeaders m e = Some np \<and>
       (\<forall>i<ns. section_readable m e i) \<and>
       (\<forall>i. \<exists>p. elf_getSection m e i = Some p \<and> (\<forall>a. p = Some a \<longrightarrow> (\<exists>n. elf_getSectionSize m e i = Some n \<and> in_file e a n))) \<and>
       (\<forall>ph<np. segment_readable m e ph \<and>
          (\<exists>p. elf_getProgramSegment m e ph = Some p \<and> (\<forall>a. p = Some a \<longrightarrow> (\<exists>n. elf_getProgramHeaderFileSize m e ph = Some n \<and> in_file e a n)))) \<and>
       (\<exists>p i. elf_getSectionStringTable m e = Some p \<and> elf_getSectionStringTableIndex m e = Some i \<and>
          (\<forall>a. p = Some a \<longrightarrow> (\<exists>n. elf_getSectionSize m e i = Some n \<and> in_file e a n \<and> m (a + (n - 1)) = Some 0)))))"
proof -
  obtain st r where r: "elf_newFile m file sz = Some (st, r)" "st = 0 \<longleftrightarrow> r \<noteq> None" "\<forall>e. r = Some e \<longrightarrow> elf_valid m e"
    using newFile_valid [OF assms] by blast
  show ?thesis
  proof (cases r)
    case (Some e)
    then have v: "elf_valid m e" using r(3) by simp
    then obtain h where h: "elf_header m e = Some h" by (auto simp: elf_valid_def)
    have t: "\<exists>p. elf_getSectionStringTable m e = Some p \<and>
        (\<forall>a. p = Some a \<longrightarrow> (\<exists>n. elf_getSectionSize m e (ucast (e_shstrndx h)) = Some n \<and> in_file e a n \<and> m (a + (n - 1)) = Some 0))"
      using getStringTable_ok [OF v] elf_numbers(3) [OF h] by (simp add: elf_getSectionStringTable_def)
    have g: "\<exists>p. elf_getSection m e i = Some p \<and> (\<forall>a. p = Some a \<longrightarrow> (\<exists>n. elf_getSectionSize m e i = Some n \<and> in_file e a n))" for i
      using getSection_ok [OF v, of i] by blast
    show ?thesis using r Some elf_numbers [OF h] section_ok [OF v h] segment_ok [OF v h] getProgramSegment_ok t g by auto
  qed (use r in simp)
qed

theorem elf_validated_safe_witness:
  "mapped elf_demo_mem 0x1000 (unat (168 :: u64)) \<and> elf_newFile elf_demo_mem 0x1000 168 = Some (0, Some demo_elf) \<and>
   section_readable elf_demo_mem demo_elf 1 \<and> segment_readable elf_demo_mem demo_elf 0"
proof -
  have n: "elf_getNumSections elf_demo_mem demo_elf = Some 2" by code_simp
  have "mapped elf_demo_mem 0x1000 (unat (168 :: u64))" using demo_mapped by simp
  from elf_validated_safe [OF this] this show ?thesis by (simp add: demo_new demo_segment n)
qed

text \<open>C14: loading an accepted file whose segments are loadable - their bytes lie in the file, they take at least
  as much in memory as in the file, their place is mapped and apart from the file - always finishes, and the
  memory afterwards is the memory before with the image of every segment put at its address, in order: the
  bytes of the file, then zeroes. Later segments win, and everything else, the file included, is as before.\<close>

theorem elf_loadFile_refines:
  assumes "mapped m file (unat sz)" "elf_newFile m file sz = Some (0, Some e)"
    and "elf_getNumProgramHeaders m e = Some n" "\<forall>i<unat n. loadable ty m e (of_nat i)"
  shows "elf_loadFile m e ty = Some (1, fold (put_segment ty m e) [0..<unat n] m)"
proof -
  have v: "elf_valid m e" using newFile_valid [OF assms(1)] assms(2) by auto
  then obtain h where h: "elf_header m e = Some h" by (auto simp: elf_valid_def)
  have n: "unat n = unat (e_phnum h)" using elf_numbers(2) [OF h] assms(3)
    by (auto simp: unsigned_ucast_eq take_bit_nat_eq_self less_trans [OF unsigned_less])
  have "loading m e m" by (simp add: loading_def same_at_def)
  from load_loop_put [OF v h _ this, of ty 0] assms(4) show ?thesis by (simp add: n elf_loadFile_def)
qed

theorem elf_loadFile_refines_witness:
  "loadable VIRTUAL elf_demo_mem demo_elf 0 \<and>
   (\<exists>m'. elf_loadFile elf_demo_mem demo_elf VIRTUAL = Some (1, m') \<and> map m' [0x2000, 0x2001, 0x2002, 0x2003, 0x2004, 0x2005, 0x2006] = map Some [0, 0x2E, 0x73, 0, 0, 0, 0xAA])"
proof -
  have "mapped elf_demo_mem 0x2000 6" using demo_mapped(2) by (rule mapped_mono) simp
  moreover have "\<not> 0x2000 + of_nat j - 0x1000 < (168 :: u64)" if "j < 6" for j
  proof -
    have "j \<in> set [0, 1, 2, 3, 4, 5]" using that by (simp, linarith)
    then show ?thesis by auto
  qed
  moreover have "elfFile demo_elf = 0x1000" "elfSize demo_elf = 168" by (simp_all add: demo_elf_def)
  ultimately have l: "loadable VIRTUAL elf_demo_mem demo_elf 0" by (simp add: loadable_def demo_segment Let_def)
  have "elf_loadFile elf_demo_mem demo_elf VIRTUAL = Some (1, fold (put_segment VIRTUAL elf_demo_mem demo_elf) [0..<1] elf_demo_mem)"
    using elf_loadFile_refines [of elf_demo_mem "0x1000" 168 demo_elf 1 VIRTUAL] demo_mapped(1) demo_new demo_segment(1) l by simp
  moreover have "map (fold (put_segment VIRTUAL elf_demo_mem demo_elf) [0..<1] elf_demo_mem) [0x2000, 0x2001, 0x2002, 0x2003, 0x2004, 0x2005, 0x2006] = map Some [0, 0x2E, 0x73, 0, 0, 0, 0xAA]"
    by code_simp
  ultimately show ?thesis using l by blast
qed

text \<open>An offset equal to the size of the string table is accepted as a name, and the name is then read from the
  byte behind the table, which need not be in the file.\<close>

lemma name_behind_table:
  assumes "elf_getSectionStringTableIndex m e = Some j" "elf_getStringTable m e j = Some (Some t)"
    "elf_getSectionSize m e j = Some n" "elf_getSectionNameOffset m e i = Some n"
  shows "elf_getSectionName m e i = Some (Some (t + n))"
  using assms by (simp add: elf_getSectionName_def)

text \<open>The bounds enclose the place of every segment that takes memory.\<close>

lemma bounds_enclose:
  "bounds_loop m e ty is b = Some (mn, mx) \<Longrightarrow> mn \<le> fst b \<and> snd b \<le> mx \<and>
   (\<forall>i\<in>set is. \<forall>sz a. elf_getProgramHeaderMemorySize m e (of_nat i) = Some sz \<longrightarrow> sz \<noteq> 0 \<longrightarrow>
      segment_addr ty m e (of_nat i) = Some a \<longrightarrow> mn \<le> a \<and> a + sz \<le> mx)"
proof (induction m e ty "is" b rule: bounds_loop.induct)
  case (2 m e ty i "is" mem_min mem_max)
  obtain sz where sz: "elf_getProgramHeaderMemorySize m e (of_nat i) = Some sz" using 2(3) by (auto split: bind_splits)
  show ?case
  proof (cases "sz = 0")
    case True
    then show ?thesis using 2(1,3) sz by auto
  next
    case False
    then obtain a where "segment_addr ty m e (of_nat i) = Some a" using 2(3) sz by (auto split: bind_splits)
    then show ?thesis using 2(2) [OF sz False] 2(3) sz False by (force simp: Let_def split: if_splits)
  qed
qed auto

end
