(* ===== verification/Spec2Isabelle.thy ===== *)
theory Spec2Isabelle
  imports Vmmgr Lock Sched Isr Cxxabi Vfs Fdt_Helper Sbif Boot_Types Harts Preload_Props Prep Elf_Props
begin

text \<open>
  Verification of the ABYDOS kernel for 64-bit RISC-V: the C++, C and assembly code under
  \<^verbatim>\<open>src/kernel\<close> and the libraries under \<^verbatim>\<open>src/deps\<close> that are built into it.

  \<^bold>\<open>The program.\<close> The firmware starts one hart at \<open>_entry\<close> (\<^verbatim>\<open>kernel/main/preloader.S\<close>), which builds a first
  page table and jumps to \<open>_start\<close> (\<^verbatim>\<open>kernel/main/prepC.S\<close>). \<open>k_boot\<close> (\<^verbatim>\<open>kernel/main/lowerenv.c\<close>) copies the
  device tree and calls \<open>k_boot_sysdev\<close> and \<open>k_boot_perip\<close> (\<^verbatim>\<open>kernel/main/k_boot.cpp\<close>): the driver manager
  (\<^verbatim>\<open>k_drvif\<close>) walks the tree with libfdt and the helpers of \<^verbatim>\<open>fdt_helper.c\<close> and installs the system drivers and
  the UART; the virtual memory manager (\<^verbatim>\<open>k_vmmgr.hpp\<close>) fills the page table (\<^verbatim>\<open>k_mmu.h\<close>) that replaces the first
  one; the virtual file system (\<^verbatim>\<open>k_vfs.h\<close>) mounts the archive the tree names (libcpio, \<^verbatim>\<open>cpiofs.cpp\<close>). Then
  \<open>k_boot_harts\<close> starts the other harts through the SBI interface (\<^verbatim>\<open>k_sbif.hpp\<close>), all run \<open>k_main\<close>, traps enter
  through \<^verbatim>\<open>k_isr.cpp\<close>, and at the end one hart waits for the others and cleans up.

  \<^bold>\<open>Conventions.\<close> Machine integers are words of their width, with the wrap-around of the code. A definition
  answers \<^typ>\<open>'a option\<close> where the code can trap or run forever: \<^const>\<open>None\<close> is an access outside the memory the
  code owns, a page fault, undefined behaviour or a loop that does not end. Loops that may not end are
  \<^theory_text>\<open>partial_function (option)\<close>, so no fuel is used; every statement that something is answered is a statement
  that the loop ends. Other loops recurse on a measure that the termination proof of the function gives; the
  only constant chosen is the bound 65536 on the rounds of the ELF loader, which reads a 16-bit number. The null
  pointer is an inner \<^const>\<open>None\<close>, an error code is the \<^typ>\<open>int\<close> the code returns. Firmware, device
  registers, the allocator of the C library, what \<open>satp\<close> keeps and uninitialised memory are arguments of the
  definitions; what is assumed of them are hypotheses of the theorems, and each has a witness.

  \<^bold>\<open>Theories, by part.\<close>

  \<^item> \<open>Abydos_Prelude\<close>, \<open>Bytes\<close>, \<open>Stdmap\<close>: error codes and layout of \<^verbatim>\<open>k_defs.h\<close>, bit fields, blocks of memory,
    \<open>std::map\<close>.
  \<^item> \<open>Preload\<close>, \<open>Preload_Props\<close>: \<^verbatim>\<open>preloader.S\<close>. \<open>pre_entry\<close>, \<open>entry_hart\<close>, \<open>setup_pgtbl\<close>, \<open>load_pgtbl\<close> and \<open>set_mmu\<close> are the
    code at the labels of those names. Shown: what the first page table maps, and where both entries lead.
  \<^item> \<open>Prep\<close>: \<open>_bss_zero\<close> and \<open>_setup_hart\<close> of \<^verbatim>\<open>prepC.S\<close>, \<open>k_cleanup\<close> of \<^verbatim>\<open>lowerenv.c\<close>. Shown: the layout of the
    thread-local data.
  \<^item> \<open>Sv_Paging\<close>, \<open>Page_Tables\<close>, \<open>Mmu\<close>, \<open>Mmu_Bits\<close>, \<open>Mmu_Correct\<close>, \<open>Mmu_Map\<close>, \<open>Mmu_Unmap\<close>, \<open>Mmu_Props\<close>: the translation of
    the privileged architecture as specification, and \<^verbatim>\<open>k_mmu.h\<close> and \<^verbatim>\<open>k_mem.hpp\<close>. \<open>kmem\<close> is the memory with the
    pages \<open>memalign\<close> will hand out; \<open>mmu_map\<close>, \<open>mmu_unmap\<close>, \<open>mmu_fork\<close> are the methods of \<open>RV64MMU\<close>. Shown: the
    tree invariant, that \<open>map\<close> refines the update of the translation on success and every error answer, that
    \<open>unmap\<close> undoes it, and where \<open>_getPTE\<close> traps.
  \<^item> \<open>Vmmgr\<close>: \<^verbatim>\<open>k_vmmgr.hpp\<close>, over the locale \<open>mmu_if\<close>, interpreted on \<open>RV64MMU\<close>. Shown: \<open>confirm\<close> realises the list of
    mappings, and how far it gets when the page table fails.
  \<^item> \<open>Lock\<close>: \<^verbatim>\<open>k_lock.h\<close> and the lock hooks of \<^verbatim>\<open>libc_hooks.cpp\<close>, one step per access to an atomic variable. Shown:
    mutual exclusion and recursion under all interleavings, and that the lock of \<open>malloc\<close> excludes nobody.
  \<^item> \<open>Isr\<close>: the trap entries of \<^verbatim>\<open>k_isr.cpp\<close> instruction by instruction around an arbitrary handler that obeys
    the calling convention. Shown: which registers each entry gives back, and which it loses.
  \<^item> \<open>Cxxabi\<close>: \<^verbatim>\<open>k_cxxabi.cpp\<close>. Shown: the order of destructors.
  \<^item> \<open>Sched\<close>: \<^verbatim>\<open>roundrobin.cpp\<close>, an interpretation of the locale \<open>sys_scheduler\<close>.
  \<^item> \<open>Fdt\<close>, \<open>Fdt_Ro\<close>: \<^verbatim>\<open>fdt.c\<close> and \<^verbatim>\<open>fdt_ro.c\<close> of libfdt. \<open>Fdt_Safe\<close> shows that the reading functions end and stay in the
    blob for arbitrary bytes, but for one alias loop; \<open>Fdt_Tree\<close> defines the flattening of a tree and shows
    that reading finds what the tree has. \<open>Fdt_Helper\<close>: \<^verbatim>\<open>fdt_addresses.c\<close> and \<^verbatim>\<open>fdt_helper.c\<close>.
  \<^item> \<open>Drvif\<close>, \<open>Uart8250\<close>, \<open>Devices\<close>: \<^verbatim>\<open>k_drvif\<close>, the drivers of \<^verbatim>\<open>kernel/driver\<close> and \<^verbatim>\<open>k_sysdev.h\<close>. The manager is
    proved over the locale \<open>driver_if\<close>, which is interpreted on the drivers of the kernel; the UART is shown
    to send what is written.
  \<^item> \<open>Cpio\<close>, \<open>Cpiofs\<close>, \<open>Vfs\<close>: libcpio, \<^verbatim>\<open>cpiofs.cpp\<close>, \<^verbatim>\<open>devfs.cpp\<close>, \<^verbatim>\<open>k_vfs\<close> and the file hooks of \<^verbatim>\<open>libc_hooks.cpp\<close>. The
    locale \<open>basic_fs\<close> is the contract of \<open>BasicFS\<close>, interpreted on both file systems. Shown: reading an archive
    gives back what was written into it, and any sequence of calls refines a set of independent open files.
  \<^item> \<open>Sbif\<close>: \<^verbatim>\<open>k_sbif.hpp\<close> and \<open>sbi_ecall\<close>.
  \<^item> \<open>Boot\<close>, \<open>Boot_Map\<close>, \<open>Boot_Root\<close>, \<open>Boot_Types\<close>: \<^verbatim>\<open>k_boot.cpp\<close> and \<open>k_boot\<close> of \<^verbatim>\<open>lowerenv.c\<close>, composed of the models
    above. Shown: the address space the kernel builds, the way from the device tree to a readable root file
    system, and that the unchecked casts are right.
  \<^item> \<open>Harts\<close>: \<open>k_boot_harts\<close>, \<open>k_before_cleanup\<close>, \<open>k_pre_main\<close> and \<open>k_after_main\<close> with the calls of \<^verbatim>\<open>prepC.S\<close>, as an
    interleaved machine. Shown: nobody runs while the kernel is cleaned up, except after a race that is
    exhibited.
  \<^item> \<open>Elf\<close>, \<open>Elf_Props\<close>: \<^verbatim>\<open>deps/libelf\<close>. Shown: what is accepted can be read safely, and the loader puts the image of
    the file into memory.

  \<^bold>\<open>Not modelled.\<close> Messages on the console and the printer of \<^verbatim>\<open>fdt_helper.c\<close>, because they have no result;
  the body of \<open>k_main\<close>, a test that only prints and loops; \<^verbatim>\<open>umode_test.S\<close> and the floating-point context of
  \<^verbatim>\<open>k_umode.h\<close>, which nothing calls; the constants of \<^verbatim>\<open>riscv_encoding.h\<close> and the SBI headers apart from those the
  modelled code uses, and the one-instruction wrappers of \<^verbatim>\<open>riscv_asm.h\<close> and \<^verbatim>\<open>riscv_io.h\<close>, which are the state
  and the arguments of the definitions; sections of the linker script other than the symbols used; the
  writing half of libfdt (\<^verbatim>\<open>fdt_sw.c\<close>, \<^verbatim>\<open>fdt_rw.c\<close>, \<^verbatim>\<open>fdt_wip.c\<close>, \<^verbatim>\<open>fdt_overlay.c\<close>), \<^verbatim>\<open>fdt_check.c\<close>, \<^verbatim>\<open>fdt_strerror.c\<close>
  and \<^verbatim>\<open>fdt_empty_tree.c\<close>, which the kernel links but never calls. Alignment faults, weak memory order other
  than the interleaving of atomic accesses, and timing are outside the model.
\<close>

section \<open>From the first page table to the kernel's own\<close>

text \<open>The state of the kernel on the demonstration machine once the preloader has left its memory and \<open>satp\<close>.\<close>

definition entered :: "u64 \<Rightarrow> (u64 \<Rightarrow> u64) \<Rightarrow> unit kst" where
  "entered v m = demo_kst\<lparr>km := demo_mem\<lparr>csr_satp := v, pmem := m\<rparr>\<rparr>"



end
